(* ===== verification/JSPrelude.thy ===== *)
theory JSPrelude
  imports Main "HOL-Library.Sublist" "HOL-Library.Multiset"
begin

text \<open>
  The shared prelude: JavaScript strings as lists of UTF-16 code units, the string operations the
  tools under \<^verbatim>\<open>src/tools/\<close> call on them, the result type of code that throws, and the generic
  lemmas the component theories rely on.

  A string is a list of code units, so \<open>length\<close> is JavaScript's \<open>length\<close> and \<open>s ! i\<close> is
  \<open>charCodeAt\<close>. An index past the end is \<open>undefined\<close> in JavaScript and \<open>None\<close> in
  \<open>js_at\<close>. Code that throws returns a sum: \<open>Inl\<close> the error, \<open>Inr\<close> the value.
\<close>

named_theorems js_simps \<open>equations of the string operations\<close>
named_theorems res_simps \<open>equations and inversions of the result type\<close>

section \<open>Results\<close>

type_synonym ('e, 'a) res = "'e + 'a"

definition res_bind :: "('e, 'a) res \<Rightarrow> ('a \<Rightarrow> ('e, 'b) res) \<Rightarrow> ('e, 'b) res" where
  "res_bind m f = (case m of Inl e \<Rightarrow> Inl e | Inr x \<Rightarrow> f x)"

lemma res_bind_simps [simp, res_simps]:
  "res_bind (Inl e) f = Inl e"
  "res_bind (Inr x) f = f x"
  by (simp_all add: res_bind_def)

lemma res_bind_Inr_iff [res_simps]:
  "res_bind m f = Inr y \<longleftrightarrow> (\<exists>x. m = Inr x \<and> f x = Inr y)"
  by (cases m) auto

lemma res_bind_Inl_iff [res_simps]:
  "res_bind m f = Inl e \<longleftrightarrow> m = Inl e \<or> (\<exists>x. m = Inr x \<and> f x = Inl e)"
  by (cases m) auto

lemma res_bind_cong [fundef_cong]:
  assumes "m = m'" and "\<And>x. m' = Inr x \<Longrightarrow> f x = f' x"
  shows "res_bind m f = res_bind m' f'"
  using assms by (cases m') auto

text \<open>A check that throws \<open>e\<close> when \<open>b\<close> holds, and continues otherwise.\<close>

definition throw_if :: "bool \<Rightarrow> 'e \<Rightarrow> ('e, 'a) res \<Rightarrow> ('e, 'a) res" where
  "throw_if b e k = (if b then Inl e else k)"

lemma throw_if_Inr_iff [res_simps]: "throw_if b e k = Inr y \<longleftrightarrow> \<not> b \<and> k = Inr y"
  by (simp add: throw_if_def)

lemma throw_if_Inl_iff [res_simps]: "throw_if b e k = Inl x \<longleftrightarrow> (if b then x = e else k = Inl x)"
  by (auto simp: throw_if_def)

lemma throw_if_simps [simp]: "throw_if True e k = Inl e" "throw_if False e k = k"
  by (simp_all add: throw_if_def)

text \<open>A loop over a list that stops at the first error.\<close>

fun fold_res :: "('x \<Rightarrow> 's \<Rightarrow> ('e, 's) res) \<Rightarrow> 'x list \<Rightarrow> 's \<Rightarrow> ('e, 's) res" where
  "fold_res f [] s = Inr s"
| "fold_res f (x # xs) s = res_bind (f x s) (fold_res f xs)"

lemma fold_res_append: "fold_res f (xs @ ys) s = res_bind (fold_res f xs s) (fold_res f ys)"
  by (induction xs arbitrary: s) (auto simp: res_bind_def split: sum.splits)

lemma fold_res_cong [fundef_cong]:
  assumes "xs = ys" and "s = t" and "\<And>x u. x \<in> set ys \<Longrightarrow> f x u = g x u"
  shows "fold_res f xs s = fold_res g ys t"
proof -
  have "\<And>s. (\<And>x u. x \<in> set ys \<Longrightarrow> f x u = g x u) \<Longrightarrow> fold_res f ys s = fold_res g ys s"
    by (induction ys) (auto simp: res_bind_def split: sum.splits)
  then show ?thesis using assms by simp
qed

lemma fold_res_each:
  "fold_res f xs s = Inr t \<Longrightarrow> x \<in> set xs \<Longrightarrow> \<exists>u v. f x u = Inr v"
  by (induction xs arbitrary: s) (auto simp: res_bind_Inr_iff)

fun map_res :: "('x \<Rightarrow> ('e, 'y) res) \<Rightarrow> 'x list \<Rightarrow> ('e, 'y list) res" where
  "map_res f [] = Inr []"
| "map_res f (x # xs) = res_bind (f x) (\<lambda>y. res_bind (map_res f xs) (\<lambda>ys. Inr (y # ys)))"

lemma map_res_Inr_iff: "map_res f xs = Inr ys \<longleftrightarrow> list_all2 (\<lambda>x y. f x = Inr y) xs ys"
proof (induction xs arbitrary: ys)
  case Nil
  then show ?case by auto
next
  case (Cons x xs)
  show ?case
    by (cases ys) (auto simp: res_bind_Inr_iff Cons.IH)
qed

text \<open>
  The interface of a loop that keeps an invariant: what one iteration promises, and what the whole
  run then promises. Every guarded loop of the model is an instance.
\<close>

locale guarded_loop =
  fixes step :: "'x \<Rightarrow> 's \<Rightarrow> ('e, 's) res"
    and ok :: "'x \<Rightarrow> bool"
    and inv :: "'s \<Rightarrow> bool"
  assumes step_inv: "ok x \<Longrightarrow> inv s \<Longrightarrow> step x s = Inr t \<Longrightarrow> inv t"
begin

lemma run_inv:
  assumes "inv s" and "\<And>x. x \<in> set xs \<Longrightarrow> ok x" and "fold_res step xs s = Inr t"
  shows "inv t"
  using assms
proof (induction xs arbitrary: s)
  case Nil
  then show ?case by simp
next
  case (Cons x xs)
  from Cons.prems(3) obtain u where u: "step x s = Inr u" and rest: "fold_res step xs u = Inr t"
    by (auto simp: res_bind_Inr_iff)
  from Cons.prems(2) have "ok x" by simp
  from step_inv [OF this Cons.prems(1) u] have "inv u" .
  with rest Cons.prems(2) show ?case by (auto intro: Cons.IH)
qed

lemma run_error:
  assumes "fold_res step xs s = Inl e" and "inv s" and "\<And>x. x \<in> set xs \<Longrightarrow> ok x"
  shows "\<exists>x u. x \<in> set xs \<and> inv u \<and> step x u = Inl e"
  using assms
proof (induction xs arbitrary: s)
  case Nil
  then show ?case by simp
next
  case (Cons x xs)
  show ?case
  proof (cases "step x s")
    case (Inl e')
    with Cons.prems show ?thesis by auto
  next
    case (Inr u)
    with step_inv Cons.prems(2,3) have "inv u" by (meson list.set_intros(1))
    moreover have "fold_res step xs u = Inl e" using Cons.prems(1) Inr by simp
    ultimately have "\<exists>y v. y \<in> set xs \<and> inv v \<and> step y v = Inl e"
      using Cons.prems(3) by (intro Cons.IH) auto
    then show ?thesis by auto
  qed
qed

end

text \<open>
  The interface of a check that collects findings: a step only adds to them. A run then only adds, and it ends
  without a finding exactly as its steps do.
\<close>

locale finding_step =
  fixes step :: "'x \<Rightarrow> 'f list \<Rightarrow> ('e, 'f list) res"
  assumes step_adds: "step x found = Inr t \<Longrightarrow> \<exists>more. t = found @ more"

sublocale finding_step \<subseteq> growing: guarded_loop step "\<lambda>_. True" "\<lambda>t. \<exists>more. t = base @ more" for base
  by unfold_locales (metis append_assoc step_adds)

context finding_step
begin

lemma run_adds: "fold_res step xs found = Inr t \<Longrightarrow> \<exists>more. t = found @ more"
  using growing.run_inv [of found found xs t] by auto

lemma run_clean:
  assumes "fold_res step xs found = Inr []"
  shows "found = [] \<and> (\<forall>x \<in> set xs. step x [] = Inr [])"
  using assms
proof (induction xs arbitrary: found)
  case (Cons x xs)
  then obtain t where "step x found = Inr t" "fold_res step xs t = Inr []" by (auto simp: res_simps)
  with Cons.IH [of t] step_adds [of x found t] show ?case by auto
qed simp

end

section \<open>Strings of UTF-16 code units\<close>

type_synonym jsstr = "nat list"

text \<open>An ASCII literal as code units.\<close>

abbreviation (input) js :: "string \<Rightarrow> jsstr" where
  "js s \<equiv> map of_char s"

abbreviation (input) cu :: "char \<Rightarrow> nat" where
  "cu c \<equiv> of_char c"

text \<open>\<open>s[i]\<close>: undefined past the end.\<close>

definition js_at :: "'a list \<Rightarrow> nat \<Rightarrow> 'a option" where
  "js_at s i = (if i < length s then Some (s ! i) else None)"

lemma js_at_simps [simp, js_simps]:
  "js_at [] i = None"
  "js_at (x # xs) 0 = Some x"
  "js_at (x # xs) (Suc i) = js_at xs i"
  "js_at (x # xs) (numeral k) = js_at xs (pred_numeral k)"
  by (simp_all add: js_at_def numeral_eq_Suc)

lemma js_at_Some_iff: "js_at s i = Some c \<longleftrightarrow> i < length s \<and> s ! i = c"
  by (auto simp: js_at_def)

lemma js_at_None_iff: "js_at s i = None \<longleftrightarrow> length s \<le> i"
  by (auto simp: js_at_def)

lemma js_at_drop: "js_at s i = (case drop i s of [] \<Rightarrow> None | c # _ \<Rightarrow> Some c)"
  by (cases "i < length s") (auto simp: js_at_def Cons_nth_drop_Suc [symmetric])

text \<open>\<open>s.slice(a, b)\<close> for non-negative bounds.\<close>

definition js_slice :: "'a list \<Rightarrow> nat \<Rightarrow> nat \<Rightarrow> 'a list" where
  "js_slice s a b = take (b - a) (drop a s)"

lemma js_slice_self [simp]: "js_slice s a a = []"
  by (simp add: js_slice_def)

lemma length_js_slice: "length (js_slice s a b) = min b (length s) - a"
  by (auto simp: js_slice_def)

lemma set_js_slice_subset: "set (js_slice s a b) \<subseteq> set s"
  by (auto simp: js_slice_def dest: in_set_takeD in_set_dropD)

lemma js_slice_append:
  assumes "a \<le> b" and "b \<le> c"
  shows "js_slice s a b @ js_slice s b c = js_slice s a c"
proof -
  from assms obtain i j where "b = a + i" "c = a + i + j"
    by (metis le_Suc_ex)
  then show ?thesis
    by (simp add: js_slice_def take_add add.commute)
qed

definition js_starts :: "jsstr \<Rightarrow> jsstr \<Rightarrow> bool" where
  "js_starts s p = (take (length p) s = p)"

lemma js_starts_iff: "js_starts s p \<longleftrightarrow> (\<exists>r. s = p @ r)"
  unfolding js_starts_def by (metis append_eq_conv_conj append_take_drop_id)

lemma js_starts_simps [simp, js_simps]:
  "js_starts s [] = True"
  "js_starts [] (c # p) = False"
  "js_starts (d # s) (c # p) = (d = c \<and> js_starts s p)"
  by (auto simp: js_starts_def)

definition js_ends :: "jsstr \<Rightarrow> jsstr \<Rightarrow> bool" where
  "js_ends s p = js_starts (rev s) (rev p)"

lemma js_ends_iff: "js_ends s p \<longleftrightarrow> (\<exists>r. s = r @ p)"
proof
  assume "js_ends s p"
  then obtain r where "rev s = rev p @ r" by (auto simp: js_ends_def js_starts_iff)
  then have "rev (rev s) = rev (rev p @ r)" by (rule arg_cong)
  then show "\<exists>r. s = r @ p" by auto
next
  assume "\<exists>r. s = r @ p"
  then show "js_ends s p" by (auto simp: js_ends_def js_starts_iff)
qed

text \<open>\<open>s.indexOf(c, from)\<close> for one character: \<open>None\<close> stands for \<open>-1\<close>.\<close>

fun find_unit :: "'a \<Rightarrow> 'a list \<Rightarrow> nat option" where
  "find_unit c [] = None"
| "find_unit c (x # xs) = (if x = c then Some 0 else map_option Suc (find_unit c xs))"

definition js_index :: "'a \<Rightarrow> 'a list \<Rightarrow> nat \<Rightarrow> nat option" where
  "js_index c s from = map_option (\<lambda>k. k + from) (find_unit c (drop from s))"

lemma find_unit_SomeD:
  "find_unit c s = Some k \<Longrightarrow> k < length s \<and> s ! k = c \<and> c \<notin> set (take k s)"
  by (induction s arbitrary: k) (auto split: if_splits)

lemma find_unit_None_iff: "find_unit c s = None \<longleftrightarrow> c \<notin> set s"
  by (induction s) auto

lemma find_unit_append: "c \<notin> set xs \<Longrightarrow> find_unit c (xs @ c # ys) = Some (length xs)"
  by (induction xs) auto

lemma find_unit_shift:
  "c \<notin> set xs \<Longrightarrow> find_unit c (xs @ ys) = map_option (\<lambda>k. k + length xs) (find_unit c ys)"
  by (induction xs) (auto simp: option.map_comp comp_def option.map_ident)

lemma js_index_SomeD:
  assumes "js_index c s from = Some k"
  shows "from \<le> k" "k < length s" "s ! k = c" "c \<notin> set (js_slice s from k)"
proof -
  from assms obtain j where j: "find_unit c (drop from s) = Some j" and k: "k = j + from"
    by (auto simp: js_index_def)
  from find_unit_SomeD [OF j]
  have "j < length (drop from s)" "drop from s ! j = c" "c \<notin> set (take j (drop from s))"
    by auto
  with k show "from \<le> k" "k < length s" "s ! k = c" "c \<notin> set (js_slice s from k)"
    by (auto simp: js_slice_def add.commute)
qed

lemma js_index_None_iff: "js_index c s from = None \<longleftrightarrow> c \<notin> set (drop from s)"
  by (simp add: js_index_def find_unit_None_iff)

text \<open>\<open>s.indexOf(p, from)\<close> for a string, and \<open>s.includes(p)\<close>.\<close>

fun find_sub :: "jsstr \<Rightarrow> jsstr \<Rightarrow> nat option" where
  "find_sub p [] = (if p = [] then Some 0 else None)"
| "find_sub p (x # xs) =
     (if js_starts (x # xs) p then Some 0 else map_option Suc (find_sub p xs))"

definition js_find :: "jsstr \<Rightarrow> jsstr \<Rightarrow> nat \<Rightarrow> nat option" where
  "js_find p s from = map_option (\<lambda>k. k + from) (find_sub p (drop from s))"

definition js_includes :: "jsstr \<Rightarrow> jsstr \<Rightarrow> bool" where
  "js_includes s p = (find_sub p s \<noteq> None)"

lemma find_sub_SomeD:
  "find_sub p s = Some k \<Longrightarrow> k \<le> length s \<and> js_starts (drop k s) p"
  by (induction s arbitrary: k) (auto split: if_splits)

lemma find_sub_le: "js_starts (drop k s) p \<Longrightarrow> k \<le> length s \<Longrightarrow> \<exists>j\<le>k. find_sub p s = Some j"
proof (induction s arbitrary: k)
  case Nil
  then show ?case by (cases p) auto
next
  case (Cons x s)
  show ?case
  proof (cases "js_starts (x # s) p")
    case True
    then show ?thesis by auto
  next
    case False
    with Cons.prems obtain k' where k: "k = Suc k'" by (cases k) auto
    with Cons.prems have "js_starts (drop k' s) p" "k' \<le> length s" by auto
    from Cons.IH [OF this] obtain j where "j \<le> k'" "find_sub p s = Some j" by auto
    with False k show ?thesis by auto
  qed
qed

lemma find_sub_first:
  "find_sub p s = Some k \<longleftrightarrow> k \<le> length s \<and> js_starts (drop k s) p \<and> (\<forall>j < k. \<not> js_starts (drop j s) p)"
proof
  assume found: "find_sub p s = Some k"
  have "\<not> js_starts (drop j s) p" if "j < k" for j
    using find_sub_le [of j s p] find_sub_SomeD [OF found] found that by auto
  with find_sub_SomeD [OF found] show "k \<le> length s \<and> js_starts (drop k s) p \<and> (\<forall>j < k. \<not> js_starts (drop j s) p)" by blast
next
  assume first: "k \<le> length s \<and> js_starts (drop k s) p \<and> (\<forall>j < k. \<not> js_starts (drop j s) p)"
  then obtain j where j: "j \<le> k" "find_sub p s = Some j" using find_sub_le [of k s p] by blast
  with find_sub_SomeD [OF j(2)] first have "j = k" by (metis nat_less_le)
  with j show "find_sub p s = Some k" by simp
qed

lemma js_includes_iff: "js_includes s p \<longleftrightarrow> (\<exists>a b. s = a @ p @ b)"
proof
  assume "js_includes s p"
  then obtain k where "find_sub p s = Some k" by (auto simp: js_includes_def)
  then have "js_starts (drop k s) p" by (auto dest: find_sub_SomeD)
  then obtain b where "drop k s = p @ b" by (auto simp: js_starts_iff)
  then have "s = take k s @ p @ b" by (metis append_take_drop_id)
  then show "\<exists>a b. s = a @ p @ b" by blast
next
  assume "\<exists>a b. s = a @ p @ b"
  then obtain a b where s: "s = a @ p @ b" by blast
  then have "js_starts (drop (length a) s) p" by (auto simp: js_starts_iff)
  from find_sub_le [OF this] s show "js_includes s p" by (auto simp: js_includes_def)
qed

text \<open>\<open>s.split(c)\<close> on one character and \<open>xs.join(sep)\<close>.\<close>

fun js_split :: "'a \<Rightarrow> 'a list \<Rightarrow> 'a list list" where
  "js_split c [] = [[]]"
| "js_split c (x # xs) =
     (if x = c then [] # js_split c xs
      else (case js_split c xs of [] \<Rightarrow> [[x]] | y # ys \<Rightarrow> (x # y) # ys))"

fun js_join :: "'a list \<Rightarrow> 'a list list \<Rightarrow> 'a list" where
  "js_join sep [] = []"
| "js_join sep [x] = x"
| "js_join sep (x # y # ys) = x @ sep @ js_join sep (y # ys)"

lemma js_split_not_Nil [simp]: "js_split c s \<noteq> []"
  by (cases s) (auto split: list.splits)

lemma js_join_Cons: "xs \<noteq> [] \<Longrightarrow> js_join sep (x # xs) = x @ sep @ js_join sep xs"
  by (cases xs) auto

lemma js_join_split [simp]: "js_join [c] (js_split c s) = s"
proof (induction s)
  case Nil
  then show ?case by simp
next
  case (Cons x s)
  obtain y ys where y: "js_split c s = y # ys" by (cases "js_split c s") auto
  with Cons show ?case by (cases ys) (auto simp: js_join_Cons)
qed

lemma js_split_no_sep: "p \<in> set (js_split c s) \<Longrightarrow> c \<notin> set p"
proof (induction s arbitrary: p)
  case Nil
  then show ?case by simp
next
  case (Cons x s)
  obtain y ys where y: "js_split c s = y # ys" by (cases "js_split c s") auto
  with Cons.prems Cons.IH show ?case by (auto split: if_splits)
qed

lemma js_split_single: "c \<notin> set s \<Longrightarrow> js_split c s = [s]"
  by (induction s) auto

lemma js_split_append: "c \<notin> set a \<Longrightarrow> js_split c (a @ c # s) = a # js_split c s"
  by (induction a) auto

lemma js_split_join:
  "xs \<noteq> [] \<Longrightarrow> (\<And>p. p \<in> set xs \<Longrightarrow> c \<notin> set p) \<Longrightarrow> js_split c (js_join [c] xs) = xs"
proof (induction xs)
  case (Cons x xs)
  then show ?case
    by (cases "xs = []") (auto simp: js_split_single js_join_Cons js_split_append)
qed simp

lemma length_js_split: "length (js_split c s) \<le> Suc (length s)"
proof (induction s)
  case (Cons x s)
  then show ?case by (cases "js_split c s") auto
qed simp

text \<open>\<open>s.replaceAll(c, r)\<close> for one character.\<close>

definition replace_unit :: "nat \<Rightarrow> jsstr \<Rightarrow> jsstr \<Rightarrow> jsstr" where
  "replace_unit c r s = concat (map (\<lambda>x. if x = c then r else [x]) s)"

lemma replace_unit_simps [simp, js_simps]:
  "replace_unit c r [] = []"
  "replace_unit c r (x # s) = (if x = c then r else [x]) @ replace_unit c r s"
  by (simp_all add: replace_unit_def)

lemma replace_unit_id: "c \<notin> set s \<Longrightarrow> replace_unit c r s = s"
  by (induction s) auto

lemma set_replace_unit: "c \<notin> set r \<Longrightarrow> c \<notin> set (replace_unit c r s)"
  by (induction s) auto

text \<open>
  \<open>toLowerCase\<close>: the ASCII letters, and the two code points beyond ASCII whose lower-case mapping
  contains an ASCII letter (U+212A KELVIN SIGN is \<open>k\<close>, U+0130 is \<open>i\<close> and U+0307). Every other
  code unit is kept: the modelled code compares lower-cased text with ASCII names only, and
  those comparisons do not see how the other letters fold.
\<close>

definition lower_unit :: "nat \<Rightarrow> jsstr" where
  "lower_unit c =
     (if 65 \<le> c \<and> c \<le> 90 then [c + 32]
      else if c = 0x212A then [107]
      else if c = 0x130 then [105, 0x307]
      else [c])"

definition js_lower :: "jsstr \<Rightarrow> jsstr" where
  "js_lower s = concat (map lower_unit s)"

lemma js_lower_simps [simp, js_simps]:
  "js_lower [] = []"
  "js_lower (c # s) = lower_unit c @ js_lower s"
  by (simp_all add: js_lower_def)

lemma js_lower_append: "js_lower (s @ t) = js_lower s @ js_lower t"
  by (simp add: js_lower_def)

lemma js_lower_idem [simp]: "js_lower (js_lower s) = js_lower s"
  by (induction s) (auto simp: js_lower_append lower_unit_def)

text \<open>\<open>trim\<close> and its white space.\<close>

definition js_space :: "nat \<Rightarrow> bool" where
  "js_space c \<longleftrightarrow> (9 \<le> c \<and> c \<le> 13) \<or> c = 32 \<or> c = 0xA0 \<or> c = 0xFEFF \<or> c = 0x1680 \<or>
     (0x2000 \<le> c \<and> c \<le> 0x200A) \<or> c = 0x2028 \<or> c = 0x2029 \<or> c = 0x202F \<or> c = 0x205F \<or> c = 0x3000"

definition js_trim_start :: "jsstr \<Rightarrow> jsstr" where
  "js_trim_start = dropWhile js_space"

definition js_trim_end :: "jsstr \<Rightarrow> jsstr" where
  "js_trim_end s = rev (dropWhile js_space (rev s))"

definition js_trim :: "jsstr \<Rightarrow> jsstr" where
  "js_trim s = js_trim_end (js_trim_start s)"

text \<open>\<open>[...new Set(xs)]\<close>: the first occurrence of each value, in order.\<close>

fun js_uniq_acc :: "'a list \<Rightarrow> 'a list \<Rightarrow> 'a list" where
  "js_uniq_acc seen [] = []"
| "js_uniq_acc seen (x # xs) =
     (if x \<in> set seen then js_uniq_acc seen xs else x # js_uniq_acc (x # seen) xs)"

definition js_uniq :: "'a list \<Rightarrow> 'a list" where
  "js_uniq xs = js_uniq_acc [] xs"

lemma set_js_uniq_acc: "set (js_uniq_acc seen xs) = set xs - set seen"
  by (induction xs arbitrary: seen) auto

lemma set_js_uniq [simp]: "set (js_uniq xs) = set xs"
  by (simp add: js_uniq_def set_js_uniq_acc)

lemma distinct_js_uniq_acc: "distinct (js_uniq_acc seen xs)"
  by (induction xs arbitrary: seen) (auto simp: set_js_uniq_acc)

lemma distinct_js_uniq [simp]: "distinct (js_uniq xs)"
  by (simp add: js_uniq_def distinct_js_uniq_acc)

lemma length_js_uniq: "length (js_uniq xs) \<le> length xs"
proof -
  have "\<And>seen. length (js_uniq_acc seen xs) \<le> length xs"
    by (induction xs) (auto intro: le_SucI)
  then show ?thesis by (simp add: js_uniq_def)
qed

section \<open>Code points and UTF-8 length\<close>

definition high_surrogate :: "nat \<Rightarrow> bool" where
  "high_surrogate c \<longleftrightarrow> 0xD800 \<le> c \<and> c \<le> 0xDBFF"

definition low_surrogate :: "nat \<Rightarrow> bool" where
  "low_surrogate c \<longleftrightarrow> 0xDC00 \<le> c \<and> c \<le> 0xDFFF"

text \<open>The code points a regular expression with the \<open>u\<close> flag reads; a lone surrogate is itself.\<close>

fun code_points :: "jsstr \<Rightarrow> nat list" where
  "code_points [] = []"
| "code_points [c] = [c]"
| "code_points (c # d # s) =
     (if high_surrogate c \<and> low_surrogate d
      then (0x10000 + (c - 0xD800) * 0x400 + (d - 0xDC00)) # code_points s
      else c # code_points (d # s))"

text \<open>\<open>String.fromCodePoint\<close>.\<close>

definition from_code_point :: "nat \<Rightarrow> jsstr" where
  "from_code_point n =
     (if n < 0x10000 then [n]
      else [0xD800 + (n - 0x10000) div 0x400, 0xDC00 + (n - 0x10000) mod 0x400])"

text \<open>\<open>Buffer.byteLength\<close>: a lone surrogate is written as U+FFFD, three bytes.\<close>

definition point_bytes :: "nat \<Rightarrow> nat" where
  "point_bytes n = (if n < 0x80 then 1 else if n < 0x800 then 2 else if n < 0x10000 then 3 else 4)"

definition byte_length :: "jsstr \<Rightarrow> nat" where
  "byte_length s = sum_list (map point_bytes (code_points s))"

lemma point_bytes_pos [simp]: "0 < point_bytes n"
  by (simp add: point_bytes_def)

lemma length_le_byte_length: "length s \<le> byte_length s"
proof (induction s rule: code_points.induct)
  case 1
  then show ?case by (simp add: byte_length_def)
next
  case (2 c)
  then show ?case by (simp add: byte_length_def point_bytes_def)
next
  case (3 c d s)
  show ?case
  proof (cases "high_surrogate c \<and> low_surrogate d")
    case True
    with 3 show ?thesis by (auto simp: byte_length_def point_bytes_def)
  next
    case False
    then have "length (d # s) \<le> byte_length (d # s)" using 3 by blast
    moreover have "1 \<le> point_bytes c" by (simp add: point_bytes_def)
    ultimately show ?thesis using False by (auto simp: byte_length_def)
  qed
qed

lemma byte_length_ascii: "\<forall>c \<in> set s. c < 0x80 \<Longrightarrow> byte_length s = length s"
  by (induction s rule: code_points.induct)
     (auto simp: byte_length_def point_bytes_def high_surrogate_def)

text \<open>
  A well-formed UTF-8 sequence as UTF-16 code units. \<open>Buffer.toString\<close> replaces an ill-formed
  sequence and the source then compares the bytes again, so \<open>None\<close> is exactly its refusal.
\<close>

definition cont :: "nat \<Rightarrow> bool" where "cont b \<longleftrightarrow> 0x80 \<le> b \<and> b < 0xC0"

fun utf8_decode :: "nat list \<Rightarrow> jsstr option" where
  "utf8_decode [] = Some []"
| "utf8_decode (b # bs) =
     (if b < 0x80 then map_option (\<lambda>s. b # s) (utf8_decode bs)
      else
        (case bs of
           [] \<Rightarrow> None
         | c # cs \<Rightarrow>
             if 0xC2 \<le> b \<and> b < 0xE0 \<and> cont c then
               map_option (\<lambda>s. from_code_point ((b - 0xC0) * 64 + (c - 0x80)) @ s) (utf8_decode cs)
             else
               (case cs of
                  [] \<Rightarrow> None
                | d # ds \<Rightarrow>
                    let n = (b - 0xE0) * 4096 + (c - 0x80) * 64 + (d - 0x80) in
                    if 0xE0 \<le> b \<and> b < 0xF0 \<and> cont c \<and> cont d \<and> 0x800 \<le> n \<and> \<not> (0xD800 \<le> n \<and> n < 0xE000) then
                      map_option (\<lambda>s. from_code_point n @ s) (utf8_decode ds)
                    else
                      (case ds of
                         [] \<Rightarrow> None
                       | e # es \<Rightarrow>
                           let n = (b - 0xF0) * 262144 + (c - 0x80) * 4096 + (d - 0x80) * 64 + (e - 0x80) in
                           if 0xF0 \<le> b \<and> b < 0xF5 \<and> cont c \<and> cont d \<and> cont e \<and> 0x10000 \<le> n \<and> n < 0x110000 then
                             map_option (\<lambda>s. from_code_point n @ s) (utf8_decode es)
                           else None))))"

text \<open>\<open>String(n)\<close> for a natural number.\<close>

fun nat_digits :: "nat \<Rightarrow> jsstr" where
  "nat_digits n = (if n < 10 then [48 + n] else nat_digits (n div 10) @ [48 + n mod 10])"

declare nat_digits.simps [simp del]

text \<open>
  \<open>xs.sort(compare)\<close>: a stable sort by a comparison, where \<open>le x y\<close> is \<open>compare(x, y) <= 0\<close>.
\<close>

fun insert_by :: "('a \<Rightarrow> 'a \<Rightarrow> bool) \<Rightarrow> 'a \<Rightarrow> 'a list \<Rightarrow> 'a list" where
  "insert_by le x [] = [x]"
| "insert_by le x (y # ys) = (if le x y then x # y # ys else y # insert_by le x ys)"

definition sort_by :: "('a \<Rightarrow> 'a \<Rightarrow> bool) \<Rightarrow> 'a list \<Rightarrow> 'a list" where
  "sort_by le xs = foldr (insert_by le) xs []"

lemma set_insert_by [simp]: "set (insert_by le x xs) = insert x (set xs)"
  by (induction xs) auto

lemma length_insert_by [simp]: "length (insert_by le x xs) = Suc (length xs)"
  by (induction xs) auto

lemma mset_insert_by: "mset (insert_by le x xs) = add_mset x (mset xs)"
  by (induction xs) auto

lemma sort_by_simps [simp]: "sort_by le [] = []" "sort_by le (x # xs) = insert_by le x (sort_by le xs)"
  by (simp_all add: sort_by_def)

lemma mset_sort_by [simp]: "mset (sort_by le xs) = mset xs"
  by (induction xs) (simp_all add: mset_insert_by)

lemma set_sort_by [simp]: "set (sort_by le xs) = set xs"
  by (induction xs) simp_all

lemma length_sort_by [simp]: "length (sort_by le xs) = length xs"
  by (induction xs) simp_all

text \<open>A comparison that is total and transitive sorts.\<close>

definition total_preorder :: "'a set \<Rightarrow> ('a \<Rightarrow> 'a \<Rightarrow> bool) \<Rightarrow> bool" where
  "total_preorder A le \<longleftrightarrow>
     (\<forall>x \<in> A. \<forall>y \<in> A. le x y \<or> le y x) \<and> (\<forall>x \<in> A. \<forall>y \<in> A. \<forall>z \<in> A. le x y \<longrightarrow> le y z \<longrightarrow> le x z)"

lemma sorted_insert_by:
  assumes "total_preorder A le" and "x \<in> A" and "set xs \<subseteq> A" and "sorted_wrt le xs"
  shows "sorted_wrt le (insert_by le x xs)"
  using assms(3,4)
proof (induction xs)
  case (Cons y ys)
  then have y: "y \<in> A" and ys: "set ys \<subseteq> A" "sorted_wrt le ys" "\<forall>z \<in> set ys. le y z" by auto
  show ?case
  proof (cases "le x y")
    case True
    have "le x z" if "z \<in> set ys" for z
    proof -
      have "z \<in> A" "le y z" using that ys by auto
      with assms(1,2) True y show ?thesis unfolding total_preorder_def by blast
    qed
    with True ys show ?thesis by simp
  next
    case False
    moreover from assms(1,2) y have "le x y \<or> le y x" unfolding total_preorder_def by blast
    ultimately have "le y x" by blast
    with False Cons.IH [OF ys(1,2)] ys(3) show ?thesis by simp
  qed
qed simp

lemma sorted_sort_by:
  assumes "total_preorder A le" and "set xs \<subseteq> A"
  shows "sorted_wrt le (sort_by le xs)"
  using assms(2)
proof (induction xs)
  case (Cons x xs)
  then show ?case by (auto intro!: sorted_insert_by [OF assms(1)])
qed simp

text \<open>\<open>JSON.stringify\<close> of a string.\<close>

definition hex_digit :: "nat \<Rightarrow> nat" where
  "hex_digit n = (if n < 10 then 48 + n else 87 + n)"

definition json_escape :: "nat \<Rightarrow> jsstr" where
  "json_escape c =
     [92, 117, hex_digit (c div 4096 mod 16), hex_digit (c div 256 mod 16), hex_digit (c div 16 mod 16), hex_digit (c mod 16)]"

definition json_unit :: "nat \<Rightarrow> jsstr" where
  "json_unit c =
     (if c = 34 \<or> c = 92 then [92, c]
      else if c = 8 then [92, 98] else if c = 9 then [92, 116] else if c = 10 then [92, 110]
      else if c = 12 then [92, 102] else if c = 13 then [92, 114]
      else if c < 32 \<or> high_surrogate c \<or> low_surrogate c then json_escape c
      else [c])"

fun json_body :: "jsstr \<Rightarrow> jsstr" where
  "json_body [] = []"
| "json_body [c] = json_unit c"
| "json_body (c # d # s) =
     (if high_surrogate c \<and> low_surrogate d then c # d # json_body s else json_unit c @ json_body (d # s))"

definition json_string :: "jsstr \<Rightarrow> jsstr" where
  "json_string s = 34 # json_body s @ [34]"

end
