(* ===== verification/GlobCompile.thy ===== *)
theory GlobCompile
  imports JSPrelude
begin

text \<open>
  The style-exclusion glob compiler of \<^verbatim>\<open>src/tools/markdownlint/verify.mjs\<close>: from the pattern a
  repository declares (\<open>parseStyleExclusion\<close>) to path segments, each a globstar or a list of token
  alternatives. A function that returns a problem string in the source returns \<open>Inl\<close> of a
  \<open>glob_problem\<close> here, one constructor per message.

  The Unicode classes \<^verbatim>\<open>\\p{L}\<close>, \<^verbatim>\<open>\\p{M}\<close> and \<^verbatim>\<open>\\p{N}\<close> of the source's regular expressions are the
  engine's tables: the record \<open>unicode\<close> stands for them and is an argument of what uses them.
\<close>

record unicode =
  is_letter :: "nat \<Rightarrow> bool"
  is_mark :: "nat \<Rightarrow> bool"
  is_number :: "nat \<Rightarrow> bool"

definition MAX_STYLE_EXCLUSION_BYTES :: nat where
  "MAX_STYLE_EXCLUSION_BYTES = 256"

definition MAX_BRACE_ALTERNATIVES :: nat where
  "MAX_BRACE_ALTERNATIVES = 64"

definition GLOBSTAR :: jsstr where
  "GLOBSTAR = js ''**''"

text \<open>Why a character is refused (\<open>CHARACTER_PROBLEMS\<close>).\<close>

datatype char_reason = QuoteReason | GroupReason | AllowListReason

datatype glob_problem =
    UnclosedClass
  | NestedClass
  | RepeatProblem
  | StrayClassEnd
  | UnclosedBrace
  | NestedBrace
  | StrayBraceEnd
  | BraceRange
  | DotStarInList
  | SingleAlternative
  | TooManyAlternatives
  | BangClass
  | EmptyClass
  | ReversedRange nat nat
  | SpanningRange nat nat
  | EmptyAlternative
  | StarAlternative
  | InnerGlobstar
  | BadCharacter nat char_reason
  | OneSegmentRun
  | WildcardsOnly
  | Diverges

section \<open>Brace lists\<close>

text \<open>\<open>classEnd\<close>: the index of the \<open>]\<close> closing the class opened at \<open>index\<close>, or the problem.\<close>

definition classEnd :: "jsstr \<Rightarrow> nat \<Rightarrow> (glob_problem, nat) res" where
  "classEnd segment index =
     (case js_index (cu CHR '']'') segment (index + 1) of
        None \<Rightarrow> Inl UnclosedClass
      | Some end \<Rightarrow>
          if cu CHR ''['' \<in> set (js_slice segment (index + 1) end) then Inl NestedClass
          else if js_at segment (end + 1) = Some (cu CHR ''+'') then Inl RepeatProblem
          else Inr end)"

text \<open>A part is literal text or a brace list (an array in the source).\<close>

datatype part = Literal jsstr | Alternatives "jsstr list"

text \<open>\<open>alternative.replace(/\[[^\]]*\]/gu, "c")\<close>.\<close>

function collapse_classes :: "jsstr \<Rightarrow> jsstr" where
  "collapse_classes s =
     (case s of
        [] \<Rightarrow> []
      | c # r \<Rightarrow>
          if c = cu CHR ''['' then
            (case find_unit (cu CHR '']'') r of
               None \<Rightarrow> c # collapse_classes r
             | Some k \<Rightarrow> cu CHR ''c'' # collapse_classes (drop (Suc k) r))
          else c # collapse_classes r)"
  by pat_completeness auto
termination
  by (relation "measure length") auto

declare collapse_classes.simps [simp del]

definition closedListProblem :: "jsstr list \<Rightarrow> nat option \<Rightarrow> glob_problem option" where
  "closedListProblem list next =
     (if \<exists>alternative \<in> set list. js_includes alternative (js ''..'') then Some BraceRange
      else if \<exists>alternative \<in> set list. js_includes (collapse_classes alternative) (js ''.*'')
        then Some DotStarInList
      else if length list < 2 then Some SingleAlternative
      else if next = Some (cu CHR ''+'') then Some RepeatProblem
      else None)"

text \<open>
  The state of the scan: the open list (\<open>None\<close> when no brace is open), the literal text read so
  far and the parts already closed.
\<close>

record brace_state =
  bs_parts :: "part list"
  bs_list :: "jsstr list option"
  bs_literal :: jsstr

definition braceDelimiter ::
  "nat \<Rightarrow> nat option \<Rightarrow> brace_state \<Rightarrow> (glob_problem, brace_state) res" where
  "braceDelimiter character next st =
     (if character = cu CHR ''{'' then
        (if bs_list st \<noteq> None then Inl NestedBrace
         else if next = Some (cu CHR ''+'') then Inl RepeatProblem
         else Inr (st\<lparr>bs_parts := bs_parts st @ [Literal (bs_literal st)],
                      bs_list := Some [], bs_literal := []\<rparr>))
      else
        (case bs_list st of
           None \<Rightarrow> Inl StrayBraceEnd
         | Some list0 \<Rightarrow>
             (let list = list0 @ [bs_literal st] in
              if character = cu CHR '','' then
                Inr (st\<lparr>bs_list := Some list, bs_literal := []\<rparr>)
              else
                (case closedListProblem list next of
                   Some p \<Rightarrow> Inl p
                 | None \<Rightarrow> Inr (st\<lparr>bs_parts := bs_parts st @ [Alternatives list],
                                  bs_list := None, bs_literal := []\<rparr>)))))"

text \<open>
  The loop of \<open>braceParts\<close> from \<open>index\<close>; the source bounds it by the segment's length and by
  \<open>MAX_STYLE_EXCLUSION_BYTES\<close>.
\<close>

lemma classEnd_SomeD:
  assumes "classEnd segment index = Inr end"
  shows "index < end" "end < length segment" "segment ! end = 93"
    "93 \<notin> set (js_slice segment (index + 1) end)" "91 \<notin> set (js_slice segment (index + 1) end)"
  using assms js_index_SomeD [of 93 segment "index + 1" "end"]
  by (auto simp: classEnd_def split: option.splits if_splits)

function brace_loop :: "jsstr \<Rightarrow> nat \<Rightarrow> brace_state \<Rightarrow> (glob_problem, brace_state) res" where
  "brace_loop segment index st =
     (if \<not> (index < length segment \<and> index < MAX_STYLE_EXCLUSION_BYTES) then Inr st
      else
        (let character = segment ! index in
         if character = cu CHR '']'' then Inl StrayClassEnd
         else if character = cu CHR ''{'' \<or> character = cu CHR ''}'' \<or>
                 (character = cu CHR '','' \<and> bs_list st \<noteq> None) then
           (case braceDelimiter character (js_at segment (index + 1)) st of
              Inl p \<Rightarrow> Inl p
            | Inr st' \<Rightarrow> brace_loop segment (index + 1) st')
         else if character \<noteq> cu CHR ''['' then
           brace_loop segment (index + 1) (st\<lparr>bs_literal := bs_literal st @ [character]\<rparr>)
         else
           (case classEnd segment index of
              Inl p \<Rightarrow> Inl p
            | Inr end \<Rightarrow>
                brace_loop segment (end + 1)
                  (st\<lparr>bs_literal := bs_literal st @ js_slice segment index (end + 1)\<rparr>))))"
  by pat_completeness auto
termination
  by (relation "measure (\<lambda>(segment, index, st). length segment - index)")
     (auto dest: classEnd_SomeD)

declare brace_loop.simps [simp del]

definition braceParts :: "jsstr \<Rightarrow> (glob_problem, part list) res" where
  "braceParts segment =
     res_bind (brace_loop segment 0 \<lparr>bs_parts = [], bs_list = None, bs_literal = []\<rparr>) (\<lambda>st.
       if bs_list st \<noteq> None then Inl UnclosedBrace
       else Inr (bs_parts st @ [Literal (bs_literal st)]))"

fun part_choices :: "part \<Rightarrow> jsstr list" where
  "part_choices (Literal t) = [t]"
| "part_choices (Alternatives ts) = ts"

text \<open>One iteration of the product loop of \<open>expandBraces\<close>.\<close>

definition expand_step :: "part \<Rightarrow> jsstr list \<Rightarrow> (glob_problem, jsstr list) res" where
  "expand_step p alternatives =
     (let choices = part_choices p in
      if length alternatives * length choices > MAX_BRACE_ALTERNATIVES then Inl TooManyAlternatives
      else Inr (concat (map (\<lambda>prefix. map (\<lambda>choice. prefix @ choice) choices) alternatives)))"

definition expandBraces :: "jsstr \<Rightarrow> (glob_problem, jsstr list) res" where
  "expandBraces segment =
     res_bind (braceParts segment) (\<lambda>parts.
       res_bind (fold_res expand_step (take MAX_STYLE_EXCLUSION_BYTES parts) [[]]) (\<lambda>alternatives.
         Inr (js_uniq alternatives)))"

section \<open>Tokens\<close>

text \<open>
  A class token carries its negation, its ranges and, for a body without a character of
  picomatch's regular-expression set, the bracketed text it also matches.
\<close>

datatype token =
    Star
  | AnyChar
  | Lit nat
  | Class (negated: bool) (ranges: "(nat \<times> nat) list") (literal: "jsstr option")

text \<open>\<open>classRanges(body, start)\<close>, on the part of the body from \<open>start\<close>.\<close>

fun class_ranges :: "nat \<Rightarrow> jsstr \<Rightarrow> (nat \<times> nat) list" where
  "class_ranges 0 body = []"
| "class_ranges (Suc left) [] = []"
| "class_ranges (Suc left) (a # b # c # rest) =
     (if b = cu CHR ''-'' then (a, c) # class_ranges (left - 2) rest
      else (a, a) # class_ranges left (b # c # rest))"
| "class_ranges (Suc left) (a # rest) = (a, a) # class_ranges left rest"

definition classRanges :: "jsstr \<Rightarrow> nat \<Rightarrow> (nat \<times> nat) list" where
  "classRanges body start = class_ranges (MAX_STYLE_EXCLUSION_BYTES - start) (drop start body)"

definition SLASH_CODE :: nat where
  "SLASH_CODE = 0x2f"

text \<open>\<open>PICOMATCH_REGEX_CHARS\<close>: the characters \<^verbatim>\<open>-*+?.^${}(|)[]\<close>.\<close>

definition picomatch_regex_chars :: jsstr where
  "picomatch_regex_chars = js ''-*+?.^${}(|)[]''"

definition classToken :: "jsstr \<Rightarrow> (glob_problem, token) res" where
  "classToken body =
     (if js_starts body (js ''!'') then Inl BangClass
      else
        (let neg = js_starts body (js ''^''); start = (if neg then 1 else 0) in
         if length body = start then Inl EmptyClass
         else
           (let rs = classRanges body start in
            case find (\<lambda>(low, high). high < low) rs of
              Some (low, high) \<Rightarrow> Inl (ReversedRange low high)
            | None \<Rightarrow>
                (case (if neg then None
                       else find (\<lambda>(low, high). low \<le> SLASH_CODE \<and> SLASH_CODE \<le> high) rs) of
                   Some (low, high) \<Rightarrow> Inl (SpanningRange low high)
                 | None \<Rightarrow>
                     Inr (Class neg rs
                       (if \<exists>c \<in> set body. c \<in> set picomatch_regex_chars then None
                        else Some (js ''['' @ body @ js '']'')))))))"

definition literalTokens :: "jsstr \<Rightarrow> token list" where
  "literalTokens text = map Lit text"

text \<open>One iteration of the loop of \<open>bracketVariants\<close>.\<close>

definition token_choices :: "token \<Rightarrow> token list list" where
  "token_choices t =
     (case t of
        Class neg rs (Some text) \<Rightarrow> [[t], literalTokens text]
      | _ \<Rightarrow> [[t]])"

definition variant_step :: "token \<Rightarrow> token list list \<Rightarrow> (glob_problem, token list list) res" where
  "variant_step t variants =
     (let choices = token_choices t in
      if length variants * length choices > MAX_BRACE_ALTERNATIVES then Inl TooManyAlternatives
      else Inr (concat (map (\<lambda>prefix. map (\<lambda>choice. prefix @ choice) choices) variants)))"

definition bracketVariants :: "token list \<Rightarrow> (glob_problem, token list list) res" where
  "bracketVariants tokens = fold_res variant_step (take MAX_STYLE_EXCLUSION_BYTES tokens) [[]]"

text \<open>
  \<open>segmentTokens\<close> from \<open>index\<close>. A \<open>[\<close> without a closing \<open>]\<close> would set the source's index to
  \<open>-1\<close> and restart its loop for ever: that branch is \<open>Diverges\<close>, and
  \<open>compileSegment\<close> never reaches it.
\<close>

function tokens_loop :: "jsstr \<Rightarrow> nat \<Rightarrow> token list \<Rightarrow> (glob_problem, token list) res" where
  "tokens_loop text index tokens =
     (if \<not> (index < length text \<and> index < MAX_STYLE_EXCLUSION_BYTES) then Inr tokens
      else
        (let character = text ! index in
         if character = cu CHR ''*'' then
           tokens_loop text (index + 1)
             (if tokens \<noteq> [] \<and> last tokens = Star then tokens else tokens @ [Star])
         else if character = cu CHR ''?'' then
           tokens_loop text (index + 1) (tokens @ [AnyChar])
         else if character = cu CHR ''['' then
           (case js_index (cu CHR '']'') text (index + 1) of
              None \<Rightarrow> Inl Diverges
            | Some end \<Rightarrow>
                (case classToken (js_slice text (index + 1) end) of
                   Inl p \<Rightarrow> Inl p
                 | Inr t \<Rightarrow> tokens_loop text (end + 1) (tokens @ [t])))
         else tokens_loop text (index + 1) (tokens @ [Lit character])))"
  by pat_completeness auto
termination
  by (relation "measure (\<lambda>(text, index, tokens). length text - index)")
     (auto dest: js_index_SomeD(1) js_index_SomeD(2))

declare tokens_loop.simps [simp del]

definition segmentTokens :: "jsstr \<Rightarrow> (glob_problem, token list) res" where
  "segmentTokens text = tokens_loop text 0 []"

section \<open>Segments\<close>

record segment =
  globstar :: bool
  wildcard :: bool
  alternatives :: "token list list"

definition ANY_SEGMENT :: segment where
  "ANY_SEGMENT = \<lparr>globstar = False, wildcard = True, alternatives = [[Star]]\<rparr>"

definition alternativeProblem :: "jsstr \<Rightarrow> jsstr \<Rightarrow> glob_problem option" where
  "alternativeProblem alternative seg =
     (if alternative = [] \<or> alternative = js ''.'' \<or> alternative = js ''..'' then Some EmptyAlternative
      else if alternative \<noteq> seg \<and> (\<forall>c \<in> set alternative. c = cu CHR ''*'') then Some StarAlternative
      else None)"

text \<open>\<open>/[\p{L}\p{N}]/u.test(text)\<close>.\<close>

definition names_path :: "unicode \<Rightarrow> jsstr \<Rightarrow> bool" where
  "names_path U text \<longleftrightarrow> (\<exists>p \<in> set (code_points text). is_letter U p \<or> is_number U p)"

text \<open>One iteration of the loop of \<open>compileSegment\<close> over the expanded alternatives.\<close>

definition compile_step ::
  "jsstr \<Rightarrow> jsstr \<Rightarrow> token list list \<Rightarrow> (glob_problem, token list list) res" where
  "compile_step seg alternative acc =
     (case alternativeProblem alternative seg of
        Some p \<Rightarrow> Inl p
      | None \<Rightarrow>
          res_bind (segmentTokens alternative) (\<lambda>tokens.
            res_bind (bracketVariants tokens) (\<lambda>variants.
              if length acc + length variants > MAX_BRACE_ALTERNATIVES then Inl TooManyAlternatives
              else Inr (acc @ variants))))"

definition compileSegment :: "unicode \<Rightarrow> jsstr \<Rightarrow> (glob_problem, segment) res" where
  "compileSegment U seg =
     (if seg = GLOBSTAR then Inr \<lparr>globstar = True, wildcard = True, alternatives = []\<rparr>
      else if js_includes seg GLOBSTAR then Inl InnerGlobstar
      else
        res_bind (expandBraces seg) (\<lambda>expanded.
          res_bind (fold_res (compile_step seg) (take MAX_BRACE_ALTERNATIVES expanded) []) (\<lambda>alts.
            Inr \<lparr>globstar = False,
                 wildcard = (\<exists>alternative \<in> set expanded. \<not> names_path U alternative),
                 alternatives = alts\<rparr>)))"

text \<open>\<open>GLOB_PUNCTUATION\<close> and the characters a glob may hold besides letters, marks and digits.\<close>

definition GLOB_PUNCTUATION :: jsstr where
  "GLOB_PUNCTUATION =
     js ''._-/*?[]^{},!#$%&'' @ [39] @ js ''+:;<=>@'' @ [96] @ js ''~''"

definition supported_character :: "unicode \<Rightarrow> nat \<Rightarrow> bool" where
  "supported_character U p \<longleftrightarrow>
     is_letter U p \<or> is_mark U p \<or> is_number U p \<or> p = 32 \<or> p \<in> set GLOB_PUNCTUATION"

definition characterProblem :: "unicode \<Rightarrow> jsstr \<Rightarrow> glob_problem option" where
  "characterProblem U pattern =
     (case find (\<lambda>p. \<not> supported_character U p) (code_points pattern) of
        None \<Rightarrow> None
      | Some p \<Rightarrow>
          Some (BadCharacter p
            (if p = 34 then QuoteReason
             else if p = cu CHR ''('' \<or> p = cu CHR '')'' \<or> p = cu CHR ''|'' then GroupReason
             else AllowListReason)))"

definition one_segment_run :: "jsstr \<Rightarrow> bool" where
  "one_segment_run pattern \<longleftrightarrow>
     js_includes pattern (js ''++'') \<or> js_includes pattern (js ''$$'') \<or> js_includes pattern (js ''^^'')"

text \<open>Consecutive \<open>**\<close> segments count as one.\<close>

fun collapse_globstars :: "jsstr list \<Rightarrow> jsstr list" where
  "collapse_globstars [] = []"
| "collapse_globstars [s] = [s]"
| "collapse_globstars (s # t # ss) =
     (if s = GLOBSTAR \<and> t = GLOBSTAR then collapse_globstars (t # ss)
      else s # collapse_globstars (t # ss))"

definition parseStyleExclusion :: "unicode \<Rightarrow> jsstr \<Rightarrow> (glob_problem, segment list) res" where
  "parseStyleExclusion U pattern =
     (case characterProblem U pattern of
        Some p \<Rightarrow> Inl p
      | None \<Rightarrow>
          if cu CHR ''/'' \<notin> set pattern \<and> one_segment_run pattern then Inl OneSegmentRun
          else
            (let raw = collapse_globstars (js_split (cu CHR ''/'') pattern) in
             res_bind (map_res (compileSegment U) (take MAX_STYLE_EXCLUSION_BYTES raw)) (\<lambda>segments.
               if \<forall>s \<in> set segments. wildcard s then Inl WildcardsOnly
               else if length raw > 1 \<and> last raw = GLOBSTAR \<and>
                       js_ends (raw ! (length raw - 2)) (js ''*'') then
                 Inr (butlast segments @ [ANY_SEGMENT, last segments])
               else Inr segments)))"

end
