(* ===== verification/GlobMatch.thy ===== *)
theory GlobMatch
  imports GlobCompile
begin

text \<open>
  The glob matcher of \<^verbatim>\<open>src/tools/markdownlint/verify.mjs\<close>: \<open>tokenMatches\<close>, the backtracking loop of
  \<open>tokensMatch\<close> with its step bound, the reachability table of \<open>segmentsMatch\<close> and
  \<open>styleExclusionMatcher\<close>. The reference semantics is one relation, \<open>blocks\<close>: the matched list
  is cut into one block per pattern element, any block for a wildcard and one matching element
  for every other. Both matchers are proved equal to it, and the interface \<open>glob_matcher\<close>
  states that contract.
\<close>

section \<open>Reference semantics\<close>

definition block_ok :: "('a \<Rightarrow> bool) \<Rightarrow> ('a \<Rightarrow> 'b \<Rightarrow> bool) \<Rightarrow> 'a \<Rightarrow> 'b list \<Rightarrow> bool" where
  "block_ok star single x b \<longleftrightarrow> star x \<or> (\<exists>y. b = [y] \<and> single x y)"

definition blocks :: "('a \<Rightarrow> bool) \<Rightarrow> ('a \<Rightarrow> 'b \<Rightarrow> bool) \<Rightarrow> 'a list \<Rightarrow> 'b list \<Rightarrow> bool" where
  "blocks star single xs ys \<longleftrightarrow>
     (\<exists>bs. concat bs = ys \<and> list_all2 (block_ok star single) xs bs)"

lemma blocks_Nil [simp]: "blocks star single [] ys \<longleftrightarrow> ys = []"
  by (auto simp: blocks_def)

lemma blocks_append:
  "blocks star single (xs @ xs') ys \<longleftrightarrow>
     (\<exists>a b. ys = a @ b \<and> blocks star single xs a \<and> blocks star single xs' b)"
proof
  assume "blocks star single (xs @ xs') ys"
  then obtain bs where bs: "concat bs = ys" "list_all2 (block_ok star single) (xs @ xs') bs"
    by (auto simp: blocks_def)
  from bs(2) obtain us vs where "bs = us @ vs" "list_all2 (block_ok star single) xs us"
    "list_all2 (block_ok star single) xs' vs"
    by (auto simp: list_all2_append1)
  with bs(1) show "\<exists>a b. ys = a @ b \<and> blocks star single xs a \<and> blocks star single xs' b"
    unfolding blocks_def by (metis concat_append)
next
  assume "\<exists>a b. ys = a @ b \<and> blocks star single xs a \<and> blocks star single xs' b"
  then obtain us vs where "ys = concat us @ concat vs" "list_all2 (block_ok star single) xs us"
    "list_all2 (block_ok star single) xs' vs"
    by (auto simp: blocks_def)
  then show "blocks star single (xs @ xs') ys"
    unfolding blocks_def by (metis concat_append list_all2_appendI)
qed

lemma blocks_one: "blocks star single [x] ys \<longleftrightarrow> block_ok star single x ys"
  by (auto simp: blocks_def list_all2_Cons1 intro!: exI [of _ "[ys]"])

lemma blocks_Cons:
  "blocks star single (x # xs) ys \<longleftrightarrow>
     (\<exists>a b. ys = a @ b \<and> block_ok star single x a \<and> blocks star single xs b)"
  using blocks_append [of star single "[x]" xs ys] by (simp add: blocks_one)

lemma blocks_snoc:
  "blocks star single (xs @ [x]) ys \<longleftrightarrow>
     (\<exists>a b. ys = a @ b \<and> blocks star single xs a \<and> block_ok star single x b)"
  by (simp add: blocks_append blocks_one)

lemma blocks_star:
  assumes "star x"
  shows "blocks star single (x # xs) ys \<longleftrightarrow> (\<exists>k\<le>length ys. blocks star single xs (drop k ys))"
proof
  assume "blocks star single (x # xs) ys"
  then obtain a b where "ys = a @ b" "blocks star single xs b" by (auto simp: blocks_Cons)
  then have "length a \<le> length ys \<and> blocks star single xs (drop (length a) ys)" by simp
  then show "\<exists>k\<le>length ys. blocks star single xs (drop k ys)" by blast
next
  assume "\<exists>k\<le>length ys. blocks star single xs (drop k ys)"
  then obtain k where "blocks star single xs (drop k ys)" by blast
  with assms have "ys = take k ys @ drop k ys \<and> block_ok star single x (take k ys) \<and>
      blocks star single xs (drop k ys)"
    by (simp add: block_ok_def)
  then show "blocks star single (x # xs) ys" unfolding blocks_Cons by blast
qed

lemma blocks_single:
  assumes "\<not> star x"
  shows "blocks star single (x # xs) ys \<longleftrightarrow>
    (case ys of [] \<Rightarrow> False | y # ys' \<Rightarrow> single x y \<and> blocks star single xs ys')"
proof (cases ys)
  case Nil
  with assms show ?thesis by (simp add: blocks_Cons block_ok_def)
next
  case (Cons y ys')
  have "blocks star single (x # xs) (y # ys') \<longleftrightarrow> single x y \<and> blocks star single xs ys'"
  proof
    assume "single x y \<and> blocks star single xs ys'"
    then have "y # ys' = [y] @ ys' \<and> block_ok star single x [y] \<and> blocks star single xs ys'"
      by (simp add: block_ok_def)
    then show "blocks star single (x # xs) (y # ys')" unfolding blocks_Cons by blast
  next
    assume "blocks star single (x # xs) (y # ys')"
    with assms show "single x y \<and> blocks star single xs ys'"
      by (auto simp: blocks_Cons block_ok_def)
  qed
  with Cons show ?thesis by simp
qed

lemma blocks_snoc_take:
  assumes "star x"
  shows "blocks star single (xs @ [x]) ys \<longleftrightarrow> (\<exists>k\<le>length ys. blocks star single xs (take k ys))"
proof
  assume "blocks star single (xs @ [x]) ys"
  then obtain a b where "ys = a @ b" "blocks star single xs a" by (auto simp: blocks_snoc)
  then have "length a \<le> length ys \<and> blocks star single xs (take (length a) ys)" by simp
  then show "\<exists>k\<le>length ys. blocks star single xs (take k ys)" by blast
next
  assume "\<exists>k\<le>length ys. blocks star single xs (take k ys)"
  then obtain k where "blocks star single xs (take k ys)" by blast
  with assms have "ys = take k ys @ drop k ys \<and> blocks star single xs (take k ys) \<and>
      block_ok star single x (drop k ys)"
    by (simp add: block_ok_def)
  then show "blocks star single (xs @ [x]) ys" unfolding blocks_snoc by blast
qed

lemma blocks_snoc_star:
  assumes "star x"
  shows "blocks star single (xs @ [x]) [] \<longleftrightarrow> blocks star single xs []"
    and "blocks star single (xs @ [x]) (ys @ [y]) \<longleftrightarrow>
      blocks star single (xs @ [x]) ys \<or> blocks star single xs (ys @ [y])"
  using assms by (auto simp: blocks_snoc_take le_Suc_eq)

lemma blocks_snoc_single:
  assumes "\<not> star x"
  shows "\<not> blocks star single (xs @ [x]) []"
    and "blocks star single (xs @ [x]) (ys @ [y]) \<longleftrightarrow> blocks star single xs ys \<and> single x y"
  using assms by (auto simp: blocks_snoc block_ok_def)

lemma blocks_all_star: "blocks star single xs [] \<longleftrightarrow> (\<forall>x \<in> set xs. star x)"
  by (induction xs) (auto simp: blocks_Cons block_ok_def)

text \<open>A pattern without wildcards takes exactly its own length.\<close>

lemma blocks_no_star_prefix:
  assumes "\<forall>x \<in> set xs. \<not> star x" and "blocks star single (xs @ zs) ys"
  shows "length xs \<le> length ys \<and> blocks star single zs (drop (length xs) ys)"
  using assms
proof (induction xs arbitrary: ys)
  case Nil
  then show ?case by simp
next
  case (Cons x xs)
  then show ?case by (cases ys) (auto simp: blocks_single)
qed

section \<open>The matcher interface\<close>

text \<open>
  What a caller of a glob matcher relies on: on the inputs it admits it decides the reference
  relation. The lemmas are what the gate uses of it.
\<close>

locale glob_matcher =
  fixes star :: "'a \<Rightarrow> bool"
    and single :: "'a \<Rightarrow> 'b \<Rightarrow> bool"
    and matches :: "'a list \<Rightarrow> 'b list \<Rightarrow> bool"
    and admits :: "'b list \<Rightarrow> bool"
  assumes decides: "admits ys \<Longrightarrow> matches xs ys \<longleftrightarrow> blocks star single xs ys"
begin

lemma wildcard_matches: "admits ys \<Longrightarrow> star x \<Longrightarrow> matches [x] ys"
  by (simp add: decides blocks_one block_ok_def)

lemma wildcard_suffix_matches:
  assumes "admits (ys @ zs)" and "admits ys" and "matches xs ys" and "star x"
  shows "matches (xs @ [x]) (ys @ zs)"
  using assms by (auto simp: decides blocks_snoc block_ok_def)

lemma concatenation_matches:
  assumes "admits (ys @ zs)" and "admits ys" and "admits zs"
    and "matches xs ys" and "matches us zs"
  shows "matches (xs @ us) (ys @ zs)"
  using assms by (auto simp: decides blocks_append)

lemma literal_length:
  assumes "admits ys" and "\<forall>x \<in> set xs. \<not> star x" and "matches xs ys"
  shows "length ys = length xs"
  using assms blocks_no_star_prefix [of xs star single "[]" ys] by (simp add: decides)

end

section \<open>One path segment\<close>

definition is_star :: "token \<Rightarrow> bool" where
  "is_star t \<longleftrightarrow> t = Star"

text \<open>
  \<open>tokenMatches\<close> is never called on a \<open>*\<close> token: both call sites test for it first.
\<close>

fun tokenMatches :: "token \<Rightarrow> nat \<Rightarrow> bool" where
  "tokenMatches AnyChar code = True"
| "tokenMatches (Lit c) code = (c = code)"
| "tokenMatches (Class neg rs lit) code =
     ((\<exists>(low, high) \<in> set rs. low \<le> code \<and> code \<le> high) \<noteq> neg)"
| "tokenMatches Star code = False"

abbreviation token_blocks :: "token list \<Rightarrow> jsstr \<Rightarrow> bool" where
  "token_blocks \<equiv> blocks is_star tokenMatches"

text \<open>
  The loop of \<open>tokensMatch\<close>: \<open>left\<close> is the number of iterations the step bound still allows,
  \<open>None\<close> is the early \<open>return false\<close>, and \<open>Some\<close> gives the token index and the position
  with which the loop is left.
\<close>

fun tm_loop ::
  "nat \<Rightarrow> token list \<Rightarrow> jsstr \<Rightarrow> nat \<Rightarrow> nat \<Rightarrow> nat option \<Rightarrow> nat \<Rightarrow> (nat \<times> nat) option" where
  "tm_loop 0 tokens text token position star starPosition = Some (token, position)"
| "tm_loop (Suc left) tokens text token position star starPosition =
     (if position < length text then
        (if token < length tokens \<and> tokens ! token = Star then
           tm_loop left tokens text (token + 1) position (Some token) position
         else if token < length tokens \<and> tokenMatches (tokens ! token) (text ! position) then
           tm_loop left tokens text (token + 1) (position + 1) star starPosition
         else
           (case star of
              Some s \<Rightarrow> tm_loop left tokens text (s + 1) (starPosition + 1) star (starPosition + 1)
            | None \<Rightarrow> None))
      else Some (token, position))"

definition tm_result :: "token list \<Rightarrow> jsstr \<Rightarrow> (nat \<times> nat) option \<Rightarrow> bool" where
  "tm_result tokens text r =
     (case r of
        None \<Rightarrow> False
      | Some (token, position) \<Rightarrow>
          position = length text \<and>
          token + length (takeWhile is_star (drop token tokens)) = length tokens)"

definition tokensMatch :: "token list \<Rightarrow> jsstr \<Rightarrow> bool" where
  "tokensMatch tokens text =
     tm_result tokens text
       (tm_loop ((length tokens + 1) * (length text + 1)) tokens text 0 0 None 0)"

text \<open>
  The loop invariant. A match of the whole input exists exactly when one exists from the current
  position, or when the last \<open>*\<close> can still take more: greedy backtracking to the last \<open>*\<close>
  loses nothing, because the tokens since that \<open>*\<close> hold no other.
\<close>

definition tm_fallback :: "token list \<Rightarrow> jsstr \<Rightarrow> nat option \<Rightarrow> nat \<Rightarrow> bool" where
  "tm_fallback tokens text star sp \<longleftrightarrow>
     (\<exists>s k. star = Some s \<and> sp < k \<and> k \<le> length text \<and>
        token_blocks (drop (Suc s) tokens) (drop k text))"

definition tm_inv :: "token list \<Rightarrow> jsstr \<Rightarrow> nat \<Rightarrow> nat \<Rightarrow> nat option \<Rightarrow> nat \<Rightarrow> bool" where
  "tm_inv tokens text token position star sp \<longleftrightarrow>
     token \<le> length tokens \<and> position \<le> length text \<and> sp \<le> position \<and>
     (\<forall>s. star = Some s \<longrightarrow> s < token \<and> position + Suc s = sp + token \<and>
        (\<forall>i. s < i \<and> i < token \<longrightarrow> tokens ! i \<noteq> Star)) \<and>
     (token_blocks tokens text \<longleftrightarrow>
        token_blocks (drop token tokens) (drop position text) \<or> tm_fallback tokens text star sp)"

definition tm_measure :: "token list \<Rightarrow> jsstr \<Rightarrow> nat \<Rightarrow> nat \<Rightarrow> nat" where
  "tm_measure tokens text token sp =
     (length text - sp) * (length tokens + 1) + (length tokens - token)"

lemma tm_segment:
  assumes "s < token" and "token \<le> length tokens"
    and "\<forall>i. s < i \<and> i < token \<longrightarrow> tokens ! i \<noteq> Star"
    and "token_blocks (drop (Suc s) tokens) ys"
  shows "token - Suc s \<le> length ys \<and> token_blocks (drop token tokens) (drop (token - Suc s) ys)"
proof -
  let ?xs = "take (token - Suc s) (drop (Suc s) tokens)"
  have len: "length ?xs = token - Suc s" using assms(1,2) by simp
  have split: "drop (Suc s) tokens = ?xs @ drop token tokens"
    using assms(1) by (metis Suc_leI append_take_drop_id drop_drop le_add_diff_inverse2)
  have "\<forall>x \<in> set ?xs. \<not> is_star x"
    using assms(1-3) by (auto simp: in_set_conv_nth is_star_def)
  from blocks_no_star_prefix [OF this, of tokenMatches "drop token tokens" ys] assms(4) split len
  show ?thesis by simp
qed

lemma ex_drop_drop:
  assumes "p \<le> length ys"
  shows "(\<exists>k\<le>length (drop p ys). P (drop k (drop p ys))) \<longleftrightarrow> (\<exists>j. p \<le> j \<and> j \<le> length ys \<and> P (drop j ys))"
proof
  assume "\<exists>k\<le>length (drop p ys). P (drop k (drop p ys))"
  then obtain k where "k \<le> length ys - p" "P (drop (p + k) ys)" by (auto simp: add.commute)
  with assms show "\<exists>j. p \<le> j \<and> j \<le> length ys \<and> P (drop j ys)"
    by (intro exI [of _ "p + k"]) simp
next
  assume "\<exists>j. p \<le> j \<and> j \<le> length ys \<and> P (drop j ys)"
  then obtain j where "p \<le> j" "j \<le> length ys" "P (drop j ys)" by blast
  then show "\<exists>k\<le>length (drop p ys). P (drop k (drop p ys))"
    by (intro exI [of _ "j - p"]) simp
qed

lemma tm_inv_star:
  assumes inv: "tm_inv tokens text token position star sp"
    and pos: "position < length text" and tok: "token < length tokens" "tokens ! token = Star"
  shows "tm_inv tokens text (token + 1) position (Some token) position"
proof -
  have drop: "drop token tokens = Star # drop (Suc token) tokens"
    using tok by (simp add: Cons_nth_drop_Suc [symmetric])
  have cur: "token_blocks (drop token tokens) ys \<longleftrightarrow>
      (\<exists>k\<le>length ys. token_blocks (drop (Suc token) tokens) (drop k ys))" for ys
    unfolding drop by (rule blocks_star) (simp add: is_star_def)
  have new: "token_blocks (drop token tokens) (drop position text) \<longleftrightarrow>
      token_blocks (drop (Suc token) tokens) (drop position text) \<or>
      tm_fallback tokens text (Some token) position"
  proof -
    have "(\<exists>k\<le>length (drop position text).
        token_blocks (drop (Suc token) tokens) (drop k (drop position text))) \<longleftrightarrow>
      (\<exists>j. position \<le> j \<and> j \<le> length text \<and> token_blocks (drop (Suc token) tokens) (drop j text))"
      using pos by (intro ex_drop_drop) simp
    then show ?thesis
      unfolding cur tm_fallback_def using pos by (auto simp: le_less)
  qed
  have old: "token_blocks (drop token tokens) (drop position text)"
    if fb: "tm_fallback tokens text star sp"
  proof -
    from fb obtain s k where s: "star = Some s" and k: "sp < k" "k \<le> length text"
      and m: "token_blocks (drop (Suc s) tokens) (drop k text)"
      by (auto simp: tm_fallback_def)
    from inv s have st: "s < token" "position + Suc s = sp + token"
      "\<forall>i. s < i \<and> i < token \<longrightarrow> tokens ! i \<noteq> Star" "token \<le> length tokens"
      by (auto simp: tm_inv_def)
    from tm_segment [OF st(1,4,3) m]
    have seg: "token - Suc s \<le> length text - k"
      "token_blocks (drop token tokens) (drop (k + (token - Suc s)) text)"
      by (auto simp: add.commute)
    from seg(2) obtain j where j: "j \<le> length (drop (k + (token - Suc s)) text)"
      "token_blocks (drop (Suc token) tokens) (drop j (drop (k + (token - Suc s)) text))"
      unfolding cur by blast
    let ?d = "k + (token - Suc s) + j - position"
    have le: "position \<le> k + (token - Suc s) + j" using st(1,2) k(1) by linarith
    have "?d \<le> length (drop position text)" using j(1) seg(1) k(2) by simp
    moreover have "drop ?d (drop position text) = drop j (drop (k + (token - Suc s)) text)"
      using le by (simp add: add.commute)
    ultimately show ?thesis unfolding cur using j(2) by metis
  qed
  show ?thesis
    using inv tok pos new old unfolding tm_inv_def by auto
qed

lemma tm_inv_match:
  assumes inv: "tm_inv tokens text token position star sp"
    and pos: "position < length text" and tok: "token < length tokens" "tokens ! token \<noteq> Star"
    and "tokenMatches (tokens ! token) (text ! position)"
  shows "tm_inv tokens text (token + 1) (position + 1) star sp"
proof -
  have "token_blocks (drop token tokens) (drop position text) \<longleftrightarrow>
      token_blocks (drop (Suc token) tokens) (drop (Suc position) text)"
    using assms(5) tok pos
    by (simp add: is_star_def blocks_single Cons_nth_drop_Suc [symmetric])
  with inv tok pos show ?thesis
    unfolding tm_inv_def by (auto simp: less_Suc_eq)
qed

lemma tm_no_match:
  assumes "position < length text"
    and "\<not> (token < length tokens \<and> tokens ! token = Star)"
    and "\<not> (token < length tokens \<and> tokenMatches (tokens ! token) (text ! position))"
  shows "\<not> token_blocks (drop token tokens) (drop position text)"
  using assms
  by (cases "token < length tokens")
     (simp_all add: is_star_def blocks_single Cons_nth_drop_Suc [symmetric])

lemma tm_inv_fallback:
  assumes inv: "tm_inv tokens text token position (Some s) sp"
    and pos: "position < length text"
    and cur: "\<not> token_blocks (drop token tokens) (drop position text)"
  shows "tm_inv tokens text (s + 1) (sp + 1) (Some s) (sp + 1)"
proof -
  have "tm_fallback tokens text (Some s) sp \<longleftrightarrow>
      token_blocks (drop (Suc s) tokens) (drop (Suc sp) text) \<or> tm_fallback tokens text (Some s) (Suc sp)"
  proof -
    have le: "Suc sp \<le> length text" using inv pos by (simp add: tm_inv_def)
    have ex: "(\<exists>k. sp < k \<and> P k) \<longleftrightarrow> P (Suc sp) \<or> (\<exists>k. Suc sp < k \<and> P k)" for P
      by (metis Suc_lessD Suc_lessI lessI)
    show ?thesis
      using le ex [of "\<lambda>k. k \<le> length text \<and> token_blocks (drop (Suc s) tokens) (drop k text)"]
      by (simp add: tm_fallback_def)
  qed
  moreover have "token_blocks tokens text \<longleftrightarrow> tm_fallback tokens text (Some s) sp"
    using inv cur by (simp add: tm_inv_def)
  ultimately show ?thesis
    using inv pos unfolding tm_inv_def by (auto simp: less_Suc_eq)
qed

lemma tm_inv_end:
  assumes inv: "tm_inv tokens text token (length text) star sp"
  shows "token_blocks tokens text \<longleftrightarrow> (\<forall>x \<in> set (drop token tokens). is_star x)"
proof -
  have "\<not> tm_fallback tokens text star sp"
  proof
    assume "tm_fallback tokens text star sp"
    then obtain s k where s: "star = Some s" and k: "sp < k" "k \<le> length text"
      and m: "token_blocks (drop (Suc s) tokens) (drop k text)"
      by (auto simp: tm_fallback_def)
    from inv s have st: "s < token" "length text + Suc s = sp + token"
      "\<forall>i. s < i \<and> i < token \<longrightarrow> tokens ! i \<noteq> Star" "token \<le> length tokens"
      by (auto simp: tm_inv_def)
    from tm_segment [OF st(1,4,3) m] have "token - Suc s \<le> length text - k" by simp
    with st(1,2) k show False by linarith
  qed
  with inv show ?thesis by (simp add: tm_inv_def blocks_all_star)
qed

lemma takeWhile_length_all: "length (takeWhile P xs) = length xs \<longleftrightarrow> (\<forall>x \<in> set xs. P x)"
  by (induction xs) auto

lemma tm_fallback_measure:
  assumes "s < token" and "token \<le> T" and "sp < N"
  shows "(N - Suc sp) * Suc T + (T - Suc s) < (N - sp) * Suc T + (T - token)"
proof -
  from assms(3) obtain d where d: "N - sp = Suc d" "N - Suc sp = d"
    by (metis Suc_diff_Suc)
  have "T - Suc s < Suc T + (T - token)" by simp
  then show ?thesis unfolding d by simp
qed

lemma tm_loop_correct:
  assumes "tm_inv tokens text token position star sp"
    and "tm_measure tokens text token sp < left"
  shows "tm_result tokens text (tm_loop left tokens text token position star sp) \<longleftrightarrow>
    token_blocks tokens text"
  using assms
proof (induction left arbitrary: token position star sp)
  case 0
  then show ?case by simp
next
  case (Suc left)
  note inv = Suc.prems(1)
  let ?m = "tm_measure tokens text token sp"
  show ?case
  proof (cases "position < length text")
    case False
    with inv have pos: "position = length text" and tok: "token \<le> length tokens"
      by (auto simp: tm_inv_def)
    from tm_inv_end [of tokens "text" token star sp] inv pos
    have "token_blocks tokens text \<longleftrightarrow> (\<forall>x \<in> set (drop token tokens). is_star x)" by simp
    also have "\<dots> \<longleftrightarrow> token + length (takeWhile is_star (drop token tokens)) = length tokens"
      using tok takeWhile_length_all [of is_star "drop token tokens"] by auto
    finally show ?thesis using False pos by (simp add: tm_result_def)
  next
    case pos: True
    show ?thesis
    proof (cases "token < length tokens \<and> tokens ! token = Star")
      case True
      have "sp \<le> position" using inv by (simp add: tm_inv_def)
      then have "tm_measure tokens text (token + 1) position < ?m"
        using True unfolding tm_measure_def by (intro add_le_less_mono mult_le_mono1) auto
      with Suc.prems(2) have "tm_measure tokens text (token + 1) position < left" by simp
      with tm_inv_star [OF inv pos] True pos show ?thesis by (simp add: Suc.IH)
    next
      case nostar: False
      show ?thesis
      proof (cases "token < length tokens \<and> tokenMatches (tokens ! token) (text ! position)")
        case True
        have "tm_measure tokens text (token + 1) sp < ?m"
          using True by (auto simp: tm_measure_def)
        with Suc.prems(2) have "tm_measure tokens text (token + 1) sp < left" by simp
        with tm_inv_match [OF inv pos] True nostar pos show ?thesis by (simp add: Suc.IH)
      next
        case False
        from tm_no_match [OF pos nostar False]
        have cur: "\<not> token_blocks (drop token tokens) (drop position text)" .
        show ?thesis
        proof (cases star)
          case None
          with inv cur have "\<not> token_blocks tokens text"
            by (auto simp: tm_inv_def tm_fallback_def)
          moreover have "tm_loop (Suc left) tokens text token position star sp = None"
            using None False nostar pos by auto
          ultimately show ?thesis by (simp add: tm_result_def)
        next
          case (Some s)
          have "s < token" "token \<le> length tokens" "sp < length text"
            using inv Some pos by (auto simp: tm_inv_def)
          then have "tm_measure tokens text (s + 1) (sp + 1) < ?m"
            using tm_fallback_measure by (simp add: tm_measure_def)
          with Suc.prems(2) have "tm_measure tokens text (s + 1) (sp + 1) < left" by simp
          moreover have "tm_inv tokens text (s + 1) (sp + 1) (Some s) (sp + 1)"
            using tm_inv_fallback inv cur pos Some by blast
          moreover have "tm_loop (Suc left) tokens text token position star sp =
              tm_loop left tokens text (s + 1) (sp + 1) (Some s) (sp + 1)"
            using Some False nostar pos by auto
          ultimately show ?thesis using Suc.IH by metis
        qed
      qed
    qed
  qed
qed

lemma tokensMatch_blocks: "tokensMatch tokens text \<longleftrightarrow> token_blocks tokens text"
proof -
  have "tm_inv tokens text 0 0 None 0" by (simp add: tm_inv_def tm_fallback_def)
  moreover have "tm_measure tokens text 0 0 < (length tokens + 1) * (length text + 1)"
    by (simp add: tm_measure_def)
  ultimately show ?thesis unfolding tokensMatch_def by (rule tm_loop_correct)
qed

interpretation segment_matcher: glob_matcher is_star tokenMatches tokensMatch "\<lambda>_. True"
  by unfold_locales (rule tokensMatch_blocks)

section \<open>Whole paths\<close>

definition MAX_PATH_BYTES :: nat where
  "MAX_PATH_BYTES = 4096"

definition segment_matches :: "segment \<Rightarrow> jsstr \<Rightarrow> bool" where
  "segment_matches seg part \<longleftrightarrow> (\<exists>tokens \<in> set (alternatives seg). tokensMatch tokens part)"

text \<open>One row of the table: \<open>next\<close> from \<open>reached\<close>, both one entry longer than the segments.\<close>

fun next_row :: "segment list \<Rightarrow> jsstr \<Rightarrow> bool list \<Rightarrow> bool \<Rightarrow> bool list" where
  "next_row [] part reached previous = [previous]"
| "next_row (seg # segs) part (r # rs) previous =
     previous # next_row segs part rs
       (if globstar seg then previous \<or> hd rs else r \<and> segment_matches seg part)"
| "next_row (seg # segs) part [] previous = []"

text \<open>The first row: only leading globstars are passed before any part is read.\<close>

fun first_row :: "segment list \<Rightarrow> bool \<Rightarrow> bool list" where
  "first_row [] reached = [reached]"
| "first_row (seg # segs) reached = reached # first_row segs (reached \<and> globstar seg)"

definition segmentsMatch :: "segment list \<Rightarrow> jsstr list \<Rightarrow> bool" where
  "segmentsMatch segments parts =
     last (fold (\<lambda>part reached. next_row segments part reached False)
       (take MAX_PATH_BYTES parts) (first_row segments True))"

abbreviation path_blocks :: "segment list \<Rightarrow> jsstr list \<Rightarrow> bool" where
  "path_blocks \<equiv> blocks globstar segment_matches"

definition row_of :: "segment list \<Rightarrow> jsstr list \<Rightarrow> bool list" where
  "row_of segments parts = map (\<lambda>i. path_blocks (take i segments) parts) [0..<Suc (length segments)]"

lemma first_row_prefix:
  "first_row segs (path_blocks pre []) =
     map (\<lambda>i. path_blocks (pre @ take i segs) []) [0..<Suc (length segs)]"
proof (induction segs arbitrary: pre)
  case Nil
  then show ?case by simp
next
  case (Cons seg segs)
  have "(path_blocks pre [] \<and> globstar seg) = path_blocks (pre @ [seg]) []"
    by (auto simp: blocks_all_star)
  with Cons [of "pre @ [seg]"] show ?case
    by (simp add: upt_rec [of 0] map_Suc_upt [symmetric] comp_def del: upt_Suc)
qed

lemma next_row_prefix:
  "next_row segs part (map (\<lambda>i. path_blocks (pre @ take i segs) ps) [0..<Suc (length segs)])
      (path_blocks pre (ps @ [part])) =
   map (\<lambda>i. path_blocks (pre @ take i segs) (ps @ [part])) [0..<Suc (length segs)]"
proof (induction segs arbitrary: pre)
  case Nil
  then show ?case by simp
next
  case (Cons seg segs)
  have unfold: "map f [0..<Suc (Suc (length segs))] =
      f 0 # map (\<lambda>i. f (Suc i)) [0..<Suc (length segs)]" for f :: "nat \<Rightarrow> bool"
    by (simp add: upt_rec [of 0] map_Suc_upt [symmetric] comp_def del: upt_Suc)
  have step: "(if globstar seg
        then path_blocks pre (ps @ [part]) \<or> path_blocks (pre @ [seg]) ps
        else path_blocks pre ps \<and> segment_matches seg part) = path_blocks (pre @ [seg]) (ps @ [part])"
    by (auto simp: blocks_snoc_star(2) blocks_snoc_single(2))
  have hd: "hd (map (\<lambda>i. path_blocks ((pre @ [seg]) @ take i segs) ps) [0..<Suc (length segs)]) =
      path_blocks (pre @ [seg]) ps"
    by (simp add: upt_rec [of 0] del: upt_Suc)
  show ?case
    using Cons [of "pre @ [seg]"] hd step
    by (cases "globstar seg") (simp_all add: unfold del: upt_Suc)
qed

lemma row_of_start: "first_row segments True = row_of segments []"
  using first_row_prefix [of segments "[]"] by (simp add: row_of_def)

lemma row_of_step: "next_row segments part (row_of segments ps) False = row_of segments (ps @ [part])"
  using next_row_prefix [of segments part "[]" ps] by (simp add: row_of_def)

lemma row_of_fold:
  "fold (\<lambda>part reached. next_row segments part reached False) parts (row_of segments ps) =
     row_of segments (ps @ parts)"
  by (induction parts arbitrary: ps) (simp_all add: row_of_step)

lemma segmentsMatch_blocks:
  "length parts \<le> MAX_PATH_BYTES \<Longrightarrow> segmentsMatch segments parts \<longleftrightarrow> path_blocks segments parts"
  by (simp add: segmentsMatch_def row_of_start row_of_fold) (simp add: row_of_def)

interpretation path_matcher:
  glob_matcher globstar segment_matches segmentsMatch "\<lambda>parts. length parts \<le> MAX_PATH_BYTES"
  by unfold_locales (rule segmentsMatch_blocks)

section \<open>The declared exclusion as a predicate on paths\<close>

text \<open>
  \<open>PICOMATCH_BACKSLASH\<close>: every backslash but one before a glob character becomes a slash.
\<close>

definition picomatch_kept :: jsstr where
  "picomatch_kept = js ''*+?^${}(|)[]''"

fun picomatch_spelling :: "jsstr \<Rightarrow> jsstr" where
  "picomatch_spelling [] = []"
| "picomatch_spelling [c] = [if c = 92 then cu CHR ''/'' else c]"
| "picomatch_spelling (c # d # s) =
     (if c = 92 \<and> d \<notin> set picomatch_kept then cu CHR ''/'' else c) # picomatch_spelling (d # s)"

definition styleExclusionMatcher ::
  "unicode \<Rightarrow> bool \<Rightarrow> jsstr \<Rightarrow> (glob_problem, jsstr \<Rightarrow> bool) res" where
  "styleExclusionMatcher U windows pattern =
     res_bind (parseStyleExclusion U pattern) (\<lambda>segments.
       Inr (\<lambda>relative.
         let spelled = (if windows then picomatch_spelling relative else relative);
             parts = js_split (cu CHR ''/'')
               (if windows then replace_unit 92 [cu CHR ''/''] relative else relative)
         in spelled = pattern \<or> segmentsMatch segments parts))"

section \<open>Properties\<close>

text \<open>
  C8. The backtracking loop of \<open>tokensMatch\<close> decides the declarative meaning of a compiled segment:
  it answers true exactly when the text can be cut into one block per token, any block for \<open>*\<close> and
  one matching code unit for every other token. In particular the step bound
  \<open>(tokens + 1) * (length + 1)\<close> never cuts the loop short and backtracking to the last \<open>*\<close> alone
  loses no match.
\<close>

theorem tokensMatch_decides:
  "tokensMatch tokens text \<longleftrightarrow>
     (\<exists>bs. concat bs = text \<and>
        list_all2 (\<lambda>t b. t = Star \<or> (\<exists>c. b = [c] \<and> tokenMatches t c)) tokens bs)"
  unfolding tokensMatch_blocks blocks_def block_ok_def is_star_def ..

text \<open>
  C9. The reachability table of \<open>segmentsMatch\<close> decides the declarative meaning of a compiled glob
  on every path of at most \<open>MAX_PATH_BYTES\<close> parts: a globstar takes any run of parts (none
  included) and every other segment exactly one part that one of its alternatives matches.
\<close>

theorem segmentsMatch_decides:
  assumes "length parts \<le> MAX_PATH_BYTES"
  shows "segmentsMatch segments parts \<longleftrightarrow>
     (\<exists>bs. concat bs = parts \<and>
        list_all2 (\<lambda>s b. globstar s \<or> (\<exists>p. b = [p] \<and>
          (\<exists>tokens \<in> set (alternatives s). tokensMatch tokens p))) segments bs)"
  using segmentsMatch_blocks [OF assms, of segments]
  unfolding blocks_def block_ok_def segment_matches_def .

theorem segmentsMatch_decides_witness:
  "length [js ''docs'', js ''a.md''] \<le> MAX_PATH_BYTES \<and>
   segmentsMatch [\<lparr>globstar = True, wildcard = True, alternatives = []\<rparr>] [js ''docs'', js ''a.md'']"
proof -
  have h: "length [js ''docs'', js ''a.md''] \<le> MAX_PATH_BYTES"
    by (simp add: MAX_PATH_BYTES_def)
  moreover have "\<exists>bs. concat bs = [js ''docs'', js ''a.md''] \<and>
      list_all2 (\<lambda>s b. globstar s \<or> (\<exists>p. b = [p] \<and>
        (\<exists>tokens \<in> set (alternatives s). tokensMatch tokens p)))
        [\<lparr>globstar = True, wildcard = True, alternatives = []\<rparr>] bs"
    by (intro exI [of _ "[[js ''docs'', js ''a.md'']]"]) simp
  ultimately show ?thesis using segmentsMatch_decides [OF h] by blast
qed

end
