(* ===== verification/GlobSafety.thy ===== *)
theory GlobSafety
  imports GlobMatch
begin

text \<open>
  What the glob compiler guarantees about what it accepts: every loop keeps its bound on the number
  of alternatives, and a class is never left open, so \<open>segmentTokens\<close> always ends.
\<close>

section \<open>Bounds of the product loops\<close>

lemma length_product:
  "length (concat (map (\<lambda>prefix. map (\<lambda>choice. prefix @ choice) choices) xs)) = length xs * length choices"
  by (simp add: length_concat comp_def sum_list_triv)

lemma expand_step_bound: "expand_step p a = Inr b \<Longrightarrow> length b \<le> MAX_BRACE_ALTERNATIVES"
  by (auto simp: expand_step_def Let_def length_product simp del: length_concat split: if_splits)

lemma variant_step_bound: "variant_step t a = Inr b \<Longrightarrow> length b \<le> MAX_BRACE_ALTERNATIVES"
  by (auto simp: variant_step_def Let_def length_product simp del: length_concat split: if_splits)

lemma compile_step_bound: "compile_step seg alt a = Inr b \<Longrightarrow> length b \<le> MAX_BRACE_ALTERNATIVES"
  by (auto simp: compile_step_def res_bind_Inr_iff split: option.splits if_splits)

interpretation expand_bound: guarded_loop expand_step "\<lambda>_. True"
    "\<lambda>alternatives. length alternatives \<le> MAX_BRACE_ALTERNATIVES"
  by unfold_locales (rule expand_step_bound)

interpretation compile_bound: guarded_loop "compile_step seg" "\<lambda>_. True"
    "\<lambda>alternatives. length alternatives \<le> MAX_BRACE_ALTERNATIVES" for seg
  by unfold_locales (rule compile_step_bound)

interpretation variant_bound: guarded_loop variant_step "\<lambda>_. True"
    "\<lambda>variants. length variants \<le> MAX_BRACE_ALTERNATIVES"
  by unfold_locales (rule variant_step_bound)

lemma bracketVariants_bound:
  "bracketVariants tokens = Inr vs \<Longrightarrow> length vs \<le> MAX_BRACE_ALTERNATIVES"
  unfolding bracketVariants_def
  by (erule variant_bound.run_inv [rotated 2]) (simp_all add: MAX_BRACE_ALTERNATIVES_def)

lemma expandBraces_bound:
  "expandBraces seg = Inr alts \<Longrightarrow> length alts \<le> MAX_BRACE_ALTERNATIVES"
proof -
  assume "expandBraces seg = Inr alts"
  then obtain parts xs where xs: "fold_res expand_step parts [[]] = Inr xs" and alts: "alts = js_uniq xs"
    by (auto simp: expandBraces_def res_bind_Inr_iff)
  from xs have "length xs \<le> MAX_BRACE_ALTERNATIVES"
    by (rule expand_bound.run_inv [rotated 2]) (simp_all add: MAX_BRACE_ALTERNATIVES_def)
  with alts length_js_uniq [of xs] show ?thesis by simp
qed

lemma compileSegment_bound:
  "compileSegment U seg = Inr s \<Longrightarrow> length (alternatives s) \<le> MAX_BRACE_ALTERNATIVES"
proof -
  assume c: "compileSegment U seg = Inr s"
  show ?thesis
  proof (cases "seg = GLOBSTAR")
    case True
    with c show ?thesis by (auto simp: compileSegment_def)
  next
    case False
    with c obtain expanded alts where
      run: "fold_res (compile_step seg) expanded [] = Inr alts" and s: "alternatives s = alts"
      by (auto simp: compileSegment_def res_bind_Inr_iff split: if_splits)
    from run have "length alts \<le> MAX_BRACE_ALTERNATIVES"
      by (rule compile_bound.run_inv [rotated 2]) (simp_all add: MAX_BRACE_ALTERNATIVES_def)
    with s show ?thesis by simp
  qed
qed

section \<open>Classes are closed, so tokenizing ends\<close>

function closed_classes :: "jsstr \<Rightarrow> bool" where
  "closed_classes s =
     (case s of
        [] \<Rightarrow> True
      | c # r \<Rightarrow>
          if c = 91 then
            (case find_unit 93 r of None \<Rightarrow> False | Some k \<Rightarrow> closed_classes (drop (Suc k) r))
          else closed_classes r)"
  by pat_completeness auto
termination
  by (relation "measure length") auto

declare closed_classes.simps [simp del]

lemma closed_classes_simps [simp]:
  "closed_classes []"
  "c \<noteq> 91 \<Longrightarrow> closed_classes (c # r) = closed_classes r"
  "closed_classes (91 # r) =
     (case find_unit 93 r of None \<Rightarrow> False | Some k \<Rightarrow> closed_classes (drop (Suc k) r))"
  by (simp_all add: closed_classes.simps)

lemma find_unit_append1: "find_unit c r = Some k \<Longrightarrow> find_unit c (r @ b) = Some k"
  by (induction r arbitrary: k) (auto split: if_splits)

lemma closed_classes_append: "closed_classes a \<Longrightarrow> closed_classes b \<Longrightarrow> closed_classes (a @ b)"
proof (induction a rule: closed_classes.induct)
  case (1 s)
  show ?case
  proof (cases s)
    case Nil
    with 1 show ?thesis by simp
  next
    case (Cons c r)
    show ?thesis
    proof (cases "c = 91")
      case False
      with "1.prems" Cons have "closed_classes (r @ b)" using "1.IH"(2) [OF Cons False] by simp
      with Cons False show ?thesis by simp
    next
      case True
      with "1.prems" Cons obtain k where k: "find_unit 93 r = Some k" "closed_classes (drop (Suc k) r)"
        by (auto split: option.splits)
      have "closed_classes (drop (Suc k) r @ b)"
        using "1.IH"(1) [OF Cons True k(1) k(2) "1.prems"(2)] .
      moreover have "k < length r" using find_unit_SomeD [OF k(1)] by simp
      ultimately show ?thesis using Cons True find_unit_append1 [OF k(1), of b] by simp
    qed
  qed
qed

lemma closed_classes_class:
  "93 \<notin> set mid \<Longrightarrow> closed_classes (91 # mid @ [93])"
  by (simp add: find_unit_append)

lemma closed_classes_slice:
  assumes "classEnd seg index = Inr e" and "seg ! index = 91"
  shows "closed_classes (js_slice seg index (Suc e))"
proof -
  note ce = classEnd_SomeD [OF assms(1)]
  have "js_slice seg index (Suc e) = seg ! index # js_slice seg (Suc index) (Suc e)"
    using ce(1,2) by (simp add: js_slice_def Cons_nth_drop_Suc [symmetric] Suc_diff_le less_imp_le_nat take_Cons')
  also have "js_slice seg (Suc index) (Suc e) = js_slice seg (Suc index) e @ js_slice seg e (Suc e)"
    using ce(1) by (simp add: js_slice_append)
  also have "js_slice seg e (Suc e) = [93]"
    using ce(2,3) by (simp add: js_slice_def take_Suc_conv_app_nth Cons_nth_drop_Suc [symmetric])
  finally have eq: "js_slice seg index (Suc e) = 91 # js_slice seg (Suc index) e @ [93]"
    using assms(2) by simp
  show ?thesis unfolding eq using ce(4) by (intro closed_classes_class) simp
qed

definition brace_inv :: "brace_state \<Rightarrow> bool" where
  "brace_inv st \<longleftrightarrow>
     (\<forall>p \<in> set (bs_parts st). \<forall>t \<in> set (part_choices p). closed_classes t) \<and>
     (\<forall>l. bs_list st = Some l \<longrightarrow> (\<forall>t \<in> set l. closed_classes t)) \<and> closed_classes (bs_literal st)"

lemma braceDelimiter_inv: "brace_inv st \<Longrightarrow> braceDelimiter c n st = Inr st' \<Longrightarrow> brace_inv st'"
  by (auto simp: brace_inv_def braceDelimiter_def Let_def split: if_splits option.splits)

lemma brace_loop_inv:
  "brace_inv st \<Longrightarrow> brace_loop seg index st = Inr st' \<Longrightarrow> brace_inv st'"
proof (induction seg index st rule: brace_loop.induct)
  case (1 seg index st)
  let ?c = "seg ! index"
  show ?case
  proof (cases "index < length seg \<and> index < MAX_STYLE_EXCLUSION_BYTES")
    case False
    with "1.prems" show ?thesis by (simp add: brace_loop.simps [of seg index st])
  next
    case True
    note unfolded = "1.prems"(2) [unfolded brace_loop.simps [of seg index st]]
    consider (close) "?c = 93"
      | (delim) "?c \<noteq> 93" "?c = 123 \<or> ?c = 125 \<or> ?c = 44 \<and> bs_list st \<noteq> None"
      | (lit) "?c \<noteq> 93" "\<not> (?c = 123 \<or> ?c = 125 \<or> ?c = 44 \<and> bs_list st \<noteq> None)" "?c \<noteq> 91"
      | (cls) "?c = 91"
      by blast
    then show ?thesis
    proof cases
      case close
      with unfolded True show ?thesis by simp
    next
      case delim
      with unfolded True obtain u where u: "braceDelimiter ?c (js_at seg (index + 1)) st = Inr u"
        "brace_loop seg (index + 1) u = Inr st'"
        by (auto simp: Let_def split: sum.splits)
      from "1.IH"(1) [OF _ refl] True delim u braceDelimiter_inv [OF "1.prems"(1) u(1)]
      show ?thesis by auto
    next
      case lit
      have "brace_inv (st\<lparr>bs_literal := bs_literal st @ [?c]\<rparr>)"
        using "1.prems"(1) lit by (auto simp: brace_inv_def intro: closed_classes_append)
      with "1.IH"(2) [OF _ refl] True lit unfolded show ?thesis by (auto simp: Let_def)
    next
      case cls
      with unfolded True obtain e where e: "classEnd seg index = Inr e"
        "brace_loop seg (e + 1) (st\<lparr>bs_literal := bs_literal st @ js_slice seg index (e + 1)\<rparr>) = Inr st'"
        by (auto simp: Let_def split: sum.splits)
      have "brace_inv (st\<lparr>bs_literal := bs_literal st @ js_slice seg index (e + 1)\<rparr>)"
        using "1.prems"(1) closed_classes_slice [OF e(1) cls]
        by (auto simp: brace_inv_def intro: closed_classes_append)
      with "1.IH"(3) [OF _ refl] True cls e show ?thesis by auto
    qed
  qed
qed

lemma braceParts_closed:
  assumes "braceParts seg = Inr parts" and "p \<in> set parts" and "t \<in> set (part_choices p)"
  shows "closed_classes t"
proof -
  let ?s0 = "\<lparr>bs_parts = [], bs_list = None, bs_literal = []\<rparr>"
  from assms(1) obtain st where st: "brace_loop seg 0 ?s0 = Inr st"
    "parts = bs_parts st @ [Literal (bs_literal st)]"
    by (auto simp: braceParts_def res_bind_Inr_iff split: if_splits)
  have "brace_inv ?s0" by (simp add: brace_inv_def)
  from brace_loop_inv [OF this st(1)] st(2) assms(2,3) show ?thesis
    by (auto simp: brace_inv_def)
qed

interpretation expand_closed: guarded_loop expand_step
    "\<lambda>p. \<forall>t \<in> set (part_choices p). closed_classes t" "\<lambda>alts. \<forall>t \<in> set alts. closed_classes t"
  by unfold_locales
     (auto simp: expand_step_def Let_def intro!: closed_classes_append split: if_splits)

lemma expandBraces_closed:
  assumes "expandBraces seg = Inr alts" and "t \<in> set alts"
  shows "closed_classes t"
proof -
  from assms(1) obtain parts xs where p: "braceParts seg = Inr parts"
    and xs: "fold_res expand_step (take MAX_STYLE_EXCLUSION_BYTES parts) [[]] = Inr xs"
    and alts: "alts = js_uniq xs"
    by (auto simp: expandBraces_def res_bind_Inr_iff)
  have "\<forall>t \<in> set xs. closed_classes t"
    using braceParts_closed [OF p] by (intro expand_closed.run_inv [OF _ _ xs]) (auto dest: in_set_takeD)
  with alts assms(2) show ?thesis by simp
qed

lemma closed_classes_drop_class:
  assumes "closed_classes (drop i s)" and "i < length s" and "s ! i = 91"
  shows "\<exists>e. js_index 93 s (Suc i) = Some e \<and> closed_classes (drop (Suc e) s)"
proof -
  have "drop i s = 91 # drop (Suc i) s" using assms(2,3) by (simp add: Cons_nth_drop_Suc [symmetric])
  with assms(1) obtain k where "find_unit 93 (drop (Suc i) s) = Some k"
    "closed_classes (drop (Suc k) (drop (Suc i) s))"
    by (auto split: option.splits)
  then show ?thesis by (auto simp: js_index_def add.commute add.left_commute)
qed

lemma tokens_loop_ends:
  "closed_classes (drop index s) \<Longrightarrow> tokens_loop s index tokens \<noteq> Inl Diverges"
proof (induction s index tokens rule: tokens_loop.induct)
  case (1 s index tokens)
  let ?c = "s ! index"
  have noDiv: "classToken body \<noteq> Inl Diverges" for body
    by (auto simp: classToken_def Let_def split: if_splits option.splits prod.splits)
  show ?case
  proof (cases "index < length s \<and> index < MAX_STYLE_EXCLUSION_BYTES")
    case False
    then show ?thesis by (simp add: tokens_loop.simps [of s index tokens])
  next
    case True
    have step: "?c \<noteq> 91 \<Longrightarrow> closed_classes (drop (Suc index) s)"
      using True "1.prems" by (simp add: Cons_nth_drop_Suc [symmetric])
    show ?thesis
    proof (cases "?c = 91")
      case False
      with True step 1(1,2,4) show ?thesis
        by (subst tokens_loop.simps) (auto simp: Let_def)
    next
      case cls: True
      from closed_classes_drop_class [OF "1.prems"] True cls
      obtain e where e: "js_index 93 s (Suc index) = Some e" "closed_classes (drop (Suc e) s)"
        by auto
      show ?thesis
      proof (cases "classToken (js_slice s (Suc index) e)")
        case (Inl p)
        with True cls e noDiv [of "js_slice s (Suc index) e"] show ?thesis
          by (subst tokens_loop.simps) (simp add: Let_def)
      next
        case (Inr t)
        with True cls e 1(3) [OF _ refl, of e t] show ?thesis
          by (subst tokens_loop.simps) (simp add: Let_def)
      qed
    qed
  qed
qed

lemma product_steps_end:
  "fold_res variant_step ts vs \<noteq> Inl Diverges"
  "fold_res expand_step ps xs \<noteq> Inl Diverges"
  by (induction ts arbitrary: vs, auto simp: variant_step_def Let_def res_bind_Inl_iff split: if_splits)
     (induction ps arbitrary: xs, auto simp: expand_step_def Let_def res_bind_Inl_iff split: if_splits)

lemma brace_loop_ends: "brace_loop seg index st \<noteq> Inl Diverges"
proof (induction seg index st rule: brace_loop.induct)
  case (1 seg index st)
  have "classEnd seg index \<noteq> Inl Diverges" by (auto simp: classEnd_def split: option.splits if_splits)
  moreover have "braceDelimiter c n st \<noteq> Inl Diverges" for c n
    by (auto simp: braceDelimiter_def closedListProblem_def Let_def split: if_splits option.splits)
  ultimately show ?case
    using 1 by (subst brace_loop.simps) (auto simp: Let_def split: sum.splits)
qed

lemma compileSegment_ends: "compileSegment U seg \<noteq> Inl Diverges"
proof
  assume d: "compileSegment U seg = Inl Diverges"
  have "braceParts seg \<noteq> Inl Diverges"
    using brace_loop_ends by (auto simp: braceParts_def res_bind_Inl_iff split: if_splits)
  then have "expandBraces seg \<noteq> Inl Diverges"
    using product_steps_end(2) by (auto simp: expandBraces_def res_bind_Inl_iff)
  with d obtain expanded where ex: "expandBraces seg = Inr expanded"
    and run: "fold_res (compile_step seg) (take MAX_BRACE_ALTERNATIVES expanded) [] = Inl Diverges"
    by (auto simp: compileSegment_def res_bind_Inl_iff split: if_splits)
  from compile_bound.run_error [OF run] obtain alt acc where alt: "alt \<in> set expanded"
    and step: "compile_step seg alt acc = Inl Diverges"
    by (auto simp: MAX_BRACE_ALTERNATIVES_def dest: in_set_takeD)
  have "segmentTokens alt \<noteq> Inl Diverges"
    using tokens_loop_ends [of 0 alt] expandBraces_closed [OF ex alt] by (simp add: segmentTokens_def)
  with step product_steps_end(1) show False
    by (auto simp: compile_step_def alternativeProblem_def bracketVariants_def res_bind_Inl_iff
        split: if_splits option.splits)
qed

section \<open>Properties\<close>

text \<open>
  Compiling one path segment of a declared exclusion always ends, whatever its text: the branch of
  \<open>segmentTokens\<close> that would restart its loop on an unclosed class is never reached. What it accepts
  has at most \<open>MAX_BRACE_ALTERNATIVES\<close> token alternatives, brace expansion and
  bracket variants together.
\<close>

theorem compileSegment_total_bounded:
  "compileSegment U seg \<noteq> Inl Diverges \<and>
   (\<forall>s. compileSegment U seg = Inr s \<longrightarrow> length (alternatives s) \<le> MAX_BRACE_ALTERNATIVES)"
  using compileSegment_ends compileSegment_bound by blast

text \<open>Concrete Unicode tables for the witnesses: the ASCII letters and digits.\<close>

definition ascii_unicode :: unicode where
  "ascii_unicode =
     \<lparr>is_letter = (\<lambda>c. 65 \<le> c \<and> c \<le> 90 \<or> 97 \<le> c \<and> c \<le> 122), is_mark = (\<lambda>_. False),
      is_number = (\<lambda>c. 48 \<le> c \<and> c \<le> 57)\<rparr>"

theorem compileSegment_total_bounded_witness:
  "compileSegment ascii_unicode GLOBSTAR = Inr \<lparr>globstar = True, wildcard = True, alternatives = []\<rparr> \<and>
   length (alternatives \<lparr>globstar = True, wildcard = True, alternatives = []\<rparr>) \<le> MAX_BRACE_ALTERNATIVES"
proof -
  have h: "compileSegment ascii_unicode GLOBSTAR = Inr \<lparr>globstar = True, wildcard = True, alternatives = []\<rparr>"
    by (simp add: compileSegment_def)
  show ?thesis using h compileSegment_total_bounded [of ascii_unicode GLOBSTAR] by blast
qed

end
