(* ===== verification/NodePath.thy ===== *)
theory NodePath
  imports JSPrelude
begin

text \<open>
  The parts of Node's \<open>path\<close> module the tools call, on POSIX (\<open>sep\<close> is \<open>/\<close>): \<open>normalize\<close>,
  \<open>join\<close>, \<open>resolve\<close>, \<open>relative\<close>, \<open>dirname\<close>, \<open>basename\<close> and \<open>extname\<close>; and the confinement test
  both tools build from them (\<open>escapesDirectory\<close> in
  \<^verbatim>\<open>src/tools/markdownlint/verify.mjs\<close>, \<open>inside\<close> in \<^verbatim>\<open>src/tools/figures/checks.mjs\<close>).
\<close>

abbreviation (input) SLASH :: nat where "SLASH \<equiv> 47"
abbreviation (input) DOT :: nat where "DOT \<equiv> 46"

definition dot_seg :: jsstr where "dot_seg = [DOT]"
definition dotdot_seg :: jsstr where "dotdot_seg = [DOT, DOT]"

text \<open>\<open>p.split("/").filter(Boolean)\<close>.\<close>

definition path_parts :: "jsstr \<Rightarrow> jsstr list" where
  "path_parts p = filter (\<lambda>s. s \<noteq> []) (js_split SLASH p)"

definition is_absolute :: "jsstr \<Rightarrow> bool" where
  "is_absolute p \<longleftrightarrow> js_starts p [SLASH]"

definition norm_step :: "bool \<Rightarrow> jsstr \<Rightarrow> jsstr list \<Rightarrow> jsstr list" where
  "norm_step up seg acc =
     (if seg = dot_seg then acc
      else if seg = dotdot_seg then
        (if acc \<noteq> [] \<and> last acc \<noteq> dotdot_seg then butlast acc
         else if up then acc @ [dotdot_seg] else acc)
      else acc @ [seg])"

definition norm_parts :: "bool \<Rightarrow> jsstr list \<Rightarrow> jsstr list" where
  "norm_parts up segs = fold (norm_step up) segs []"

definition path_normalize :: "jsstr \<Rightarrow> jsstr" where
  "path_normalize p =
     (if p = [] then dot_seg
      else
        (let absolute = is_absolute p; trailing = (last p = SLASH);
             body = js_join [SLASH] (norm_parts (\<not> absolute) (path_parts p))
         in if body = [] then (if absolute then [SLASH] else if trailing then [DOT, SLASH] else dot_seg)
            else (if absolute then [SLASH] else []) @ body @ (if trailing then [SLASH] else [])))"

definition path_join :: "jsstr list \<Rightarrow> jsstr" where
  "path_join ps = path_normalize (js_join [SLASH] (filter (\<lambda>p. p \<noteq> []) ps))"

text \<open>
  \<open>path.resolve(...ps)\<close>: arguments are read from the right up to the first absolute one, with the
  working directory as the last resort. The result is absolute, so it is kept as its parts and
  written with \<open>abs_path\<close>.
\<close>

fun resolve_parts :: "jsstr list \<Rightarrow> jsstr list \<Rightarrow> jsstr list" where
  "resolve_parts cwd [] = cwd"
| "resolve_parts cwd (p # ps) =
     resolve_parts (if is_absolute p then norm_parts False (path_parts p)
                    else norm_parts False (cwd @ path_parts p)) ps"

definition abs_path :: "jsstr list \<Rightarrow> jsstr" where
  "abs_path segs = SLASH # js_join [SLASH] segs"

definition path_resolve :: "jsstr \<Rightarrow> jsstr list \<Rightarrow> jsstr" where
  "path_resolve cwd ps = abs_path (resolve_parts (norm_parts False (path_parts cwd)) ps)"

text \<open>\<open>path.relative\<close> of two resolved paths, on their parts.\<close>

fun relative_parts :: "jsstr list \<Rightarrow> jsstr list \<Rightarrow> jsstr list" where
  "relative_parts (a # as) (b # bs) =
     (if a = b then relative_parts as bs else replicate (length (a # as)) dotdot_seg @ b # bs)"
| "relative_parts as bs = replicate (length as) dotdot_seg @ bs"

definition path_relative :: "jsstr \<Rightarrow> jsstr \<Rightarrow> jsstr \<Rightarrow> jsstr" where
  "path_relative cwd a b =
     js_join [SLASH] (relative_parts (path_parts (path_resolve cwd [a])) (path_parts (path_resolve cwd [b])))"

text \<open>\<open>escapesDirectory(base, target)\<close>, and \<open>inside\<close>, its negation.\<close>

definition escapesDirectory :: "jsstr \<Rightarrow> jsstr \<Rightarrow> jsstr \<Rightarrow> bool" where
  "escapesDirectory cwd base target =
     (let confined = path_relative cwd base target in
      confined = dotdot_seg \<or> js_starts confined (dotdot_seg @ [SLASH]) \<or> is_absolute confined)"

definition inside :: "jsstr \<Rightarrow> jsstr \<Rightarrow> jsstr \<Rightarrow> bool" where
  "inside cwd base target =
     (let rel = path_relative cwd base target in
      rel \<noteq> dotdot_seg \<and> \<not> js_starts rel (dotdot_seg @ [SLASH]) \<and> \<not> is_absolute rel)"

text \<open>\<open>path.dirname\<close>, \<open>path.basename\<close> and \<open>path.extname\<close> on the last part.\<close>

definition last_part :: "jsstr \<Rightarrow> jsstr" where
  "last_part p = (if path_parts p = [] then [] else last (path_parts p))"

definition path_basename :: "jsstr \<Rightarrow> jsstr" where
  "path_basename p = last_part p"

text \<open>
  \<open>extname\<close>: from the last dot of the last part, unless that dot is its first character or the
  part is \<open>..\<close>; the empty string when there is none.
\<close>

definition path_extname :: "jsstr \<Rightarrow> jsstr" where
  "path_extname p =
     (let b = last_part p; stem = rev (tl (dropWhile (\<lambda>c. c \<noteq> DOT) (rev b))) in
      if DOT \<notin> set b \<or> stem = [] \<or> b = dotdot_seg then [] else drop (length stem) b)"

text \<open>\<open>basename(p, extname(p))\<close>: the last part without its extension.\<close>

definition path_stem :: "jsstr \<Rightarrow> jsstr" where
  "path_stem p = take (length (last_part p) - length (path_extname p)) (last_part p)"

section \<open>Lemmas\<close>

lemma path_parts_no_slash: "s \<in> set (path_parts p) \<Longrightarrow> SLASH \<notin> set s \<and> s \<noteq> []"
  by (auto simp: path_parts_def dest: js_split_no_sep)

definition plain_seg :: "jsstr \<Rightarrow> bool" where
  "plain_seg s \<longleftrightarrow> s \<noteq> [] \<and> SLASH \<notin> set s \<and> s \<noteq> dot_seg \<and> s \<noteq> dotdot_seg"

lemma plain_segD: "plain_seg s \<Longrightarrow> s \<noteq> []" "plain_seg s \<Longrightarrow> SLASH \<notin> set s"
    "plain_seg s \<Longrightarrow> s \<noteq> dot_seg" "plain_seg s \<Longrightarrow> s \<noteq> dotdot_seg"
  by (simp_all add: plain_seg_def)

lemma dotdot_seg_facts [simp]: "dotdot_seg \<noteq> []" "[] \<noteq> dotdot_seg"
    "SLASH \<notin> set dotdot_seg" "dotdot_seg \<noteq> dot_seg"
  by (simp_all add: dotdot_seg_def dot_seg_def)

text \<open>The shape of a normalized path: a run of \<open>..\<close> (none when the path is absolute), then plain parts.\<close>

definition normal_parts :: "bool \<Rightarrow> jsstr list \<Rightarrow> bool" where
  "normal_parts up acc \<longleftrightarrow>
     (\<exists>n xs. acc = replicate n dotdot_seg @ xs \<and> (\<forall>x \<in> set xs. plain_seg x) \<and> (n \<noteq> 0 \<longrightarrow> up))"

lemma normal_parts_Nil [simp]: "normal_parts up []"
  unfolding normal_parts_def by (intro exI [of _ 0] exI [of _ "[]"]) simp

lemma normal_parts_snoc_plain:
  assumes "normal_parts up acc" and "plain_seg s"
  shows "normal_parts up (acc @ [s])"
proof -
  from assms(1) obtain n xs where "acc = replicate n dotdot_seg @ xs" "\<forall>x \<in> set xs. plain_seg x"
    "n \<noteq> 0 \<longrightarrow> up"
    by (auto simp: normal_parts_def)
  with assms(2) show ?thesis
    unfolding normal_parts_def by (intro exI [of _ n] exI [of _ "xs @ [s]"]) auto
qed

lemma normal_parts_dotdot:
  assumes "normal_parts up acc"
  shows "normal_parts up (norm_step up dotdot_seg acc)"
proof -
  from assms obtain n xs where acc: "acc = replicate n dotdot_seg @ xs"
    and xs: "\<forall>x \<in> set xs. plain_seg x" and n: "n \<noteq> 0 \<longrightarrow> up"
    by (auto simp: normal_parts_def)
  show ?thesis
  proof (cases "xs = []")
    case False
    then have "last acc \<noteq> dotdot_seg" "acc \<noteq> []" "butlast acc = replicate n dotdot_seg @ butlast xs"
      using acc xs by (auto simp: plain_seg_def butlast_append)
    moreover have "\<forall>x \<in> set (butlast xs). plain_seg x" using xs by (auto dest: in_set_butlastD)
    ultimately show ?thesis
      using n unfolding normal_parts_def norm_step_def
      by (auto simp: dot_seg_def dotdot_seg_def)
  next
    case True
    with acc have last: "acc \<noteq> [] \<Longrightarrow> last acc = dotdot_seg" by simp
    show ?thesis
    proof (cases up)
      case True
      have "acc @ [dotdot_seg] = replicate (Suc n) dotdot_seg @ []"
        using acc \<open>xs = []\<close> by (simp add: replicate_append_same)
      with True last show ?thesis
        unfolding normal_parts_def norm_step_def
        by (auto simp: dot_seg_def dotdot_seg_def intro!: exI [of _ "Suc n"] exI [of _ "[]"])
    next
      case False
      with n acc \<open>xs = []\<close> have "acc = []" by auto
      with False show ?thesis by (simp add: norm_step_def dot_seg_def dotdot_seg_def)
    qed
  qed
qed

lemma normal_parts_step:
  assumes "normal_parts up acc" and "s \<noteq> []" and "SLASH \<notin> set s"
  shows "normal_parts up (norm_step up s acc)"
proof (cases "s = dotdot_seg")
  case True
  with assms(1) show ?thesis by (simp add: normal_parts_dotdot)
next
  case False
  with assms show ?thesis
    by (auto simp: norm_step_def plain_seg_def intro: normal_parts_snoc_plain)
qed

lemma normal_parts_fold:
  "normal_parts up acc \<Longrightarrow> \<forall>s \<in> set segs. s \<noteq> [] \<and> SLASH \<notin> set s \<Longrightarrow>
     normal_parts up (fold (norm_step up) segs acc)"
  by (induction segs arbitrary: acc) (auto simp: normal_parts_step)

lemma norm_parts_normal:
  "\<forall>s \<in> set segs. s \<noteq> [] \<and> SLASH \<notin> set s \<Longrightarrow> normal_parts up (norm_parts up segs)"
  unfolding norm_parts_def by (rule normal_parts_fold) simp_all

lemma norm_parts_path_normal: "normal_parts up (norm_parts up (path_parts p))"
  by (rule norm_parts_normal) (auto dest: path_parts_no_slash)

lemma normal_parts_False: "normal_parts False acc \<longleftrightarrow> (\<forall>s \<in> set acc. plain_seg s)"
  by (simp add: normal_parts_def)

lemma normal_parts_seg:
  assumes "normal_parts up acc" and "s \<in> set acc"
  shows "s \<noteq> [] \<and> SLASH \<notin> set s \<and> s \<noteq> dot_seg"
proof -
  from assms(1) obtain n xs where "acc = replicate n dotdot_seg @ xs" "\<forall>x \<in> set xs. plain_seg x"
    by (auto simp: normal_parts_def)
  with assms(2) have "s = dotdot_seg \<or> plain_seg s" by (auto split: if_splits)
  then show ?thesis using plain_segD dotdot_seg_facts by metis
qed

lemma fold_norm_plain: "\<forall>x \<in> set xs. plain_seg x \<Longrightarrow> fold (norm_step up) xs acc = acc @ xs"
  by (induction xs arbitrary: acc) (auto simp: norm_step_def plain_seg_def)

lemma fold_norm_dotdot:
  "fold (norm_step True) (replicate n dotdot_seg) (replicate m dotdot_seg) = replicate (m + n) dotdot_seg"
proof (induction n arbitrary: m)
  case (Suc n)
  have "norm_step True dotdot_seg (replicate m dotdot_seg) = replicate (Suc m) dotdot_seg"
    by (cases m) (auto simp: norm_step_def dot_seg_def dotdot_seg_def replicate_append_same)
  then show ?case using Suc [of "Suc m"] by (simp del: fold_replicate replicate.simps add: replicate_Suc [of n])
qed simp

lemma norm_parts_idem:
  assumes "normal_parts up acc"
  shows "norm_parts up acc = acc"
proof -
  from assms obtain n xs where acc: "acc = replicate n dotdot_seg @ xs"
    and xs: "\<forall>x \<in> set xs. plain_seg x" and n: "n \<noteq> 0 \<longrightarrow> up"
    by (auto simp: normal_parts_def)
  have "fold (norm_step up) (replicate n dotdot_seg) [] = replicate n dotdot_seg"
    using n fold_norm_dotdot [of n 0] by (cases up) auto
  with acc xs show ?thesis by (simp add: norm_parts_def fold_norm_plain)
qed

lemma path_parts_join:
  assumes "\<forall>s \<in> set xs. s \<noteq> [] \<and> SLASH \<notin> set s"
  shows "path_parts (js_join [SLASH] xs) = xs"
proof (cases "xs = []")
  case True
  then show ?thesis by (simp add: path_parts_def)
next
  case False
  with assms have "js_split SLASH (js_join [SLASH] xs) = xs" by (intro js_split_join) auto
  with assms show ?thesis by (simp add: path_parts_def filter_id_conv)
qed

lemma path_parts_slash_Cons [simp]: "path_parts (SLASH # p) = path_parts p"
  by (simp add: path_parts_def)

lemma path_parts_snoc_slash: "path_parts (p @ [SLASH]) = path_parts p"
proof -
  have "js_split SLASH (p @ [SLASH]) = js_split SLASH p @ [[]]"
    by (induction p) (auto split: list.splits)
  then show ?thesis by (simp add: path_parts_def)
qed

lemma path_parts_dots: "path_parts dot_seg = [dot_seg]" "path_parts [DOT, SLASH] = [dot_seg]"
    "path_parts [] = []"
  by (simp_all add: path_parts_def dot_seg_def)

lemma path_parts_abs_path:
  "\<forall>s \<in> set xs. s \<noteq> [] \<and> SLASH \<notin> set s \<Longrightarrow> path_parts (abs_path xs) = xs"
  by (simp add: abs_path_def path_parts_join)

lemma js_join_slash_ends:
  assumes "xs \<noteq> []" and "\<forall>s \<in> set xs. s \<noteq> [] \<and> SLASH \<notin> set s"
  shows "js_join [SLASH] xs \<noteq> []" "hd (js_join [SLASH] xs) \<noteq> SLASH" "last (js_join [SLASH] xs) \<noteq> SLASH"
proof -
  have "js_join [SLASH] xs \<noteq> [] \<and> hd (js_join [SLASH] xs) \<noteq> SLASH \<and> last (js_join [SLASH] xs) \<noteq> SLASH"
    using assms
  proof (induction xs)
    case (Cons x xs)
    show ?case
    proof (cases "xs = []")
      case True
      with Cons.prems show ?thesis by (auto dest: hd_in_set last_in_set)
    next
      case False
      with Cons show ?thesis by (auto simp: js_join_Cons hd_append last_append dest: hd_in_set)
    qed
  qed simp
  then show "js_join [SLASH] xs \<noteq> []" "hd (js_join [SLASH] xs) \<noteq> SLASH" "last (js_join [SLASH] xs) \<noteq> SLASH"
    by auto
qed

lemma resolve_parts_plain:
  assumes "\<forall>s \<in> set cwd. plain_seg s"
  shows "\<forall>s \<in> set (resolve_parts cwd ps). plain_seg s"
  using assms
proof (induction ps arbitrary: cwd)
  case (Cons p ps)
  have "\<forall>s \<in> set (norm_parts False (cwd @ path_parts p)). plain_seg s"
  proof -
    have "\<forall>s \<in> set (cwd @ path_parts p). s \<noteq> [] \<and> SLASH \<notin> set s"
      using Cons.prems plain_segD(1,2) path_parts_no_slash by (metis Un_iff set_append)
    from norm_parts_normal [OF this, of False] show ?thesis by (simp add: normal_parts_False)
  qed
  moreover have "\<forall>s \<in> set (norm_parts False (path_parts p)). plain_seg s"
    using norm_parts_path_normal [of False p] by (simp add: normal_parts_False)
  ultimately show ?case by (auto intro!: Cons.IH)
qed simp

lemma path_resolve_parts_plain: "s \<in> set (path_parts (path_resolve cwd ps)) \<Longrightarrow> plain_seg s"
proof -
  let ?xs = "resolve_parts (norm_parts False (path_parts cwd)) ps"
  have plain: "\<forall>s \<in> set ?xs. plain_seg s"
    using norm_parts_path_normal [of False cwd] by (intro resolve_parts_plain) (simp add: normal_parts_False)
  then have "path_parts (path_resolve cwd ps) = ?xs"
    unfolding path_resolve_def by (intro path_parts_abs_path) (auto simp: plain_seg_def)
  with plain show "s \<in> set (path_parts (path_resolve cwd ps)) \<Longrightarrow> plain_seg s" by simp
qed

lemma relative_parts_prefix:
  assumes "\<forall>s \<in> set bs. plain_seg s"
  shows "(relative_parts as bs \<noteq> [] \<and> hd (relative_parts as bs) = dotdot_seg) \<longleftrightarrow> \<not> prefix as bs"
  using assms
proof (induction as bs rule: relative_parts.induct)
  case (1 a as b bs)
  then show ?case by auto
qed (auto simp: plain_seg_def neq_Nil_conv)

lemma relative_parts_segs:
  assumes "\<forall>s \<in> set bs. plain_seg s"
  shows "\<forall>s \<in> set (relative_parts as bs). s \<noteq> [] \<and> SLASH \<notin> set s"
  using assms
  by (induction as bs rule: relative_parts.induct) (auto dest: plain_segD)

lemma join_starts_dotdot:
  assumes "\<forall>s \<in> set xs. s \<noteq> [] \<and> SLASH \<notin> set s"
  shows "(js_join [SLASH] xs = dotdot_seg \<or> js_starts (js_join [SLASH] xs) (dotdot_seg @ [SLASH])) \<longleftrightarrow>
    xs \<noteq> [] \<and> hd xs = dotdot_seg"
proof (cases xs)
  case Nil
  then show ?thesis by (simp add: dotdot_seg_def)
next
  case (Cons x rest)
  show ?thesis
  proof (cases "rest = []")
    case True
    with Cons assms show ?thesis
      by (auto simp: js_starts_iff dotdot_seg_def)
  next
    case False
    have x: "SLASH \<notin> set x" using assms Cons by simp
    have "js_starts (x @ SLASH # r) (dotdot_seg @ [SLASH]) \<longleftrightarrow> x = dotdot_seg" for r
    proof
      assume "js_starts (x @ SLASH # r) (dotdot_seg @ [SLASH])"
      then obtain t where t: "x @ SLASH # r = dotdot_seg @ SLASH # t" by (auto simp: js_starts_iff)
      then have "js_split SLASH (x @ SLASH # r) = js_split SLASH (dotdot_seg @ SLASH # t)" by simp
      with x show "x = dotdot_seg" by (simp add: js_split_append dotdot_seg_def)
    qed (simp add: js_starts_iff)
    moreover have "x @ SLASH # r \<noteq> dotdot_seg" for r
      using x by (auto simp: dotdot_seg_def append_eq_Cons_conv)
    ultimately show ?thesis using Cons False by (simp add: js_join_Cons)
  qed
qed

lemma escapesDirectory_iff:
  "escapesDirectory cwd base target \<longleftrightarrow>
     \<not> prefix (path_parts (path_resolve cwd [base])) (path_parts (path_resolve cwd [target]))"
proof -
  let ?as = "path_parts (path_resolve cwd [base])" and ?bs = "path_parts (path_resolve cwd [target])"
  have plain: "\<forall>s \<in> set ?bs. plain_seg s" using path_resolve_parts_plain by blast
  note segs = relative_parts_segs [OF plain, of ?as]
  have "\<not> is_absolute (js_join [SLASH] (relative_parts ?as ?bs))"
  proof (cases "relative_parts ?as ?bs = []")
    case False
    from js_join_slash_ends [OF False segs] show ?thesis
      by (cases "js_join [SLASH] (relative_parts ?as ?bs)") (auto simp: is_absolute_def)
  qed (simp add: is_absolute_def)
  then show ?thesis
    using join_starts_dotdot [OF segs] relative_parts_prefix [OF plain, of ?as]
    by (simp add: escapesDirectory_def path_relative_def Let_def)
qed

lemma inside_not_escapes: "inside cwd base target \<longleftrightarrow> \<not> escapesDirectory cwd base target"
  by (auto simp: inside_def escapesDirectory_def Let_def)

lemma path_normalize_parts:
  "p \<noteq> [] \<Longrightarrow> path_parts (path_normalize p) =
     (if norm_parts (\<not> is_absolute p) (path_parts p) = [] then
        (if is_absolute p then [] else [dot_seg])
      else norm_parts (\<not> is_absolute p) (path_parts p))"
proof -
  assume p: "p \<noteq> []"
  let ?xs = "norm_parts (\<not> is_absolute p) (path_parts p)"
  have segs: "\<forall>s \<in> set ?xs. s \<noteq> [] \<and> SLASH \<notin> set s"
    using norm_parts_path_normal normal_parts_seg by blast
  have body: "js_join [SLASH] ?xs = [] \<longleftrightarrow> ?xs = []"
    using js_join_slash_ends(1) [OF _ segs] by auto
  have "path_parts (js_join [SLASH] ?xs) = ?xs" by (rule path_parts_join [OF segs])
  with p body show ?thesis
    by (cases "is_absolute p") (simp_all add: path_normalize_def Let_def path_parts_snoc_slash path_parts_dots)
qed

section \<open>Properties\<close>

text \<open>
  C14. The confinement test both tools use is exact: a target escapes a directory precisely when the
  resolved parts of the directory are not a prefix of the resolved parts of the target, whatever
  dots, double slashes and \<open>..\<close> segments either spelling holds; and \<open>inside\<close> is its negation.
\<close>

theorem escapesDirectory_exact:
  "(escapesDirectory cwd base target \<longleftrightarrow>
     \<not> prefix (path_parts (path_resolve cwd [base])) (path_parts (path_resolve cwd [target]))) \<and>
   (inside cwd base target \<longleftrightarrow>
     prefix (path_parts (path_resolve cwd [base])) (path_parts (path_resolve cwd [target])))"
  by (simp add: escapesDirectory_iff inside_not_escapes)

end
