(* ===== verification/GateSettings.thy ===== *)
theory GateSettings
  imports GlobSafety NodePath
begin

text \<open>
  The settings of the documentation gate (\<^verbatim>\<open>src/tools/markdownlint/verify.mjs\<close>): reading
  \<^verbatim>\<open>.standards.yaml\<close>, the bounds a repository may raise, the style exclusions it may declare, and the
  selection of the files the style rules check. A parsed YAML document is a \<open>yaml\<close> value; the
  YAML parser itself (js-yaml) is a parameter, and the file system a record of lookups.
\<close>

definition DEFAULT_MAX_FILES :: int where "DEFAULT_MAX_FILES = 4096"
definition MAX_FILES_CEILING :: int where "MAX_FILES_CEILING = 16384"
definition DEFAULT_MAX_FILE_BYTES :: int where "DEFAULT_MAX_FILE_BYTES = 1048576"
definition MAX_FILE_BYTES_CEILING :: int where "MAX_FILE_BYTES_CEILING = 4194304"
definition DEFAULT_LINT_TIMEOUT_SECONDS :: int where "DEFAULT_LINT_TIMEOUT_SECONDS = 120"
definition LINT_TIMEOUT_SECONDS_CEILING :: int where "LINT_TIMEOUT_SECONDS_CEILING = 480"
definition MAX_MANIFEST_BYTES :: nat where "MAX_MANIFEST_BYTES = 1048576"
definition MAX_STYLE_EXCLUSIONS :: nat where "MAX_STYLE_EXCLUSIONS = 64"

lemmas gate_bounds = DEFAULT_MAX_FILES_def MAX_FILES_CEILING_def DEFAULT_MAX_FILE_BYTES_def
  MAX_FILE_BYTES_CEILING_def DEFAULT_LINT_TIMEOUT_SECONDS_def LINT_TIMEOUT_SECONDS_CEILING_def

text \<open>
  A YAML value. A number is an integer or not (\<open>YNumber None\<close>: a fraction, NaN or an infinity); a
  mapping lists its entries in the order of \<open>Object.keys\<close>; \<open>YOther\<close> is any other object.
\<close>

datatype yaml =
    YNull
  | YBool bool
  | YNumber "int option"
  | YString jsstr
  | YSeq "yaml list"
  | YMap "(jsstr \<times> yaml) list"
  | YOther

datatype setting_key = MaxFiles | MaxFileBytes | LintTimeoutSeconds

datatype exclusion_problem =
    NotNonEmptyString
  | ExclusionTooLong
  | ForbiddenUnit
  | NotRelative
  | BadSegment
  | NamesNoPath
  | GlobProblem glob_problem

datatype settings_error =
    NonRegularManifest
  | ManifestGone
  | ManifestTooLarge nat
  | InvalidYaml
  | SeveralDocuments nat
  | ManifestNotMapping
  | DocumentationNotMapping
  | UnknownKey jsstr
  | BadSetting setting_key int int yaml
  | ExclusionsNotList
  | TooManyExclusions nat
  | BadExclusion nat exclusion_problem
  | RepeatedExclusion nat
  | UnsupportedExclusion jsstr glob_problem
  | NothingStyled nat

record settings =
  declared :: bool
  maxFiles :: int
  maxFileBytes :: int
  lintTimeoutSeconds :: int
  styleExclude :: "jsstr list"

definition DEFAULT_SETTINGS :: settings where
  "DEFAULT_SETTINGS =
     \<lparr>declared = False, maxFiles = DEFAULT_MAX_FILES, maxFileBytes = DEFAULT_MAX_FILE_BYTES,
      lintTimeoutSeconds = DEFAULT_LINT_TIMEOUT_SECONDS, styleExclude = []\<rparr>"

section \<open>Reading the manifest\<close>

text \<open>
  What the gate asks of the file system about the manifest: opening it (the error code, or what the
  descriptor reads: whether it is a regular file, its size and its text) and \<open>lstat\<close> of
  its path (absent, a symbolic link, or something else).
\<close>

datatype open_error = ENOENT | OtherOpenError
record opened = op_file :: bool op_size :: nat op_text :: jsstr
datatype lnode = LSymlink | LOther

record manifest_fs =
  mf_open :: "(open_error, opened) res"
  mf_lstat :: "lnode option"

definition readManifestText :: "manifest_fs \<Rightarrow> (settings_error, jsstr option) res" where
  "readManifestText fs =
     (case mf_open fs of
        Inl code \<Rightarrow>
          if code = ENOENT \<and> mf_lstat fs = None then Inr None else Inl NonRegularManifest
      | Inr descriptor \<Rightarrow>
          (case mf_lstat fs of
             None \<Rightarrow> Inl ManifestGone
           | Some LSymlink \<Rightarrow> Inl NonRegularManifest
           | Some LOther \<Rightarrow>
               if \<not> op_file descriptor then Inl NonRegularManifest
               else if op_size descriptor > MAX_MANIFEST_BYTES then
                 Inl (ManifestTooLarge (op_size descriptor))
               else Inr (Some (op_text descriptor))))"

fun isMapping :: "yaml \<Rightarrow> bool" where
  "isMapping (YMap _) = True"
| "isMapping _ = False"

definition documentationBlock ::
  "(jsstr \<Rightarrow> yaml list option) \<Rightarrow> jsstr \<Rightarrow> (settings_error, yaml) res" where
  "documentationBlock loadAll source =
     (case loadAll source of
        None \<Rightarrow> Inl InvalidYaml
      | Some documents \<Rightarrow>
          if length documents > 1 then Inl (SeveralDocuments (length documents))
          else
            (case documents of
               [] \<Rightarrow> Inr YNull
             | manifest # _ \<Rightarrow>
                 (case manifest of
                    YNull \<Rightarrow> Inr YNull
                  | YMap entries \<Rightarrow>
                      Inr (case map_of entries (js ''documentation'') of None \<Rightarrow> YNull | Some v \<Rightarrow> v)
                  | _ \<Rightarrow> Inl ManifestNotMapping)))"

section \<open>Settings\<close>

definition is_safe_integer :: "yaml \<Rightarrow> int option" where
  "is_safe_integer v =
     (case v of YNumber (Some i) \<Rightarrow> if \<bar>i\<bar> \<le> 9007199254740991 then Some i else None | _ \<Rightarrow> None)"

definition boundedSetting ::
  "yaml option \<Rightarrow> setting_key \<Rightarrow> int \<Rightarrow> int \<Rightarrow> int \<Rightarrow> (settings_error, int) res" where
  "boundedSetting value key defaultValue ceiling minimum =
     (case value of
        None \<Rightarrow> Inr defaultValue
      | Some v \<Rightarrow>
          (case is_safe_integer v of
             Some i \<Rightarrow>
               if i < minimum \<or> i > ceiling then Inl (BadSetting key minimum ceiling v) else Inr i
           | None \<Rightarrow> Inl (BadSetting key minimum ceiling v)))"

definition drive_letter :: "jsstr \<Rightarrow> bool" where
  "drive_letter p =
     (case p of c # d # _ \<Rightarrow> (65 \<le> c \<and> c \<le> 90 \<or> 97 \<le> c \<and> c \<le> 122) \<and> d = cu CHR '':'' | _ \<Rightarrow> False)"

definition styleExclusionProblem :: "unicode \<Rightarrow> yaml \<Rightarrow> exclusion_problem option" where
  "styleExclusionProblem U v =
     (case v of
        YString pattern \<Rightarrow>
          if pattern = [] then Some NotNonEmptyString
          else if byte_length pattern > MAX_STYLE_EXCLUSION_BYTES then Some ExclusionTooLong
          else if \<exists>c \<in> set pattern. c = 0 \<or> c = 13 \<or> c = 10 \<or> c = 92 then Some ForbiddenUnit
          else if js_starts pattern (js ''/'') \<or> js_starts pattern (js ''!'') \<or> drive_letter pattern
            then Some NotRelative
          else if \<exists>s \<in> set (js_split SLASH pattern). s = [] \<or> s = dot_seg \<or> s = dotdot_seg
            then Some BadSegment
          else if \<not> names_path U pattern then Some NamesNoPath
          else None
      | _ \<Rightarrow> Some NotNonEmptyString)"

text \<open>One entry of the declared list: refused for its form, for its grammar, or as a repetition.\<close>

fun yaml_text :: "yaml \<Rightarrow> jsstr" where
  "yaml_text (YString p) = p"
| "yaml_text _ = []"

definition exclusion_step ::
  "unicode \<Rightarrow> nat \<times> yaml \<Rightarrow> jsstr list \<Rightarrow> (settings_error, jsstr list) res" where
  "exclusion_step U iv seen =
     (let (index, v) = iv in
      case styleExclusionProblem U v of
        Some p \<Rightarrow> Inl (BadExclusion index p)
      | None \<Rightarrow>
          (case parseStyleExclusion U (yaml_text v) of
             Inl p \<Rightarrow> Inl (BadExclusion index (GlobProblem p))
           | Inr _ \<Rightarrow>
               if yaml_text v \<in> set seen then Inl (RepeatedExclusion index)
               else Inr (seen @ [yaml_text v])))"

definition styleExclusions :: "unicode \<Rightarrow> yaml option \<Rightarrow> (settings_error, jsstr list) res" where
  "styleExclusions U value =
     (case value of
        None \<Rightarrow> Inr []
      | Some (YSeq vs) \<Rightarrow>
          if length vs > MAX_STYLE_EXCLUSIONS then Inl (TooManyExclusions (length vs))
          else fold_res (exclusion_step U) (enumerate 0 (take MAX_STYLE_EXCLUSIONS vs)) []
      | Some _ \<Rightarrow> Inl ExclusionsNotList)"

definition DOCUMENTATION_KEYS :: "jsstr list" where
  "DOCUMENTATION_KEYS =
     [js ''max_files'', js ''max_file_bytes'', js ''lint_timeout_seconds'', js ''style_exclude'']"

definition documentationSettings :: "unicode \<Rightarrow> yaml \<Rightarrow> (settings_error, settings) res" where
  "documentationSettings U block =
     (case block of
        YNull \<Rightarrow> Inr DEFAULT_SETTINGS
      | YMap entries \<Rightarrow>
          (case find (\<lambda>key. key \<notin> set DOCUMENTATION_KEYS) (map fst entries) of
             Some key \<Rightarrow> Inl (UnknownKey (take 64 key))
           | None \<Rightarrow>
               (let get = map_of entries in
                res_bind (boundedSetting (get (js ''max_files'')) MaxFiles DEFAULT_MAX_FILES
                    MAX_FILES_CEILING DEFAULT_MAX_FILES) (\<lambda>files.
                res_bind (boundedSetting (get (js ''max_file_bytes'')) MaxFileBytes DEFAULT_MAX_FILE_BYTES
                    MAX_FILE_BYTES_CEILING DEFAULT_MAX_FILE_BYTES) (\<lambda>bytes.
                res_bind (boundedSetting (get (js ''lint_timeout_seconds'')) LintTimeoutSeconds
                    DEFAULT_LINT_TIMEOUT_SECONDS LINT_TIMEOUT_SECONDS_CEILING 1) (\<lambda>seconds.
                res_bind (styleExclusions U (get (js ''style_exclude''))) (\<lambda>globs.
                  Inr \<lparr>declared = True, maxFiles = files, maxFileBytes = bytes,
                       lintTimeoutSeconds = seconds, styleExclude = globs\<rparr>))))))
      | _ \<Rightarrow> Inl DocumentationNotMapping)"

definition repositorySettings ::
  "unicode \<Rightarrow> (jsstr \<Rightarrow> yaml list option) \<Rightarrow> manifest_fs \<Rightarrow> (settings_error, settings) res" where
  "repositorySettings U loadAll fs =
     res_bind (readManifestText fs) (\<lambda>content.
       case content of
         None \<Rightarrow> Inr DEFAULT_SETTINGS
       | Some t \<Rightarrow> res_bind (documentationBlock loadAll t) (documentationSettings U))"

section \<open>Style selection\<close>

definition MARKDOWN_SUFFIXES :: "jsstr list" where
  "MARKDOWN_SUFFIXES =
     [js ''.md'', js ''.markdown'', js ''.mdx'', js ''.md.tmpl'', js ''.markdown.tmpl'', js ''.mdx.tmpl'']"

definition STYLE_EXCLUDED_FILES :: "jsstr list" where
  "STYLE_EXCLUDED_FILES =
     [js ''.github/copilot-instructions.md'', js ''AGENTS.md'', js ''AGENTS.readonly.md'',
      js ''CHANGELOG.md'', js ''CLAUDE.md'']"

definition STYLE_EXCLUDED_PREFIXES :: "jsstr list" where
  "STYLE_EXCLUDED_PREFIXES =
     [js ''.agents/agents/'', js ''.agents/plugins/'', js ''.agents/skills/'', js ''.claude/'',
      js ''.codex/'', js ''.cursor/'', js ''.gemini/'', js ''.github/agents/'', js ''.paperclip/'',
      js ''.standards/worktrees/'', js ''.workingdir/'', js ''.workingdir2/'',
      js ''internal/caveman/testdata/'', js ''node_modules/'',
      js ''tools/figures/third_party/interfig/upstream/'', js ''vendor/'']"

definition isStyleSelected :: "jsstr \<Rightarrow> bool" where
  "isStyleSelected relative =
     (let normalized = replace_unit 92 [SLASH] relative; lower = js_lower normalized in
      (\<exists>suffix \<in> set MARKDOWN_SUFFIXES. js_ends lower suffix) \<and>
      normalized \<notin> set STYLE_EXCLUDED_FILES \<and>
      js ''node_modules'' \<notin> set (js_split SLASH lower) \<and>
      \<not> (\<exists>prefix \<in> set STYLE_EXCLUDED_PREFIXES. js_starts normalized prefix))"

record selection =
  styled :: "jsstr list"
  sel_excluded :: nat
  counts :: "nat list"

text \<open>
  The loop of \<open>styleSelection\<close>: the styled files, the number of eligible ones and the count of
  each declared glob. The source bounds the files by \<open>MAX_FILES_CEILING\<close> and the globs by
  \<open>MAX_STYLE_EXCLUSIONS\<close>.
\<close>

definition selection_step ::
  "(jsstr \<Rightarrow> bool) list \<Rightarrow> jsstr \<Rightarrow> jsstr list \<times> nat \<times> nat list \<Rightarrow> jsstr list \<times> nat \<times> nat list" where
  "selection_step matchers file st =
     (let (styled, eligible, counts) = st; hits = map (\<lambda>m. m file) matchers in
      if \<not> isStyleSelected file then st
      else
        (if True \<in> set hits then styled else styled @ [file],
         Suc eligible,
         map2 (\<lambda>hit n. if hit then Suc n else n) hits counts))"

definition matchers_of ::
  "unicode \<Rightarrow> bool \<Rightarrow> settings \<Rightarrow> (settings_error, (jsstr \<Rightarrow> bool) list) res" where
  "matchers_of U windows s =
     map_res (\<lambda>pattern.
       case styleExclusionMatcher U windows pattern of
         Inl p \<Rightarrow> Inl (UnsupportedExclusion pattern p)
       | Inr m \<Rightarrow> Inr m) (styleExclude s)"

definition styleSelection ::
  "unicode \<Rightarrow> jsstr list \<Rightarrow> settings \<Rightarrow> bool \<Rightarrow> (settings_error, selection) res" where
  "styleSelection U files s windows =
     res_bind (matchers_of U windows s) (\<lambda>ms.
       (let matchers = take MAX_STYLE_EXCLUSIONS ms;
            (kept, eligible, hits) =
              fold (selection_step matchers) (take (nat MAX_FILES_CEILING) files)
                ([], 0, replicate (length matchers) 0)
        in if eligible > 0 \<and> kept = [] then Inl (NothingStyled eligible)
           else Inr \<lparr>styled = kept, sel_excluded = eligible - length kept,
                     counts = hits @ replicate (length ms - length matchers) 0\<rparr>))"

section \<open>Bound checks\<close>

datatype bound_error = TooManyFiles nat int bool | FileTooLarge jsstr nat int bool

text \<open>The flag says whether the message carries the hint that a setting raises the bound.\<close>

definition boundHint :: "int \<Rightarrow> int \<Rightarrow> bool" where
  "boundHint value ceiling \<longleftrightarrow> value < ceiling"

definition checkFileCount :: "nat \<Rightarrow> settings \<Rightarrow> (bound_error, unit) res" where
  "checkFileCount n s =
     (if int n > maxFiles s
      then Inl (TooManyFiles n (maxFiles s) (boundHint (maxFiles s) MAX_FILES_CEILING))
      else Inr ())"

definition checkFileSize :: "jsstr \<Rightarrow> nat \<Rightarrow> settings \<Rightarrow> (bound_error, unit) res" where
  "checkFileSize relative bytes s =
     (if int bytes > maxFileBytes s
      then Inl (FileTooLarge relative bytes (maxFileBytes s) (boundHint (maxFileBytes s) MAX_FILE_BYTES_CEILING))
      else Inr ())"

section \<open>Lemmas\<close>

lemma boundedSetting_range:
  assumes "boundedSetting v key d c m = Inr n" and "m \<le> d" and "d \<le> c"
  shows "m \<le> n \<and> n \<le> c"
  using assms by (auto simp: boundedSetting_def split: option.splits if_splits)

text \<open>The invariant of the declared list: each glob is well formed, compiles, and occurs once.\<close>

definition accepted_glob :: "unicode \<Rightarrow> jsstr \<Rightarrow> bool" where
  "accepted_glob U pattern \<longleftrightarrow>
     styleExclusionProblem U (YString pattern) = None \<and> (\<exists>segs. parseStyleExclusion U pattern = Inr segs)"

lemma styleExclusionProblem_text:
  "styleExclusionProblem U v = None \<Longrightarrow> v = YString (yaml_text v)"
  by (cases v) (auto simp: styleExclusionProblem_def)

lemma exclusion_step_inv:
  assumes "distinct seen \<and> (\<forall>p \<in> set seen. accepted_glob U p)"
    and "exclusion_step U iv seen = Inr t"
  shows "distinct t \<and> (\<forall>p \<in> set t. accepted_glob U p)"
proof -
  obtain i v where iv: "iv = (i, v)" by (cases iv)
  from assms(2) iv have p: "styleExclusionProblem U v = None" and t: "t = seen @ [yaml_text v]"
    and new: "yaml_text v \<notin> set seen" and ok: "\<exists>segs. parseStyleExclusion U (yaml_text v) = Inr segs"
    by (auto simp: exclusion_step_def Let_def split: option.splits sum.splits if_splits)
  have "accepted_glob U (yaml_text v)"
    using p ok styleExclusionProblem_text [OF p] by (simp add: accepted_glob_def)
  with assms(1) t new show ?thesis by auto
qed

interpretation exclusion_list: guarded_loop "exclusion_step U" "\<lambda>_. True"
    "\<lambda>seen. distinct seen \<and> (\<forall>p \<in> set seen. accepted_glob U p)" for U
  by unfold_locales (rule exclusion_step_inv)

lemma exclusion_run_length:
  "fold_res (exclusion_step U) ivs seen = Inr t \<Longrightarrow> length t = length seen + length ivs"
proof (induction ivs arbitrary: seen)
  case (Cons iv ivs)
  then obtain u where u: "exclusion_step U iv seen = Inr u" "fold_res (exclusion_step U) ivs u = Inr t"
    by (auto simp: res_bind_Inr_iff)
  from u(1) have "length u = Suc (length seen)"
    by (auto simp: exclusion_step_def Let_def split: prod.splits option.splits sum.splits if_splits)
  with Cons.IH [OF u(2)] show ?case by simp
qed simp

lemma styleExclusions_accepted:
  assumes "styleExclusions U value = Inr globs"
  shows "distinct globs" "length globs \<le> MAX_STYLE_EXCLUSIONS" "\<And>p. p \<in> set globs \<Longrightarrow> accepted_glob U p"
proof -
  consider "globs = []" | vs where "length vs \<le> MAX_STYLE_EXCLUSIONS"
      "fold_res (exclusion_step U) (enumerate 0 (take MAX_STYLE_EXCLUSIONS vs)) [] = Inr globs"
    using assms by (auto simp: styleExclusions_def not_less split: option.splits yaml.splits if_splits)
  then have "distinct globs \<and> (\<forall>p \<in> set globs. accepted_glob U p) \<and> length globs \<le> MAX_STYLE_EXCLUSIONS"
  proof cases
    case 2
    from exclusion_list.run_inv [OF _ _ 2(2)] exclusion_run_length [OF 2(2)] 2(1) show ?thesis by auto
  qed simp
  then show "distinct globs" "length globs \<le> MAX_STYLE_EXCLUSIONS" "\<And>p. p \<in> set globs \<Longrightarrow> accepted_glob U p"
    by auto
qed

definition settings_ok :: "unicode \<Rightarrow> settings \<Rightarrow> bool" where
  "settings_ok U s \<longleftrightarrow>
     DEFAULT_MAX_FILES \<le> maxFiles s \<and> maxFiles s \<le> MAX_FILES_CEILING \<and>
     DEFAULT_MAX_FILE_BYTES \<le> maxFileBytes s \<and> maxFileBytes s \<le> MAX_FILE_BYTES_CEILING \<and>
     1 \<le> lintTimeoutSeconds s \<and> lintTimeoutSeconds s \<le> LINT_TIMEOUT_SECONDS_CEILING \<and>
     length (styleExclude s) \<le> MAX_STYLE_EXCLUSIONS \<and> distinct (styleExclude s) \<and>
     (\<forall>p \<in> set (styleExclude s). accepted_glob U p)"

lemma default_settings_ok: "settings_ok U DEFAULT_SETTINGS"
  by (simp add: settings_ok_def DEFAULT_SETTINGS_def gate_bounds)

lemma documentationSettings_ok:
  assumes "documentationSettings U block = Inr s"
  shows "settings_ok U s"
proof (cases block)
  case (YMap entries)
  let ?get = "map_of entries"
  from assms YMap obtain globs where
    files: "boundedSetting (?get (js ''max_files'')) MaxFiles DEFAULT_MAX_FILES
       MAX_FILES_CEILING DEFAULT_MAX_FILES = Inr (maxFiles s)" and
    bytes: "boundedSetting (?get (js ''max_file_bytes'')) MaxFileBytes DEFAULT_MAX_FILE_BYTES
       MAX_FILE_BYTES_CEILING DEFAULT_MAX_FILE_BYTES = Inr (maxFileBytes s)" and
    secs: "boundedSetting (?get (js ''lint_timeout_seconds'')) LintTimeoutSeconds
       DEFAULT_LINT_TIMEOUT_SECONDS LINT_TIMEOUT_SECONDS_CEILING 1 = Inr (lintTimeoutSeconds s)" and
    globs: "styleExclusions U (?get (js ''style_exclude'')) = Inr (styleExclude s)"
    by (auto simp: documentationSettings_def Let_def res_bind_Inr_iff simp del: list.map split: option.splits)
  from boundedSetting_range [OF files] boundedSetting_range [OF bytes] boundedSetting_range [OF secs]
    styleExclusions_accepted [OF globs]
  show ?thesis by (simp add: settings_ok_def gate_bounds)
qed (use assms default_settings_ok in \<open>auto simp: documentationSettings_def\<close>)

text \<open>What the selection loop computes.\<close>

definition excluded_by :: "(jsstr \<Rightarrow> bool) list \<Rightarrow> jsstr \<Rightarrow> bool" where
  "excluded_by matchers file \<longleftrightarrow> (\<exists>m \<in> set matchers. m file)"

lemma map2_bump:
  "length cs = length ms \<Longrightarrow>
   map2 (\<lambda>m c. c + g m) ms (map2 (\<lambda>hit n. if hit then Suc n else n) (map (\<lambda>m. m f) ms) cs) =
   map2 (\<lambda>m c. c + (if m f then Suc (g m) else g m)) ms cs"
  by (induction cs ms rule: list_induct2) auto

lemma map2_same: "length cs = length ms \<Longrightarrow> map2 (\<lambda>m c. c) ms cs = cs"
  by (induction cs ms rule: list_induct2) auto

lemma selection_fold:
  assumes "length cs = length matchers"
  shows "fold (selection_step matchers) files (st, n, cs) =
     (st @ filter (\<lambda>f. isStyleSelected f \<and> \<not> excluded_by matchers f) files,
      n + length (filter isStyleSelected files),
      map2 (\<lambda>m c. c + length (filter (\<lambda>f. isStyleSelected f \<and> m f) files)) matchers cs)"
  using assms
proof (induction files arbitrary: st n cs)
  case Nil
  then show ?case by (simp add: map2_same)
next
  case (Cons f files)
  show ?case
  proof (cases "isStyleSelected f")
    case False
    with Cons show ?thesis by (simp add: selection_step_def Let_def)
  next
    case True
    let ?cs = "map2 (\<lambda>hit n. if hit then Suc n else n) (map (\<lambda>m. m f) matchers) cs"
    let ?g = "\<lambda>m. length (filter (\<lambda>f. isStyleSelected f \<and> m f) files)"
    have len: "length ?cs = length matchers" using Cons.prems by simp
    have count: "length (filter (\<lambda>f. isStyleSelected f \<and> m f) (f # files)) =
        (if m f then Suc (?g m) else ?g m)" for m
      using True by simp
    have "fold (selection_step matchers) (f # files) (st, n, cs) =
        fold (selection_step matchers) files
          (if excluded_by matchers f then st else st @ [f], Suc n, ?cs)"
      using True by (auto simp: selection_step_def excluded_by_def)
    then show ?thesis
      unfolding Cons.IH [OF len] map2_bump [OF Cons.prems] count using True by simp
  qed
qed

lemma settings_matchers:
  assumes "settings_ok U s"
  shows "\<exists>ms. matchers_of U windows s = Inr ms \<and> length ms = length (styleExclude s)"
proof -
  have "\<exists>ms. map_res f ps = Inr ms \<and> length ms = length ps" if "\<forall>p \<in> set ps. \<exists>m. f p = Inr m"
    for f :: "jsstr \<Rightarrow> (settings_error, jsstr \<Rightarrow> bool) res" and ps
    using that by (induction ps) (auto simp: res_bind_Inr_iff)
  moreover have "\<forall>p \<in> set (styleExclude s). \<exists>m. (case styleExclusionMatcher U windows p of
      Inl q \<Rightarrow> Inl (UnsupportedExclusion p q) | Inr m \<Rightarrow> Inr m) = Inr m"
    using assms by (auto simp: settings_ok_def accepted_glob_def styleExclusionMatcher_def)
  ultimately show ?thesis by (simp add: matchers_of_def)
qed

lemma map_replicate_map2: "map2 (\<lambda>m c. c + g m) ms (replicate (length ms) (0::nat)) = map g ms"
  by (induction ms) auto

lemma length_partition: "length (filter P xs) - length (filter (\<lambda>x. P x \<and> \<not> Q x) xs) = length (filter (\<lambda>x. P x \<and> Q x) xs)"
proof -
  have "length (filter P xs) = length (filter (\<lambda>x. P x \<and> \<not> Q x) xs) + length (filter (\<lambda>x. P x \<and> Q x) xs)"
    by (induction xs) auto
  then show ?thesis by simp
qed

lemma styleSelection_value:
  assumes "settings_ok U s" and "matchers_of U windows s = Inr ms"
    and "length files \<le> nat MAX_FILES_CEILING"
  shows "styleSelection U files s windows =
    (let chosen = filter isStyleSelected files; kept = filter (\<lambda>f. \<not> excluded_by ms f) chosen in
     if chosen \<noteq> [] \<and> kept = [] then Inl (NothingStyled (length chosen))
     else Inr \<lparr>styled = kept, sel_excluded = length (filter (excluded_by ms) chosen),
               counts = map (\<lambda>m. length (filter m chosen)) ms\<rparr>)"
proof -
  have "length ms \<le> MAX_STYLE_EXCLUSIONS"
    using settings_matchers [OF assms(1), of windows] assms(1,2) by (auto simp: settings_ok_def)
  then have take: "take MAX_STYLE_EXCLUSIONS ms = ms" "take (nat MAX_FILES_CEILING) files = files"
    using assms(3) by auto
  have loop: "fold (selection_step ms) files ([], 0, replicate (length ms) 0) =
     (filter (\<lambda>f. isStyleSelected f \<and> \<not> excluded_by ms f) files, length (filter isStyleSelected files),
      map (\<lambda>m. length (filter (\<lambda>f. isStyleSelected f \<and> m f) files)) ms)"
    by (simp add: selection_fold map_replicate_map2)
  show ?thesis
    unfolding styleSelection_def assms(2) res_bind_simps take loop Let_def
    by (auto simp: length_partition conj_commute filter_empty_conv)
qed

section \<open>Properties\<close>

text \<open>
  C12. Whatever the manifest holds, settings the gate accepts are within the ceilings, never below the
  built-in defaults (the lint timeout apart, which may be lowered to one second), declare at most 64
  distinct globs, and each declared glob compiles: the matchers the selection builds later exist on
  every platform, so an accepted declaration is never refused half way through a run.
\<close>

theorem repositorySettings_safe:
  assumes "repositorySettings U loadAll fs = Inr s"
  shows "settings_ok U s \<and> (\<exists>ms. matchers_of U windows s = Inr ms \<and> length ms = length (styleExclude s))"
proof -
  have "settings_ok U s"
    using assms default_settings_ok documentationSettings_ok
    by (auto simp: repositorySettings_def res_bind_Inr_iff split: option.splits)
  then show ?thesis by (simp add: settings_matchers)
qed

definition sample_manifest :: manifest_fs where
  "sample_manifest =
     \<lparr>mf_open = Inr \<lparr>op_file = True, op_size = 40, op_text = js ''documentation: {max_files: 8192}''\<rparr>,
      mf_lstat = Some LOther\<rparr>"

definition sample_load :: "jsstr \<Rightarrow> yaml list option" where
  "sample_load t = Some [YMap [(js ''documentation'', YMap [(js ''max_files'', YNumber (Some 8192))])]]"

definition sample_settings :: settings where
  "sample_settings = \<lparr>declared = True, maxFiles = 8192, maxFileBytes = 1048576, lintTimeoutSeconds = 120,
      styleExclude = []\<rparr>"

theorem repositorySettings_safe_witness:
  "repositorySettings ascii_unicode sample_load sample_manifest = Inr sample_settings \<and>
   settings_ok ascii_unicode sample_settings"
proof -
  have h: "repositorySettings ascii_unicode sample_load sample_manifest = Inr sample_settings"
    by (simp add: repositorySettings_def sample_manifest_def sample_load_def sample_settings_def
        readManifestText_def documentationBlock_def documentationSettings_def DOCUMENTATION_KEYS_def
        boundedSetting_def is_safe_integer_def styleExclusions_def gate_bounds MAX_MANIFEST_BYTES_def)
  from h repositorySettings_safe [OF h] show ?thesis by blast
qed

text \<open>
  C13. The style selection is the built-in selection minus the files a declared glob matches, in order;
  it reports how many files were excluded and how many each glob removed, and the declared globs can
  never empty a selection that was not empty: that is an error that carries the number of files.
\<close>

theorem styleSelection_correct:
  assumes "settings_ok U s" and "matchers_of U windows s = Inr ms"
    and "length files \<le> nat MAX_FILES_CEILING"
  shows "styleSelection U files s windows =
    (let chosen = filter isStyleSelected files; kept = filter (\<lambda>f. \<not> excluded_by ms f) chosen in
     if chosen \<noteq> [] \<and> kept = [] then Inl (NothingStyled (length chosen))
     else Inr \<lparr>styled = kept, sel_excluded = length (filter (excluded_by ms) chosen),
               counts = map (\<lambda>m. length (filter m chosen)) ms\<rparr>)"
  by (rule styleSelection_value [OF assms])

theorem styleSelection_correct_witness:
  "settings_ok ascii_unicode DEFAULT_SETTINGS \<and>
   styleSelection ascii_unicode [js ''docs/a.md'', js ''main.go'', js ''CLAUDE.md''] DEFAULT_SETTINGS False =
     Inr \<lparr>styled = [js ''docs/a.md''], sel_excluded = 0, counts = []\<rparr>"
proof -
  have m: "matchers_of ascii_unicode False DEFAULT_SETTINGS = Inr []"
    by (simp add: matchers_of_def DEFAULT_SETTINGS_def)
  have n: "length [js ''docs/a.md'', js ''main.go'', js ''CLAUDE.md''] \<le> nat MAX_FILES_CEILING"
    by (simp add: MAX_FILES_CEILING_def)
  have a: "isStyleSelected (js ''docs/a.md'')" "\<not> isStyleSelected (js ''main.go'')"
      "\<not> isStyleSelected (js ''CLAUDE.md'')"
    by (simp_all add: isStyleSelected_def MARKDOWN_SUFFIXES_def STYLE_EXCLUDED_FILES_def
        STYLE_EXCLUDED_PREFIXES_def js_ends_def lower_unit_def)
  show ?thesis
    using styleSelection_correct [OF default_settings_ok m n] default_settings_ok a
    by (simp add: excluded_by_def Let_def)
qed

end
