(* ===== verification/GateProcess.thy ===== *)
theory GateProcess
  imports JSPrelude Complex_Main
begin

text \<open>
  How the documentation gate (\<^verbatim>\<open>src/tools/markdownlint/verify.mjs\<close>) runs child processes and prints
  what they say: the time limit of a command under the gate deadline (\<open>commandLimit\<close>,
  \<open>withGateDeadline\<close>), the classification of a finished child (\<open>command\<close>), and the bounded
  output (\<open>boundedOutput\<close>, \<open>outputBudget\<close>, \<open>emitBounded\<close>). A clock reading
  (\<open>performance.now()\<close>) is a rational number of milliseconds; a deadline of \<open>None\<close> is
  \<open>Infinity\<close>.
\<close>

definition MAX_DIAGNOSTIC_OUTPUT_BYTES :: nat where "MAX_DIAGNOSTIC_OUTPUT_BYTES = 65536"
definition MAX_DIAGNOSTIC_OUTPUT_LINES :: nat where "MAX_DIAGNOSTIC_OUTPUT_LINES = 200"
definition MAX_FAILURE_DETAIL_BYTES :: nat where "MAX_FAILURE_DETAIL_BYTES = 4096"
definition MAX_FAILURE_DETAIL_LINES :: nat where "MAX_FAILURE_DETAIL_LINES = 20"
definition TRUNCATION_MARKER_BYTES :: nat where "TRUNCATION_MARKER_BYTES = 256"
definition DEFAULT_COMMAND_TIMEOUT_MS :: int where "DEFAULT_COMMAND_TIMEOUT_MS = 120000"
definition GATE_DEADLINE_SECONDS :: int where "GATE_DEADLINE_SECONDS = 480"

section \<open>Time limits\<close>

record limit =
  lim_ms :: int
  lim_deadline :: bool

definition commandLimit :: "rat option \<Rightarrow> rat \<Rightarrow> int \<Rightarrow> limit" where
  "commandLimit gateDeadline now own =
     (case gateDeadline of
        None \<Rightarrow> \<lparr>lim_ms = own, lim_deadline = False\<rparr>
      | Some d \<Rightarrow>
          (let left = \<lfloor>d - now\<rfloor> in
           if left < own then \<lparr>lim_ms = max left 1, lim_deadline = True\<rparr>
           else \<lparr>lim_ms = own, lim_deadline = False\<rparr>))"

text \<open>
  \<open>withGateDeadline\<close>: the run sees the deadline, and the \<open>finally\<close> clause lifts it whether the run
  returned or threw. The result pairs what the run gave with the deadline afterwards.
\<close>

definition withGateDeadline ::
  "rat \<Rightarrow> rat \<Rightarrow> (rat option \<Rightarrow> ('e, 'a) res) \<Rightarrow> ('e, 'a) res \<times> rat option" where
  "withGateDeadline now milliseconds run = (run (Some (now + milliseconds)), None)"

section \<open>Bounded output\<close>

record bounded =
  bo_output :: jsstr
  bo_bytes :: nat
  bo_lines :: nat
  bo_truncated :: bool

definition line_end :: "jsstr \<Rightarrow> nat \<Rightarrow> nat" where
  "line_end content cursor =
     (case js_index 10 content cursor of None \<Rightarrow> length content | Some newline \<Rightarrow> newline + 1)"

lemma line_end_gt: "cursor < length content \<Longrightarrow> cursor < line_end content cursor"
  by (auto simp: line_end_def dest: js_index_SomeD split: option.splits)

lemma line_end_le: "cursor \<le> length content \<Longrightarrow> line_end content cursor \<le> length content"
  by (auto simp: line_end_def dest: js_index_SomeD(2) split: option.splits)

function bounded_loop :: "jsstr \<Rightarrow> nat \<Rightarrow> nat \<Rightarrow> nat \<Rightarrow> nat \<Rightarrow> nat \<Rightarrow> jsstr \<Rightarrow> bounded" where
  "bounded_loop content maxBytes maxLines cursor bytes lines output =
     (let result = \<lparr>bo_output = output, bo_bytes = bytes, bo_lines = lines,
                    bo_truncated = (cursor < length content)\<rparr> in
      if cursor < length content \<and> lines < maxLines \<and> bytes < maxBytes then
        (let next = line_end content cursor;
             part = js_slice content cursor next;
             partBytes = byte_length part
         in if bytes + partBytes > maxBytes then result
            else bounded_loop content maxBytes maxLines next (bytes + partBytes) (lines + 1) (output @ part))
      else result)"
  by pat_completeness auto
termination
  by (relation "measure (\<lambda>(content, maxBytes, maxLines, cursor, bytes, lines, output). length content - cursor)")
     (auto intro!: diff_less_mono2 line_end_gt)

declare bounded_loop.simps [simp del]

definition boundedOutput :: "jsstr \<Rightarrow> nat \<Rightarrow> nat \<Rightarrow> bounded" where
  "boundedOutput content maxBytes maxLines = bounded_loop content maxBytes maxLines 0 0 0 []"

record budget =
  bu_bytes :: nat
  bu_lines :: nat
  bu_truncated :: bool

definition outputBudget :: budget where
  "outputBudget =
     \<lparr>bu_bytes = MAX_DIAGNOSTIC_OUTPUT_BYTES - TRUNCATION_MARKER_BYTES,
      bu_lines = MAX_DIAGNOSTIC_OUTPUT_LINES - 1, bu_truncated = False\<rparr>"

text \<open>The two labels the gate prints under.\<close>

datatype label = PrivateLink | Markdownlint

fun label_text :: "label \<Rightarrow> jsstr" where
  "label_text PrivateLink = js ''private-link''"
| "label_text Markdownlint = js ''markdownlint''"

definition marker :: "label \<Rightarrow> jsstr" where
  "marker lab =
     js ''markdown-governance: '' @ label_text lab @ js '' diagnostics truncated at 200 lines/65536 bytes'' @ [10]"

text \<open>
  \<open>emitBounded\<close>: the chunks written to the stream, the new budget and the returned flag.
\<close>

definition emitBounded :: "jsstr \<Rightarrow> budget \<Rightarrow> label \<Rightarrow> jsstr list \<times> budget \<times> bool" where
  "emitBounded content b lab =
     (if content = [] \<or> bu_truncated b then ([], b, bu_truncated b)
      else
        (let selected = boundedOutput content (bu_bytes b) (bu_lines b);
             b' = b\<lparr>bu_bytes := bu_bytes b - bo_bytes selected, bu_lines := bu_lines b - bo_lines selected\<rparr>
         in if bo_truncated selected
            then ([bo_output selected, marker lab], b'\<lparr>bu_truncated := True\<rparr>, True)
            else ([bo_output selected], b', False)))"

text \<open>A run of calls that share one budget, as \<open>runMarkdownlint\<close> and \<open>runScratchRule\<close> make them.\<close>

fun emit_all :: "(jsstr \<times> label) list \<Rightarrow> budget \<Rightarrow> jsstr list \<times> budget" where
  "emit_all [] b = ([], b)"
| "emit_all ((content, lab) # rest) b =
     (let (chunks, b', _) = emitBounded content b lab; (more, b'') = emit_all rest b'
      in (chunks @ more, b''))"

section \<open>Child processes\<close>

datatype spawn_error = ETIMEDOUT | OtherSpawnError

record spawned =
  sp_error :: "spawn_error option"
  sp_signal :: "jsstr option"
  sp_status :: "int option"
  sp_stdout :: jsstr
  sp_stderr :: jsstr

datatype command_error =
    CommandTimeout limit
  | CommandNotStarted
  | CommandSignalled jsstr
  | CommandExited "int option" jsstr

definition failure_detail :: "spawned \<Rightarrow> jsstr" where
  "failure_detail result =
     (let rawOutput = (if sp_stderr result \<noteq> [] then sp_stderr result else sp_stdout result) in
      js_trim (bo_output (boundedOutput (js_trim rawOutput) MAX_FAILURE_DETAIL_BYTES MAX_FAILURE_DETAIL_LINES)))"

text \<open>
  \<open>command\<close> after \<open>spawnSync\<close>: \<open>spawn ms\<close> is what the child gave under a time limit of
  \<open>ms\<close> milliseconds.
\<close>

definition command ::
  "rat option \<Rightarrow> rat \<Rightarrow> int option \<Rightarrow> bool \<Rightarrow> (int \<Rightarrow> spawned) \<Rightarrow> (command_error, spawned) res" where
  "command gateDeadline now timeout allowFailure spawn =
     (let lim = commandLimit gateDeadline now
            (case timeout of None \<Rightarrow> DEFAULT_COMMAND_TIMEOUT_MS | Some t \<Rightarrow> t);
          result = spawn (lim_ms lim)
      in case sp_error result of
           Some ETIMEDOUT \<Rightarrow> Inl (CommandTimeout lim)
         | Some OtherSpawnError \<Rightarrow> Inl CommandNotStarted
         | None \<Rightarrow>
             (case sp_signal result of
                Some sig \<Rightarrow> Inl (CommandSignalled sig)
              | None \<Rightarrow>
                  if sp_status result \<noteq> Some 0 \<and> \<not> allowFailure
                  then Inl (CommandExited (sp_status result) (failure_detail result))
                  else Inr result))"

section \<open>Lemmas\<close>

lemma code_points_newline: "code_points (a @ 10 # b) = code_points (a @ [10]) @ code_points b"
proof (induction a rule: code_points.induct)
  case 1
  then show ?case by (cases b) (simp_all add: high_surrogate_def)
next
  case (2 c)
  then show ?case by (cases b) (simp_all add: high_surrogate_def low_surrogate_def)
next
  case (3 c d s)
  then show ?case by auto
qed

lemma byte_length_newline: "byte_length (a @ 10 # b) = byte_length (a @ [10]) + byte_length b"
  using code_points_newline [of a b] by (simp only: byte_length_def map_append sum_list_append)

lemma byte_length_Nil [simp]: "byte_length [] = 0"
  by (simp add: byte_length_def)

text \<open>A cursor of the output loop stands at the start or just after a line feed.\<close>

definition at_line :: "jsstr \<Rightarrow> nat \<Rightarrow> bool" where
  "at_line content cursor \<longleftrightarrow> cursor = 0 \<or> cursor = length content \<or> (0 < cursor \<and> content ! (cursor - 1) = 10)"

lemma byte_length_take_slice:
  assumes "at_line content cursor" and "cursor \<le> next" and "next \<le> length content"
  shows "byte_length (take next content) = byte_length (take cursor content) + byte_length (js_slice content cursor next)"
proof -
  have split: "take next content = take cursor content @ js_slice content cursor next"
    using assms(2) by (simp add: js_slice_def) (metis le_add_diff_inverse take_add)
  consider "cursor = 0" | "cursor = length content" | "0 < cursor" "cursor < length content" "content ! (cursor - 1) = 10"
    using assms unfolding at_line_def by linarith
  then show ?thesis
  proof cases
    case 3
    then have "take cursor content = take (cursor - 1) content @ [10]"
      by (metis Suc_diff_1 less_imp_diff_less take_Suc_conv_app_nth)
    then show ?thesis
      unfolding split
      using byte_length_newline [of "take (cursor - 1) content" "js_slice content cursor next"]
      by (simp only: append_assoc append_Cons append_Nil)
  qed (use split assms in \<open>simp_all add: js_slice_def\<close>)
qed

lemma line_end_at_line: "cursor < length content \<Longrightarrow> at_line content (line_end content cursor)"
  by (auto simp: line_end_def at_line_def dest: js_index_SomeD(3) split: option.splits)

definition newlines :: "jsstr \<Rightarrow> nat" where
  "newlines s = length (filter (\<lambda>c. c = 10) s)"

lemma newlines_append [simp]: "newlines (a @ b) = newlines a + newlines b"
  by (simp add: newlines_def)

lemma newlines_slice: "cursor < length content \<Longrightarrow> newlines (js_slice content cursor (line_end content cursor)) \<le> 1"
proof -
  assume c: "cursor < length content"
  show ?thesis
  proof (cases "js_index 10 content cursor")
    case None
    then have "10 \<notin> set (drop cursor content)" by (simp add: js_index_None_iff)
    then have "filter (\<lambda>c. c = 10) (js_slice content cursor (line_end content cursor)) = []"
      by (auto simp: filter_empty_conv js_slice_def dest: in_set_takeD)
    then show ?thesis by (simp add: newlines_def)
  next
    case (Some k)
    note k = js_index_SomeD [OF Some]
    have "js_slice content cursor (Suc k) = js_slice content cursor k @ js_slice content k (Suc k)"
      using k(1) by (simp add: js_slice_append)
    moreover have "length (js_slice content k (Suc k)) \<le> 1" by (simp add: length_js_slice)
    moreover have "newlines (js_slice content cursor k) = 0"
      using k(4) by (auto simp: newlines_def filter_empty_conv)
    moreover have "newlines (js_slice content k (Suc k)) \<le> length (js_slice content k (Suc k))"
      unfolding newlines_def by (rule length_filter_le)
    moreover have "line_end content cursor = Suc k" by (simp add: line_end_def Some)
    ultimately show ?thesis by simp
  qed
qed

text \<open>The lines of a text, each with its line feed; the last one may have none.\<close>

fun text_lines :: "jsstr \<Rightarrow> jsstr list" where
  "text_lines [] = []"
| "text_lines (c # s) =
     (if c = 10 then [10] # text_lines s else (case text_lines s of [] \<Rightarrow> [[c]] | l # ls \<Rightarrow> (c # l) # ls))"

lemma text_lines_feed: "10 \<notin> set a \<Longrightarrow> text_lines (a @ 10 # s) = (a @ [10]) # text_lines s"
  by (induction a) auto

lemma text_lines_last: "10 \<notin> set a \<Longrightarrow> a \<noteq> [] \<Longrightarrow> text_lines a = [a]"
proof (induction a)
  case (Cons c a)
  then show ?case by (cases a) auto
qed simp

lemma concat_text_lines [simp]: "concat (text_lines s) = s"
  by (induction s) (auto split: list.splits)

lemma text_lines_cursor:
  assumes "cursor < length content"
  shows "text_lines (drop cursor content) =
    js_slice content cursor (line_end content cursor) # text_lines (drop (line_end content cursor) content)"
proof (cases "js_index 10 content cursor")
  case None
  then have "10 \<notin> set (drop cursor content)" by (simp add: js_index_None_iff)
  with None assms show ?thesis by (simp add: line_end_def js_slice_def text_lines_last)
next
  case (Some k)
  note k = js_index_SomeD [OF Some]
  have "drop cursor content = js_slice content cursor k @ drop k content"
    using k(1) by (simp add: js_slice_def) (metis append_take_drop_id drop_drop le_add_diff_inverse2)
  also have "drop k content = 10 # drop (Suc k) content" using k(2,3) by (simp add: Cons_nth_drop_Suc [symmetric])
  finally have split: "drop cursor content = js_slice content cursor k @ 10 # drop (Suc k) content" .
  have "js_slice content cursor (Suc k) = js_slice content cursor k @ [10]"
    using k(1-3) by (simp add: js_slice_def Suc_diff_le take_Suc_conv_app_nth)
  then show ?thesis using k(4) Some unfolding split by (simp add: line_end_def text_lines_feed)
qed

text \<open>
  What the output loop selects: the first \<open>k\<close> lines, where \<open>k\<close> is as large as the bounds allow.
\<close>

definition selects_lines :: "jsstr list \<Rightarrow> nat \<Rightarrow> nat \<Rightarrow> nat \<Rightarrow> bool" where
  "selects_lines ls maxBytes maxLines k \<longleftrightarrow>
     k \<le> length ls \<and> k \<le> maxLines \<and> byte_length (concat (take k ls)) \<le> maxBytes \<and>
     (k = length ls \<or> k = maxLines \<or> maxBytes < byte_length (concat (take (Suc k) ls)))"

definition bounded_ok :: "jsstr \<Rightarrow> nat \<Rightarrow> nat \<Rightarrow> bounded \<Rightarrow> bool" where
  "bounded_ok content maxBytes maxLines r \<longleftrightarrow>
     selects_lines (text_lines content) maxBytes maxLines (bo_lines r) \<and>
     bo_output r = concat (take (bo_lines r) (text_lines content)) \<and> bo_bytes r = byte_length (bo_output r) \<and>
     newlines (bo_output r) \<le> bo_lines r \<and> (bo_truncated r \<longleftrightarrow> bo_lines r < length (text_lines content))"

lemma byte_length_pos: "s \<noteq> [] \<Longrightarrow> 0 < byte_length s"
  using length_le_byte_length [of s] by (cases s) auto

lemma bounded_loop_ok:
  assumes "text_lines content = seen @ text_lines (drop cursor content)" and "length seen = lines"
    and "concat seen = out" and "out = take cursor content" and "cursor \<le> length content" and "at_line content cursor"
    and "bytes = byte_length out" and "bytes \<le> maxBytes" and "lines \<le> maxLines"
    and "newlines out \<le> lines"
  shows "bounded_ok content maxBytes maxLines (bounded_loop content maxBytes maxLines cursor bytes lines out)"
  using assms
proof (induction content maxBytes maxLines cursor bytes lines out arbitrary: seen rule: bounded_loop.induct)
  case (1 content maxBytes maxLines cursor bytes lines out)
  let ?next = "line_end content cursor"
  let ?part = "js_slice content cursor ?next"
  have chosen: "take lines (text_lines content) = seen" using "1.prems"(1,2) by simp
  have advance: "out @ ?part = take ?next content \<and> byte_length (out @ ?part) = bytes + byte_length ?part \<and>
      text_lines content = (seen @ [?part]) @ text_lines (drop ?next content) \<and> cursor < ?next \<and> ?next \<le> length content"
    if c: "cursor < length content"
  proof -
    have le: "cursor < ?next" "?next \<le> length content"
      using line_end_gt [OF c] line_end_le [of cursor content] c by auto
    then have "out @ ?part = take ?next content"
      using "1.prems"(4) by (simp add: js_slice_def) (metis le_add_diff_inverse less_imp_le take_add)
    moreover have "byte_length (take ?next content) = byte_length (take cursor content) + byte_length ?part"
      by (rule byte_length_take_slice [OF "1.prems"(6) less_imp_le [OF le(1)] le(2)])
    ultimately show ?thesis using "1.prems"(1,4,7) text_lines_cursor [OF c] le by simp
  qed
  show ?case
  proof (cases "cursor < length content \<and> lines < maxLines \<and> bytes < maxBytes \<and>
      bytes + byte_length ?part \<le> maxBytes")
    case False
    have "lines = length (text_lines content) \<or> lines = maxLines \<or>
        maxBytes < byte_length (concat (take (Suc lines) (text_lines content)))"
    proof (cases "cursor < length content")
      case True
      note adv = advance [OF True]
      have "?part \<noteq> []" using adv by (auto simp: js_slice_def)
      then have "0 < byte_length ?part" by (rule byte_length_pos)
      moreover have "concat (take (Suc lines) (text_lines content)) = out @ ?part"
      proof -
        have "text_lines content = (seen @ [?part]) @ text_lines (drop ?next content)" using adv by blast
        then have "take (Suc lines) (text_lines content) = seen @ [?part]" using "1.prems"(2) by simp
        then show ?thesis using "1.prems"(3) by simp
      qed
      ultimately show ?thesis using adv True False "1.prems"(8,9) by auto
    qed (use "1.prems"(1,2) in simp)
    moreover have "cursor < length content \<longleftrightarrow> lines < length (text_lines content)"
    proof (cases "cursor < length content")
      case True
      from text_lines_cursor [OF True] have "0 < length (text_lines (drop cursor content))" by simp
      moreover have "length (text_lines content) = lines + length (text_lines (drop cursor content))"
        using "1.prems"(1,2) by (metis length_append)
      ultimately show ?thesis using True by simp
    qed (use "1.prems"(1,2) in simp)
    moreover have "lines \<le> length (text_lines content)" using "1.prems"(1,2) by simp
    ultimately have "bounded_ok content maxBytes maxLines
        \<lparr>bo_output = out, bo_bytes = bytes, bo_lines = lines, bo_truncated = (cursor < length content)\<rparr>"
      using "1.prems"(3,7-10) by (simp add: bounded_ok_def selects_lines_def chosen)
    with False show ?thesis by (subst bounded_loop.simps) (auto simp: Let_def)
  next
    case True
    then have c: "cursor < length content" by simp
    note adv = advance [OF c]
    have "bounded_ok content maxBytes maxLines (bounded_loop content maxBytes maxLines ?next
        (bytes + byte_length ?part) (lines + 1) (out @ ?part))"
    proof (rule "1.IH" [OF refl _ refl refl refl])
      show "newlines (out @ ?part) \<le> lines + 1"
        using newlines_slice [OF c] "1.prems"(10) by simp
      show "text_lines content = (seen @ [?part]) @ text_lines (drop ?next content)" using adv by blast
      show "bytes + byte_length ?part = byte_length (out @ ?part)" using adv by metis
      show "out @ ?part = take ?next content" using adv by blast
    qed (use True adv "1.prems"(2,3) line_end_at_line [OF c] in auto)
    with True show ?thesis by (subst bounded_loop.simps) (auto simp: Let_def)
  qed
qed

lemma boundedOutput_ok: "bounded_ok content maxBytes maxLines (boundedOutput content maxBytes maxLines)"
  unfolding boundedOutput_def by (rule bounded_loop_ok [where seen = "[]"]) (simp_all add: at_line_def newlines_def)

lemma marker_size: "byte_length (marker lab) \<le> TRUNCATION_MARKER_BYTES" "newlines (marker lab) = 1"
proof -
  have "\<forall>c \<in> set (marker lab). c < 0x80" by (cases lab) (simp_all add: marker_def)
  then have "byte_length (marker lab) = length (marker lab)" by (rule byte_length_ascii)
  then show "byte_length (marker lab) \<le> TRUNCATION_MARKER_BYTES"
    by (cases lab) (simp_all add: marker_def TRUNCATION_MARKER_BYTES_def)
  show "newlines (marker lab) = 1" by (cases lab) (simp_all add: marker_def newlines_def)
qed

definition chunk_bytes :: "jsstr list \<Rightarrow> nat" where
  "chunk_bytes cs = sum_list (map byte_length cs)"

definition chunk_lines :: "jsstr list \<Rightarrow> nat" where
  "chunk_lines cs = sum_list (map newlines cs)"

text \<open>What a budget still allows: the marker is owed only while nothing was truncated.\<close>

definition owed :: "budget \<Rightarrow> nat \<Rightarrow> nat" where
  "owed b n = (if bu_truncated b then 0 else n)"

lemma emitBounded_spends:
  assumes "emitBounded content b lab = (chunks, b', flag)"
  shows "chunk_bytes chunks + bu_bytes b' + owed b' TRUNCATION_MARKER_BYTES \<le>
      bu_bytes b + owed b TRUNCATION_MARKER_BYTES"
    and "chunk_lines chunks + bu_lines b' + owed b' 1 \<le> bu_lines b + owed b 1"
    and "flag = bu_truncated b'"
  using assms boundedOutput_ok [of content "bu_bytes b" "bu_lines b"] marker_size [of lab]
  by (auto simp: emitBounded_def Let_def bounded_ok_def selects_lines_def owed_def chunk_bytes_def chunk_lines_def
      split: if_splits)

lemma emit_all_spends:
  "emit_all calls b = (chunks, b') \<Longrightarrow>
     chunk_bytes chunks + owed b' TRUNCATION_MARKER_BYTES \<le> bu_bytes b + owed b TRUNCATION_MARKER_BYTES \<and>
     chunk_lines chunks + owed b' 1 \<le> bu_lines b + owed b 1"
proof (induction calls arbitrary: b chunks)
  case Nil
  then show ?case by (simp add: chunk_bytes_def chunk_lines_def)
next
  case (Cons call calls)
  obtain content lab where call: "call = (content, lab)" by (cases call)
  obtain first b1 flag where e: "emitBounded content b lab = (first, b1, flag)" by (metis prod_cases3)
  obtain more where m: "emit_all calls b1 = (more, b')" and chunks: "chunks = first @ more"
    using Cons.prems call e by (auto simp: Let_def split: prod.splits)
  from Cons.IH [OF m] emitBounded_spends(1,2) [OF e] show ?case
    unfolding chunks by (simp add: chunk_bytes_def chunk_lines_def)
qed

section \<open>Properties\<close>

text \<open>
  C10. \<open>boundedOutput\<close> keeps whole lines, and as many of them as fit: its output is the first \<open>k\<close> lines of the text,
  line feeds included, where \<open>k\<close> lies within the line bound and the lines within the byte bound, and \<open>k\<close> is all
  lines, or the line bound, or one more line would exceed the byte bound. It reports \<open>k\<close> and the exact size in UTF-8
  bytes, and reports truncation exactly when a line was dropped.
\<close>

theorem boundedOutput_correct:
  "let r = boundedOutput content maxBytes maxLines; ls = text_lines content; k = bo_lines r in
     concat ls = content \<and> bo_output r = concat (take k ls) \<and> k \<le> length ls \<and> k \<le> maxLines \<and>
     bo_bytes r = byte_length (bo_output r) \<and> bo_bytes r \<le> maxBytes \<and>
     (k = length ls \<or> k = maxLines \<or> maxBytes < byte_length (concat (take (Suc k) ls))) \<and>
     (bo_truncated r \<longleftrightarrow> k < length ls)"
  using boundedOutput_ok [of content maxBytes maxLines] by (auto simp: bounded_ok_def selects_lines_def Let_def)

text \<open>
  C11. Whatever the children print, the calls of \<open>emitBounded\<close> that share one budget write at most
  \<open>MAX_DIAGNOSTIC_OUTPUT_BYTES\<close> bytes and \<open>MAX_DIAGNOSTIC_OUTPUT_LINES\<close> lines in all, truncation marker
  included.
\<close>

theorem emit_all_bounded:
  "chunk_bytes (fst (emit_all calls outputBudget)) \<le> MAX_DIAGNOSTIC_OUTPUT_BYTES \<and>
   chunk_lines (fst (emit_all calls outputBudget)) \<le> MAX_DIAGNOSTIC_OUTPUT_LINES"
proof -
  obtain chunks b' where e: "emit_all calls outputBudget = (chunks, b')" by (cases "emit_all calls outputBudget")
  from emit_all_spends [OF e] show ?thesis
    unfolding e by (auto simp: outputBudget_def owed_def MAX_DIAGNOSTIC_OUTPUT_BYTES_def
        MAX_DIAGNOSTIC_OUTPUT_LINES_def TRUNCATION_MARKER_BYTES_def)
qed

text \<open>
  A command never gets more than its own limit nor, while the deadline is still at least a
  millisecond away, more than the time left before it; it always gets at least one millisecond; and
  a limit that is not flagged as the deadline's ends before the deadline.
\<close>

lemma commandLimit_bounds:
  assumes "1 \<le> own"
  shows "let lim = commandLimit (Some d) now own in
    1 \<le> lim_ms lim \<and> lim_ms lim \<le> own \<and>
    (now + 1 \<le> d \<longrightarrow> now + of_int (lim_ms lim) \<le> d) \<and>
    (lim_deadline lim \<longleftrightarrow> d - now < of_int own) \<and>
    (\<not> lim_deadline lim \<longrightarrow> lim_ms lim = own \<and> now + of_int own \<le> d)"
proof -
  have fl: "of_int \<lfloor>d - now\<rfloor> \<le> d - now" by (rule of_int_floor_le)
  have lt: "\<lfloor>d - now\<rfloor> < own \<longleftrightarrow> d - now < of_int own" by (rule floor_less_iff)
  show ?thesis
  proof (cases "\<lfloor>d - now\<rfloor> < own")
    case True
    have one: "now + 1 \<le> d \<longleftrightarrow> 1 \<le> \<lfloor>d - now\<rfloor>" by (simp add: le_floor_iff algebra_simps)
    have lim: "commandLimit (Some d) now own = \<lparr>lim_ms = max \<lfloor>d - now\<rfloor> 1, lim_deadline = True\<rparr>"
      unfolding commandLimit_def Let_def option.case by (simp only: True if_True)
    have "now + of_int (max \<lfloor>d - now\<rfloor> 1) \<le> d" if "now + 1 \<le> d"
      using fl one that by linarith
    moreover have "max \<lfloor>d - now\<rfloor> 1 \<le> own" using True assms by linarith
    moreover have "d - now < of_int own" using True lt by blast
    ultimately show ?thesis unfolding lim Let_def limit.simps by simp
  next
    case False
    then have "of_int own \<le> d - now" using lt by simp
    with False lt assms show ?thesis by (auto simp: commandLimit_def Let_def)
  qed
qed

lemma commandLimit_sample:
  "(1::int) \<le> 120000 \<and> lim_ms (commandLimit (Some 480000) 470000 120000) \<le> 120000 \<and>
   1 \<le> lim_ms (commandLimit (Some 480000) 470000 120000)"
proof -
  have h: "(1::int) \<le> 120000" by simp
  show ?thesis using h commandLimit_bounds [OF h, of 480000 470000] by (simp add: Let_def)
qed

end
