(* ===== verification/GateInventory.thy ===== *)
theory GateInventory
  imports GateSettings GateProcess "HOL-Library.List_Lexorder"
begin

text \<open>
  The inventory of the documentation gate (\<^verbatim>\<open>src/tools/markdownlint/verify.mjs\<close>): the audit of
  the tracked symbolic links through \<open>git ls-files --stage\<close> and \<open>git cat-file --batch\<close>, and the
  bounded list of Markdown files. The world answers each child process with what \<open>spawnSync\<close> gave and
  each path with what the file system says of it. It also carries the platform, the answers of the
  locked install (js-yaml, the lock file and the package metadata of markdownlint) and the paths of
  the Node distribution.
\<close>

definition MAX_TOTAL_BYTES :: nat where "MAX_TOTAL_BYTES = 67108864"
definition MAX_TRACKED_ENTRIES :: nat where "MAX_TRACKED_ENTRIES = 65536"
definition MAX_TRACKED_SYMLINKS :: nat where "MAX_TRACKED_SYMLINKS = 2048"
definition MAX_SYMLINK_TARGET_BYTES :: nat where "MAX_SYMLINK_TARGET_BYTES = 4096"
definition SCRATCH_ROOTS :: "jsstr list" where "SCRATCH_ROOTS = [js ''.workingdir'', js ''.workingdir2'']"

text \<open>The child processes of one run. A run starts each of them at most once.\<close>

datatype call =
    NpmCi jsstr "jsstr list"
  | RevParse
  | LsStage
  | CatFile jsstr
  | LsMarkdown
  | DiffSince jsstr
  | ScratchRule "jsstr list"
  | LintBatch nat "jsstr list"

record stat_entry =
  st_symlink :: bool
  st_file :: bool
  st_size :: nat

record world =
  w_now :: "call \<Rightarrow> rat"
  w_spawn :: "call \<Rightarrow> int \<Rightarrow> spawned"
  w_lstat :: "jsstr \<Rightarrow> stat_entry option"
  w_realpath :: "jsstr \<Rightarrow> jsstr option"
  w_manifest :: manifest_fs
  w_cwd :: jsstr
  w_start :: rat
  w_windows :: bool
  w_unicode :: unicode
  w_exec :: jsstr
  w_npm_cli :: jsstr
  w_npm_cli_file :: bool
  w_copied :: "jsstr \<Rightarrow> bool"
  w_load_all :: "jsstr \<Rightarrow> yaml list option"
  w_lock :: "yaml option"
  w_package :: "yaml option"

datatype gate_error =
    SettingsFailed settings_error
  | BoundFailed bound_error
  | CommandFailed command_error
  | FileSystemFailed jsstr
  | EmptyRoot
  | TooManyTracked nat
  | MalformedEntry nat
  | UnsafeEntry nat
  | TooManySymlinks
  | MissingHeader nat
  | MalformedHeader nat
  | TargetTooLong nat
  | TruncatedTarget nat
  | TargetNotUtf8 nat
  | TrailingData
  | UnsafeTarget
  | NoTarget jsstr
  | TargetsScratch jsstr jsstr
  | UnsafePath nat
  | SymlinkSource jsstr
  | NonFileSource jsstr
  | EscapesRoot jsstr
  | TotalTooLarge nat
  | NpmCliMissing
  | CopyFailed jsstr
  | BadJson
  | LibraryMismatch
  | LibraryUnpinned
  | LintStopped jsstr
  | TooManyNamed nat
  | NotStyleSelected jsstr
  | InvalidRef
  | Usage
  | TooManyChanged nat

definition lift_error :: "('e \<Rightarrow> 'f) \<Rightarrow> ('e, 'a) res \<Rightarrow> ('f, 'a) res" where
  "lift_error f r = (case r of Inl e \<Rightarrow> Inl (f e) | Inr x \<Rightarrow> Inr x)"

lemma lift_error_Inr_iff [res_simps]: "lift_error f r = Inr x \<longleftrightarrow> r = Inr x"
  by (auto simp: lift_error_def split: sum.splits)

lemma lift_error_Inl_iff [res_simps]: "lift_error f r = Inl e \<longleftrightarrow> (\<exists>d. r = Inl d \<and> e = f d)"
  by (auto simp: lift_error_def split: sum.splits)

definition run_command :: "world \<Rightarrow> rat option \<Rightarrow> call \<Rightarrow> int option \<Rightarrow> bool \<Rightarrow> (gate_error, spawned) res" where
  "run_command w deadline c timeout allowFailure =
     lift_error CommandFailed (command deadline (w_now w c) timeout allowFailure (w_spawn w c))"

text \<open>\<open>stdout.split("\0").filter(Boolean)\<close>.\<close>

definition nul_records :: "jsstr \<Rightarrow> jsstr list" where
  "nul_records s = filter (\<lambda>r. r \<noteq> []) (js_split 0 s)"

definition repositoryRoot :: "world \<Rightarrow> rat option \<Rightarrow> (gate_error, jsstr) res" where
  "repositoryRoot w deadline =
     res_bind (run_command w deadline RevParse None False) (\<lambda>result.
       let root = js_trim (sp_stdout result) in
       throw_if (root = []) EmptyRoot
         (case w_realpath w root of None \<Rightarrow> Inl (FileSystemFailed root) | Some r \<Rightarrow> Inr r))"

section \<open>Tracked symbolic links\<close>

definition is_digit :: "nat \<Rightarrow> bool" where "is_digit c \<longleftrightarrow> 48 \<le> c \<and> c \<le> 57"
definition is_lower_hex :: "nat \<Rightarrow> bool" where "is_lower_hex c \<longleftrightarrow> is_digit c \<or> 97 \<le> c \<and> c \<le> 102"

definition is_oid :: "jsstr \<Rightarrow> bool" where
  "is_oid s \<longleftrightarrow> (length s = 40 \<or> length s = 64) \<and> (\<forall>c \<in> set s. is_lower_hex c)"

text \<open>The metadata expression: six digits, an object id and a stage, each separated by one space.\<close>

definition stage_metadata :: "jsstr \<Rightarrow> (jsstr \<times> jsstr) option" where
  "stage_metadata s =
     (let mode = take 6 s; rest = drop 7 s; oid = takeWhile is_lower_hex rest; tail = drop (length oid) rest in
      if length mode = 6 \<and> (\<forall>c \<in> set mode. is_digit c) \<and> js_at s 6 = Some 32 \<and> is_oid oid \<and>
         length tail = 2 \<and> tail ! 0 = 32 \<and> 48 \<le> tail ! 1 \<and> tail ! 1 \<le> 51
      then Some (mode, oid) else None)"

record tracked_link =
  tl_oid :: jsstr
  tl_relative :: jsstr

definition tracked_step :: "nat \<times> jsstr \<Rightarrow> tracked_link list \<Rightarrow> (gate_error, tracked_link list) res" where
  "tracked_step ir symlinks =
     (let (index, entry) = ir in
      case js_index 9 entry 0 of
        None \<Rightarrow> Inl (MalformedEntry index)
      | Some separator \<Rightarrow>
          (let relative = drop (separator + 1) entry in
           case stage_metadata (take separator entry) of
             None \<Rightarrow> Inl (UnsafeEntry index)
           | Some (mode, oid) \<Rightarrow>
               throw_if (relative = [] \<or> byte_length relative > MAX_PATH_BYTES \<or>
                   (\<exists>c \<in> set relative. c = 0 \<or> c = 9 \<or> c = 13 \<or> c = 10)) (UnsafeEntry index)
                 (if mode = js ''120000'' then
                    (let more = symlinks @ [\<lparr>tl_oid = oid, tl_relative = relative\<rparr>] in
                     throw_if (length more > MAX_TRACKED_SYMLINKS) TooManySymlinks (Inr more))
                  else Inr symlinks)))"

definition parseTrackedSymlinkRecords :: "jsstr list \<Rightarrow> (gate_error, tracked_link list) res" where
  "parseTrackedSymlinkRecords records =
     throw_if (length records > MAX_TRACKED_ENTRIES) (TooManyTracked (length records))
       (fold_res tracked_step (enumerate 0 (take MAX_TRACKED_ENTRIES records)) [])"

definition trackedSymlinkRecords :: "world \<Rightarrow> rat option \<Rightarrow> (gate_error, tracked_link list) res" where
  "trackedSymlinkRecords w deadline =
     res_bind (run_command w deadline LsStage None False) (\<lambda>result.
       parseTrackedSymlinkRecords (nul_records (sp_stdout result)))"

definition digits_value :: "jsstr \<Rightarrow> nat" where
  "digits_value s = foldl (\<lambda>n c. n * 10 + (c - 48)) 0 s"

text \<open>The header of one object: its id, \<open>blob\<close> and its size. \<open>toString("ascii")\<close> keeps seven bits.\<close>

definition cat_header :: "nat list \<Rightarrow> (jsstr \<times> nat) option" where
  "cat_header bytes =
     (let header = map (\<lambda>b. b mod 128) bytes; oid = takeWhile is_lower_hex header;
          rest = drop (length oid) header; digits = drop 6 rest in
      if is_oid oid \<and> js_starts rest (js '' blob '') \<and> digits \<noteq> [] \<and> (\<forall>c \<in> set digits. is_digit c)
      then Some (oid, digits_value digits) else None)"

definition cat_step ::
  "nat list \<Rightarrow> nat \<times> jsstr \<Rightarrow> nat \<times> (jsstr \<times> jsstr) list \<Rightarrow> (gate_error, nat \<times> (jsstr \<times> jsstr) list) res" where
  "cat_step stdout io st =
     (let (index, oid) = io; (cursor, targets) = st in
      case js_index 10 stdout cursor of
        None \<Rightarrow> Inl (MissingHeader index)
      | Some headerEnd \<Rightarrow>
          (case cat_header (js_slice stdout cursor headerEnd) of
             None \<Rightarrow> Inl (MalformedHeader index)
           | Some (found, sz) \<Rightarrow>
               throw_if (found \<noteq> oid) (MalformedHeader index)
               (throw_if (sz > 9007199254740991 \<or> sz > MAX_SYMLINK_TARGET_BYTES) (TargetTooLong index)
                 (let contentStart = headerEnd + 1; contentEnd = contentStart + sz in
                  throw_if (contentEnd \<ge> length stdout \<or> stdout ! contentEnd \<noteq> 10) (TruncatedTarget index)
                    (case utf8_decode (js_slice stdout contentStart contentEnd) of
                       None \<Rightarrow> Inl (TargetNotUtf8 index)
                     | Some target \<Rightarrow> Inr (contentEnd + 1, targets @ [(oid, target)]))))))"

definition parse_batch :: "nat list \<Rightarrow> jsstr list \<Rightarrow> (gate_error, (jsstr \<times> jsstr) list) res" where
  "parse_batch stdout objectIDs =
     res_bind (fold_res (cat_step stdout) (enumerate 0 (take MAX_TRACKED_SYMLINKS objectIDs)) (0, []))
       (\<lambda>(cursor, targets). throw_if (cursor \<noteq> length stdout) TrailingData (Inr targets))"

definition readSymlinkTargets ::
  "world \<Rightarrow> rat option \<Rightarrow> tracked_link list \<Rightarrow> (gate_error, (jsstr \<times> jsstr) list) res" where
  "readSymlinkTargets w deadline records =
     (let objectIDs = js_uniq (map tl_oid records) in
      if objectIDs = [] then Inr []
      else
        res_bind (run_command w deadline (CatFile (js_join [10] objectIDs @ [10])) None False)
          (\<lambda>result. parse_batch (sp_stdout result) objectIDs))"

definition privateScratchRoot :: "jsstr \<Rightarrow> (gate_error, jsstr option) res" where
  "privateScratchRoot target =
     throw_if (byte_length target > MAX_SYMLINK_TARGET_BYTES \<or> (\<exists>c \<in> set target. c = 0 \<or> c = 13 \<or> c = 10))
       UnsafeTarget
       (let normalized = path_normalize (replace_unit 92 [SLASH] target); parts = path_parts normalized in
        Inr (find (\<lambda>part. part \<in> set SCRATCH_ROOTS) (map js_lower parts)))"

definition audit_step :: "(jsstr \<times> jsstr) list \<Rightarrow> tracked_link \<Rightarrow> unit \<Rightarrow> (gate_error, unit) res" where
  "audit_step targets link _ =
     (case map_of targets (tl_oid link) of
        None \<Rightarrow> Inl (NoTarget (tl_relative link))
      | Some target \<Rightarrow>
          res_bind (privateScratchRoot target) (\<lambda>scratchRoot.
            case scratchRoot of
              Some r \<Rightarrow> Inl (TargetsScratch (tl_relative link) r)
            | None \<Rightarrow> Inr ()))"

definition auditTrackedSymlinkTargets :: "world \<Rightarrow> rat option \<Rightarrow> (gate_error, unit) res" where
  "auditTrackedSymlinkTargets w deadline =
     res_bind (trackedSymlinkRecords w deadline) (\<lambda>records.
       res_bind (readSymlinkTargets w deadline records) (\<lambda>targets.
         fold_res (audit_step targets) (take MAX_TRACKED_SYMLINKS records) ()))"

section \<open>The Markdown inventory\<close>

definition unsafe_path :: "jsstr \<Rightarrow> bool" where
  "unsafe_path relative \<longleftrightarrow>
     byte_length relative > MAX_PATH_BYTES \<or>
     (\<exists>c \<in> set relative. c = 0 \<or> c = 13 \<or> c = 10 \<or> c = 0x2028 \<or> c = 0x2029)"

definition inventory_step :: "world \<Rightarrow> jsstr \<Rightarrow> settings \<Rightarrow> nat \<times> jsstr \<Rightarrow> nat \<Rightarrow> (gate_error, nat) res" where
  "inventory_step w repo s ir totalBytes =
     (let (index, relative) = ir; full = path_join [repo, relative] in
      throw_if (unsafe_path relative) (UnsafePath index)
      (case w_lstat w full of
         None \<Rightarrow> Inl (FileSystemFailed full)
       | Some st \<Rightarrow>
           throw_if (st_symlink st) (SymlinkSource relative)
           (throw_if (\<not> st_file st) (NonFileSource relative)
           (case w_realpath w full of
              None \<Rightarrow> Inl (FileSystemFailed full)
            | Some realpath \<Rightarrow>
                throw_if (escapesDirectory (w_cwd w) repo realpath) (EscapesRoot relative)
                (res_bind (lift_error BoundFailed (checkFileSize relative (st_size st) s)) (\<lambda>_.
                   throw_if (totalBytes + st_size st > MAX_TOTAL_BYTES) (TotalTooLarge (totalBytes + st_size st))
                     (Inr (totalBytes + st_size st))))))))"

definition inventory :: "world \<Rightarrow> rat option \<Rightarrow> jsstr \<Rightarrow> settings \<Rightarrow> (gate_error, jsstr list) res" where
  "inventory w deadline repo s =
     res_bind (auditTrackedSymlinkTargets w deadline) (\<lambda>_.
     res_bind (run_command w deadline LsMarkdown None False) (\<lambda>result.
       let selected = sort (nul_records (sp_stdout result)) in
       res_bind (lift_error BoundFailed (checkFileCount (length selected) s)) (\<lambda>_.
       res_bind (fold_res (inventory_step w repo s) (enumerate 0 (take (nat (maxFiles s)) selected)) 0) (\<lambda>_.
         Inr selected))))"

section \<open>Lemmas\<close>

lemma digits_value_snoc: "digits_value (s @ [c]) = digits_value s * 10 + (c - 48)"
  by (simp add: digits_value_def)

lemma nat_digits_correct:
  "nat_digits n \<noteq> [] \<and> (\<forall>c \<in> set (nat_digits n). is_digit c) \<and> digits_value (nat_digits n) = n"
proof (induction n rule: nat_digits.induct)
  case (1 n)
  show ?case
  proof (cases "n < 10")
    case True
    then show ?thesis by (subst (1 2 3) nat_digits.simps) (simp add: is_digit_def digits_value_def)
  next
    case False
    then have "nat_digits n = nat_digits (n div 10) @ [48 + n mod 10]" by (subst nat_digits.simps) simp
    with 1 [OF False] show ?thesis by (simp add: digits_value_snoc is_digit_def)
  qed
qed

text \<open>What \<open>git cat-file --batch\<close> prints for one blob.\<close>

definition cat_entry :: "jsstr \<Rightarrow> nat list \<Rightarrow> nat list" where
  "cat_entry oid content = (oid @ js '' blob '' @ nat_digits (length content)) @ 10 # content @ [10]"

lemma is_digit_bounds: "is_digit c \<Longrightarrow> c < 128 \<and> c \<noteq> 10"
  by (auto simp: is_digit_def)

lemma cat_header_entry:
  assumes "is_oid oid"
  shows "cat_header (oid @ js '' blob '' @ nat_digits n) = Some (oid, n)"
    and "10 \<notin> set (oid @ js '' blob '' @ nat_digits n)"
proof -
  let ?h = "oid @ js '' blob '' @ nat_digits n"
  have hex: "\<forall>c \<in> set oid. is_lower_hex c" using assms by (simp add: is_oid_def)
  have dig: "\<forall>c \<in> set (nat_digits n). is_digit c" using nat_digits_correct by blast
  have small: "\<forall>c \<in> set ?h. c mod 128 = c"
    using hex dig by (auto simp: is_lower_hex_def is_digit_def)
  have mask: "map (\<lambda>b. b mod 128) ?h = ?h" by (rule map_idI) (use small in blast)
  have oid: "takeWhile is_lower_hex ?h = oid"
    using hex by (simp add: takeWhile_append2 is_lower_hex_def is_digit_def)
  show "cat_header ?h = Some (oid, n)"
    unfolding cat_header_def Let_def mask oid using assms dig nat_digits_correct [of n] by simp
  show "10 \<notin> set ?h" using hex dig by (auto simp: is_lower_hex_def is_digit_def)
qed

lemma take_length_append: "take (length xs) (xs @ ys) = xs"
  by simp

lemma slice_framed:
  "js_slice (b @ (h @ 10 # c @ [10]) @ r) (length h + length b + 1) (length h + length b + 1 + length c) = c"
  "(b @ (h @ 10 # c @ [10]) @ r) ! (length h + length b + 1 + length c) = 10"
  by (simp_all add: js_slice_def nth_append)

lemma cat_step_entry:
  assumes "is_oid oid" and "length content \<le> MAX_SYMLINK_TARGET_BYTES" and "utf8_decode content = Some target"
  shows "cat_step (before @ cat_entry oid content @ rest) (index, oid) (length before, targets) =
    Inr (length (before @ cat_entry oid content), targets @ [(oid, target)])"
proof -
  let ?h = "oid @ js '' blob '' @ nat_digits (length content)"
  let ?out = "before @ cat_entry oid content @ rest"
  note hdr = cat_header_entry [OF assms(1), of "length content"]
  have out: "drop (length before) ?out = ?h @ 10 # content @ 10 # rest" by (simp add: cat_entry_def)
  have nl: "js_index 10 ?out (length before) = Some (length ?h + length before)"
    unfolding js_index_def out find_unit_append [OF hdr(2)] by simp
  have head: "js_slice ?out (length before) (length ?h + length before) = ?h"
    unfolding js_slice_def out by (simp only: add_diff_cancel_right' take_length_append)
  have body: "js_slice ?out (length ?h + length before + 1) (length ?h + length before + 1 + length content) = content"
    unfolding cat_entry_def by (rule slice_framed(1))
  have stop: "?out ! (length ?h + length before + 1 + length content) = 10"
    unfolding cat_entry_def by (rule slice_framed(2))
  have size: "\<not> (length content > 9007199254740991 \<or> length content > MAX_SYMLINK_TARGET_BYTES)"
    using assms(2) by (simp add: MAX_SYMLINK_TARGET_BYTES_def)
  have len: "length ?h + length before + 1 + length content < length ?out"
      "length (before @ cat_entry oid content) = length ?h + length before + 1 + length content + 1"
    by (simp_all add: cat_entry_def)
  show ?thesis
    unfolding cat_step_def Let_def prod.case nl option.case head hdr(1) body stop assms(3) len(2)
    using size len(1) by simp
qed

lemma cat_run:
  assumes "list_all (\<lambda>(oid, content, target). is_oid oid \<and> length content \<le> MAX_SYMLINK_TARGET_BYTES \<and>
      utf8_decode content = Some target) blobs"
  shows "fold_res (cat_step (before @ concat (map (\<lambda>(oid, content, _). cat_entry oid content) blobs)))
      (enumerate n (map fst blobs)) (length before, targets) =
    Inr (length (before @ concat (map (\<lambda>(oid, content, _). cat_entry oid content) blobs)),
      targets @ map (\<lambda>(oid, _, target). (oid, target)) blobs)"
  using assms
proof (induction blobs arbitrary: before n targets)
  case Nil
  then show ?case by simp
next
  case (Cons blob blobs)
  obtain oid content target where b: "blob = (oid, content, target)" by (cases blob)
  from Cons.prems b have ok: "is_oid oid" "length content \<le> MAX_SYMLINK_TARGET_BYTES"
      "utf8_decode content = Some target"
    and rest: "list_all (\<lambda>(oid, content, target). is_oid oid \<and> length content \<le> MAX_SYMLINK_TARGET_BYTES \<and>
      utf8_decode content = Some target) blobs"
    by auto
  show ?case
    using cat_step_entry [OF ok] Cons.IH [OF rest, of "before @ cat_entry oid content"]
    by (simp add: b)
qed

lemma unit_fold_each: "fold_res (f :: 'x \<Rightarrow> unit \<Rightarrow> ('e, unit) res) xs () = Inr () \<longleftrightarrow> (\<forall>x \<in> set xs. f x () = Inr ())"
  by (induction xs) (auto simp: res_bind_Inr_iff)

text \<open>The symbolic links the parser lists, as a filter of the records.\<close>

definition link_of :: "jsstr \<Rightarrow> tracked_link option" where
  "link_of entry =
     (case js_index 9 entry 0 of
        None \<Rightarrow> None
      | Some k \<Rightarrow>
          (case stage_metadata (take k entry) of
             None \<Rightarrow> None
           | Some (mode, oid) \<Rightarrow>
               if mode = js ''120000'' then Some \<lparr>tl_oid = oid, tl_relative = drop (k + 1) entry\<rparr> else None))"

lemma tracked_step_link:
  assumes "tracked_step (i, entry) acc = Inr acc'" and "length acc \<le> MAX_TRACKED_SYMLINKS"
  shows "acc' = acc @ (case link_of entry of None \<Rightarrow> [] | Some l \<Rightarrow> [l])"
    and "length acc' \<le> MAX_TRACKED_SYMLINKS"
  using assms
  by (auto simp: tracked_step_def link_of_def Let_def throw_if_Inr_iff not_less split: option.splits if_splits)

lemma tracked_run:
  "fold_res tracked_step (enumerate n records) acc = Inr links \<Longrightarrow> length acc \<le> MAX_TRACKED_SYMLINKS \<Longrightarrow>
     links = acc @ List.map_filter link_of records \<and> length links \<le> MAX_TRACKED_SYMLINKS"
proof (induction records arbitrary: n acc)
  case (Cons r records)
  then obtain u where u: "tracked_step (n, r) acc = Inr u"
      "fold_res tracked_step (enumerate (Suc n) records) u = Inr links"
    by (auto simp: res_bind_Inr_iff)
  note st = tracked_step_link [OF u(1) Cons.prems(2)]
  from Cons.IH [OF u(2) st(2)] st(1) show ?case
    by (auto simp: List.map_filter_simps split: option.splits)
qed (simp add: List.map_filter_simps)

lemma parseTrackedSymlinkRecords_links:
  assumes "parseTrackedSymlinkRecords records = Inr links"
  shows "links = List.map_filter link_of records" "length links \<le> MAX_TRACKED_SYMLINKS"
proof -
  from assms have "fold_res tracked_step (enumerate 0 records) [] = Inr links"
    by (auto simp: parseTrackedSymlinkRecords_def throw_if_Inr_iff)
  moreover have "length ([] :: tracked_link list) \<le> MAX_TRACKED_SYMLINKS" by simp
  ultimately have ok: "links = List.map_filter link_of records \<and> length links \<le> MAX_TRACKED_SYMLINKS"
    using tracked_run append_Nil by metis
  show "links = List.map_filter link_of records" using ok ..
  show "length links \<le> MAX_TRACKED_SYMLINKS" using ok ..
qed

definition scratch_free :: "jsstr \<Rightarrow> bool" where
  "scratch_free target \<longleftrightarrow>
     (\<forall>part \<in> set (path_parts (path_normalize (replace_unit 92 [SLASH] target))). js_lower part \<notin> set SCRATCH_ROOTS)"

lemma privateScratchRoot_None: "privateScratchRoot target = Inr None \<Longrightarrow> scratch_free target"
  by (auto simp: privateScratchRoot_def scratch_free_def throw_if_Inr_iff find_None_iff Let_def)

lemma audit_step_free:
  "audit_step targets link () = Inr () \<Longrightarrow>
     \<exists>target. map_of targets (tl_oid link) = Some target \<and> scratch_free target"
  by (auto simp: audit_step_def res_bind_Inr_iff split: option.splits dest: privateScratchRoot_None)

text \<open>What one accepted file satisfies.\<close>

definition accepted_file :: "world \<Rightarrow> jsstr \<Rightarrow> settings \<Rightarrow> jsstr \<Rightarrow> bool" where
  "accepted_file w repo s relative \<longleftrightarrow>
     \<not> unsafe_path relative \<and>
     (\<exists>st realpath. w_lstat w (path_join [repo, relative]) = Some st \<and> \<not> st_symlink st \<and> st_file st \<and>
        int (st_size st) \<le> maxFileBytes s \<and>
        w_realpath w (path_join [repo, relative]) = Some realpath \<and>
        prefix (path_parts (path_resolve (w_cwd w) [repo])) (path_parts (path_resolve (w_cwd w) [realpath])))"

definition file_bytes :: "world \<Rightarrow> jsstr \<Rightarrow> jsstr \<Rightarrow> nat" where
  "file_bytes w repo relative =
     (case w_lstat w (path_join [repo, relative]) of None \<Rightarrow> 0 | Some st \<Rightarrow> st_size st)"

lemma inventory_step_accepts:
  assumes "inventory_step w repo s (i, relative) acc = Inr acc'"
  shows "accepted_file w repo s relative" "acc' = acc + file_bytes w repo relative"
    "acc' \<le> MAX_TOTAL_BYTES"
  using assms
  by (auto simp: inventory_step_def accepted_file_def file_bytes_def Let_def res_simps checkFileSize_def
      escapesDirectory_iff not_less not_le split: option.splits if_splits)

lemma inventory_run:
  "fold_res (inventory_step w repo s) (enumerate n files) acc = Inr acc' \<Longrightarrow> acc \<le> MAX_TOTAL_BYTES \<Longrightarrow>
     (\<forall>f \<in> set files. accepted_file w repo s f) \<and>
     acc' = acc + sum_list (map (file_bytes w repo) files) \<and> acc' \<le> MAX_TOTAL_BYTES"
proof (induction files arbitrary: n acc)
  case (Cons f files)
  then obtain u where u: "inventory_step w repo s (n, f) acc = Inr u"
      "fold_res (inventory_step w repo s) (enumerate (Suc n) files) u = Inr acc'"
    by (auto simp: res_bind_Inr_iff)
  note st = inventory_step_accepts [OF u(1)]
  from Cons.IH [OF u(2) st(3)] st show ?case by simp
qed simp

text \<open>A small repository for the witnesses: one symbolic link and one Markdown file.\<close>

definition sample_oid :: jsstr where "sample_oid = js ''aaaaaaaaaaaaaaaaaaaaaaaaaaaaaaaaaaaaaaaa''"

definition sample_link :: jsstr where "sample_link = js ''120000 '' @ sample_oid @ js '' 0'' @ 9 # js ''l''"

definition exit_zero :: "jsstr \<Rightarrow> spawned" where
  "exit_zero out = \<lparr>sp_error = None, sp_signal = None, sp_status = Some 0, sp_stdout = out, sp_stderr = []\<rparr>"

definition sample_world :: world where
  "sample_world =
     \<lparr>w_now = (\<lambda>_. 0),
      w_spawn = (\<lambda>c ms. exit_zero
        (case c of RevParse \<Rightarrow> js ''/r'' | LsStage \<Rightarrow> sample_link @ [0] | CatFile _ \<Rightarrow> cat_entry sample_oid (js ''a.md'')
         | LsMarkdown \<Rightarrow> js ''a.md'' @ [0] | _ \<Rightarrow> [])),
      w_lstat = (\<lambda>p. if p = js ''/r/a.md'' then Some \<lparr>st_symlink = False, st_file = True, st_size = 9\<rparr> else None),
      w_realpath = Some,
      w_manifest = \<lparr>mf_open = Inl ENOENT, mf_lstat = None\<rparr>,
      w_cwd = js ''/r'', w_start = 0, w_windows = False, w_unicode = ascii_unicode, w_exec = js ''node'',
      w_npm_cli = [], w_npm_cli_file = False, w_copied = (\<lambda>_. True), w_load_all = (\<lambda>_. None),
      w_lock = Some (YMap [(js ''packages'', YMap [(js ''node_modules/markdownlint'',
        YMap [(js ''version'', YString (js ''1.2.3''))])])]),
      w_package = Some (YMap [(js ''version'', YString (js ''1.2.3'')),
        (js ''exports'', YMap [(js ''./sync'', YString (js ''./lib/exports-sync.mjs''))])])\<rparr>"

lemma sample_run: "run_command sample_world d c t a =
    Inr (exit_zero (case c of RevParse \<Rightarrow> js ''/r'' | LsStage \<Rightarrow> sample_link @ [0]
      | CatFile _ \<Rightarrow> cat_entry sample_oid (js ''a.md'') | LsMarkdown \<Rightarrow> js ''a.md'' @ [0] | _ \<Rightarrow> []))"
  by (simp add: run_command_def command_def sample_world_def exit_zero_def lift_error_def Let_def)

lemma sample_records: "nul_records (sample_link @ [0]) = [sample_link]"
  by (simp add: nul_records_def sample_link_def sample_oid_def)

lemma sample_parse: "parseTrackedSymlinkRecords [sample_link] = Inr [\<lparr>tl_oid = sample_oid, tl_relative = js ''l''\<rparr>]"
  by (simp add: parseTrackedSymlinkRecords_def tracked_step_def sample_link_def sample_oid_def js_index_def
      stage_metadata_def is_oid_def is_lower_hex_def is_digit_def MAX_TRACKED_ENTRIES_def MAX_TRACKED_SYMLINKS_def
      MAX_PATH_BYTES_def byte_length_def point_bytes_def Let_def)

lemma sample_link_of: "link_of sample_link = Some \<lparr>tl_oid = sample_oid, tl_relative = js ''l''\<rparr>"
  by (simp add: link_of_def sample_link_def sample_oid_def js_index_def stage_metadata_def is_oid_def
      is_lower_hex_def is_digit_def Let_def)

lemma sample_batch: "parse_batch (cat_entry sample_oid (js ''a.md'')) [sample_oid] = Inr [(sample_oid, js ''a.md'')]"
  using cat_run [of "[(sample_oid, js ''a.md'', js ''a.md'')]" "[]" 0 "[]"]
  by (simp add: parse_batch_def is_oid_def sample_oid_def is_lower_hex_def is_digit_def MAX_SYMLINK_TARGET_BYTES_def
      MAX_TRACKED_SYMLINKS_def)

lemma sample_audit: "auditTrackedSymlinkTargets sample_world d = Inr ()"
proof -
  have p: "privateScratchRoot (js ''a.md'') = Inr None"
    by (simp add: privateScratchRoot_def byte_length_def point_bytes_def MAX_SYMLINK_TARGET_BYTES_def
        path_normalize_def path_parts_def norm_parts_def norm_step_def is_absolute_def dot_seg_def dotdot_seg_def
        SCRATCH_ROOTS_def lower_unit_def Let_def)
  show ?thesis
    using p sample_batch
    by (simp add: auditTrackedSymlinkTargets_def trackedSymlinkRecords_def sample_run exit_zero_def sample_records
        sample_parse readSymlinkTargets_def js_uniq_def audit_step_def MAX_TRACKED_SYMLINKS_def Let_def)
qed

lemma sample_inventory: "inventory sample_world d (js ''/r'') DEFAULT_SETTINGS = Inr [js ''a.md'']"
proof -
  have j: "path_join [js ''/r'', js ''a.md''] = js ''/r/a.md''"
    by (simp add: path_join_def path_normalize_def path_parts_def norm_parts_def norm_step_def is_absolute_def
        dot_seg_def dotdot_seg_def Let_def)
  have c: "\<not> escapesDirectory (js ''/r'') (js ''/r'') (js ''/r/a.md'')"
    by (simp add: escapesDirectory_def path_relative_def path_resolve_def abs_path_def path_parts_def norm_parts_def
        norm_step_def is_absolute_def dot_seg_def dotdot_seg_def Let_def)
  have n: "nul_records (js ''a.md'' @ [0]) = [js ''a.md'']" by (simp add: nul_records_def)
  have st: "inventory_step sample_world (js ''/r'') DEFAULT_SETTINGS (0, js ''a.md'') 0 = Inr 9"
    using j c
    by (simp add: inventory_step_def sample_world_def unsafe_path_def byte_length_def point_bytes_def
        MAX_PATH_BYTES_def checkFileSize_def DEFAULT_SETTINGS_def gate_bounds MAX_TOTAL_BYTES_def lift_error_def Let_def)
  show ?thesis
    using n st
    by (simp add: inventory_def sample_audit sample_run exit_zero_def checkFileCount_def DEFAULT_SETTINGS_def
        gate_bounds lift_error_def Let_def)
qed

section \<open>Properties\<close>

text \<open>
  C5. Reading the batch output of git gives back every object: for any distinct list of blobs that
  are valid UTF-8 and within the size bound, parsing what \<open>git cat-file --batch\<close> prints for them
  returns each object id with its own target, in order, and consumes the output to its last byte.
\<close>

theorem parse_batch_roundtrip:
  assumes "length blobs \<le> MAX_TRACKED_SYMLINKS"
    and "list_all (\<lambda>(oid, content, target). is_oid oid \<and> length content \<le> MAX_SYMLINK_TARGET_BYTES \<and>
      utf8_decode content = Some target) blobs"
  shows "parse_batch (concat (map (\<lambda>(oid, content, _). cat_entry oid content) blobs)) (map fst blobs) =
    Inr (map (\<lambda>(oid, _, target). (oid, target)) blobs)"
  using assms(1) cat_run [OF assms(2), of "[]" 0 "[]"] by (simp add: parse_batch_def)

theorem parse_batch_roundtrip_witness:
  "parse_batch (cat_entry (replicate 40 97) (js ''docs'')) [replicate 40 97] =
     Inr [(replicate 40 97, js ''docs'')]"
proof -
  have h: "length [(replicate 40 97, js ''docs'', js ''docs'')] \<le> MAX_TRACKED_SYMLINKS"
    by (simp add: MAX_TRACKED_SYMLINKS_def)
  have b: "list_all (\<lambda>(oid, content, target). is_oid oid \<and> length content \<le> MAX_SYMLINK_TARGET_BYTES \<and>
      utf8_decode content = Some target) [(replicate 40 97, js ''docs'', js ''docs'')]"
    by (simp add: is_oid_def is_lower_hex_def MAX_SYMLINK_TARGET_BYTES_def)
  show ?thesis using parse_batch_roundtrip [OF h b] by simp
qed

text \<open>
  C4. When the audit passes, no tracked symbolic link leads into the private scratch area: every entry
  of mode 120000 that \<open>git ls-files --stage\<close> prints has a target that was read back, and no part of
  that target, backslashes read as separators, dots resolved and case folded, is a scratch root.
\<close>

theorem audit_no_scratch_link:
  assumes "auditTrackedSymlinkTargets w deadline = Inr ()"
    and "run_command w deadline LsStage None False = Inr result"
    and "entry \<in> set (nul_records (sp_stdout result))" and "link_of entry = Some link"
  shows "\<exists>targets target. readSymlinkTargets w deadline
      (List.map_filter link_of (nul_records (sp_stdout result))) = Inr targets \<and>
    map_of targets (tl_oid link) = Some target \<and> scratch_free target"
proof -
  from assms(1,2) obtain records targets where
    r: "parseTrackedSymlinkRecords (nul_records (sp_stdout result)) = Inr records" and
    t: "readSymlinkTargets w deadline records = Inr targets" and
    f: "fold_res (audit_step targets) (take MAX_TRACKED_SYMLINKS records) () = Inr ()"
    by (auto simp: auditTrackedSymlinkTargets_def trackedSymlinkRecords_def res_bind_Inr_iff)
  note recs = parseTrackedSymlinkRecords_links [OF r]
  have "link \<in> set records" using assms(3,4) by (force simp: recs(1) List.map_filter_def)
  with f recs(2) have "audit_step targets link () = Inr ()" by (simp add: unit_fold_each)
  from audit_step_free [OF this] t recs(1) show ?thesis by blast
qed

theorem audit_no_scratch_link_witness:
  "auditTrackedSymlinkTargets sample_world None = Inr () \<and>
   link_of sample_link = Some \<lparr>tl_oid = sample_oid, tl_relative = js ''l''\<rparr> \<and>
   (\<exists>targets target. map_of targets sample_oid = Some target \<and> scratch_free target)"
proof -
  have r: "run_command sample_world None LsStage None False = Inr (exit_zero (sample_link @ [0]))"
    by (simp add: sample_run)
  have e: "sample_link \<in> set (nul_records (sp_stdout (exit_zero (sample_link @ [0]))))"
    by (simp add: exit_zero_def sample_records)
  show ?thesis
    using sample_audit sample_link_of audit_no_scratch_link [OF sample_audit r e sample_link_of] by auto
qed

text \<open>
  C3. An inventory the gate accepts is bounded and confined: the files are sorted, at most
  \<open>maxFiles\<close> of them, each a regular file within its size bound with a safe name, not a symbolic
  link, whose real path is below the repository root, and together they stay within
  \<open>MAX_TOTAL_BYTES\<close>; and the symbolic links were audited first.
\<close>

theorem inventory_bounded_confined:
  assumes "inventory w deadline repo s = Inr files"
  shows "sorted files \<and> int (length files) \<le> maxFiles s \<and>
    (\<forall>f \<in> set files. accepted_file w repo s f) \<and>
    sum_list (map (file_bytes w repo) files) \<le> MAX_TOTAL_BYTES \<and>
    auditTrackedSymlinkTargets w deadline = Inr ()"
proof -
  from assms obtain result acc where
    cmd: "run_command w deadline LsMarkdown None False = Inr result" and
    files: "files = sort (nul_records (sp_stdout result))" and
    audit: "auditTrackedSymlinkTargets w deadline = Inr ()" and
    count: "int (length files) \<le> maxFiles s" and
    run: "fold_res (inventory_step w repo s) (enumerate 0 (take (nat (maxFiles s)) files)) 0 = Inr acc"
    unfolding inventory_def Let_def res_bind_Inr_iff lift_error_Inr_iff
    by (auto simp: checkFileCount_def not_less split: if_splits)
  from count have take: "take (nat (maxFiles s)) files = files" by simp
  from inventory_run [OF run [unfolded take]] files audit count show ?thesis by simp
qed

theorem inventory_bounded_confined_witness:
  "inventory sample_world None (js ''/r'') DEFAULT_SETTINGS = Inr [js ''a.md''] \<and>
   accepted_file sample_world (js ''/r'') DEFAULT_SETTINGS (js ''a.md'')"
  using sample_inventory [of None] inventory_bounded_confined [OF sample_inventory [of None]] by simp

end
