(* ===== verification/GateRun.thy ===== *)
theory GateRun
  imports GateInventory
begin

text \<open>
  The runs of the documentation gate (\<^verbatim>\<open>src/tools/markdownlint/verify.mjs\<close>): the locked install, the
  private-link rule, the lint children in bounded batches, and the three modes (the whole tree,
  \<^verbatim>\<open>--changed-since\<close> and \<^verbatim>\<open>--only\<close>) with their exit status. A run returns the chunks it wrote, in order, with
  its status.
\<close>

definition MAX_COMMAND_BYTES :: nat where "MAX_COMMAND_BYTES = 24000"
definition INSTALL_TIMEOUT_MS :: int where "INSTALL_TIMEOUT_MS = 300000"
definition MAX_REF_BYTES :: nat where "MAX_REF_BYTES = 256"
definition MAX_BUDGET_SUSPECTS :: nat where "MAX_BUDGET_SUSPECTS = 5"
definition MANIFEST_FILE :: jsstr where "MANIFEST_FILE = js ''.standards.yaml''"
definition LINT_CONFIG_FILE :: jsstr where "LINT_CONFIG_FILE = js ''markdownlint-cli2.yaml''"
definition LINT_CONFIG_KEYS :: "jsstr list" where "LINT_CONFIG_KEYS = [js ''config'', js ''noProgress'']"
definition MARKDOWNLINT_ENTRY :: jsstr where "MARKDOWNLINT_ENTRY = js ''./lib/exports-sync.mjs''"
definition ONLY_MODE :: jsstr where "ONLY_MODE = js ''--only''"
definition CHANGED_SINCE_MODE :: jsstr where "CHANGED_SINCE_MODE = js ''--changed-since''"
definition SELF_TEST_MODE :: jsstr where "SELF_TEST_MODE = js ''--self-test''"
definition NPM_CI_ARGS :: "jsstr list" where
  "NPM_CI_ARGS = [js ''ci'', js ''--ignore-scripts'', js ''--no-audit'', js ''--no-fund'']"
definition TOOL_FILES :: "jsstr list" where
  "TOOL_FILES = [js ''package.json'', js ''package-lock.json'', LINT_CONFIG_FILE, js ''no-private-scratch-links.mjs'']"

section \<open>The locked install\<close>

definition npmInvocation :: "world \<Rightarrow> jsstr list \<Rightarrow> (gate_error, jsstr \<times> jsstr list) res" where
  "npmInvocation w args =
     (if \<not> w_windows w then Inr (js ''npm'', args)
      else throw_if (\<not> w_npm_cli_file w) NpmCliMissing (Inr (w_exec w, w_npm_cli w # args)))"

definition install :: "world \<Rightarrow> rat option \<Rightarrow> (gate_error, unit) res" where
  "install w deadline =
     (case find (\<lambda>f. \<not> w_copied w f) TOOL_FILES of
        Some f \<Rightarrow> Inl (CopyFailed f)
      | None \<Rightarrow>
          res_bind (npmInvocation w NPM_CI_ARGS) (\<lambda>(file, args).
          res_bind (run_command w deadline (NpmCi file args) (Some INSTALL_TIMEOUT_MS) False) (\<lambda>_. Inr ())))"

text \<open>Optional chaining: a property of anything but a mapping is undefined.\<close>

fun json_get :: "yaml option \<Rightarrow> jsstr \<Rightarrow> yaml option" where
  "json_get (Some (YMap entries)) key = map_of entries key"
| "json_get _ key = None"

definition markdownlintLibrary :: "yaml \<Rightarrow> yaml \<Rightarrow> (gate_error, jsstr) res" where
  "markdownlintLibrary lock metadata =
     (case json_get (json_get (json_get (Some lock) (js ''packages'')) (js ''node_modules/markdownlint'')) (js ''version'') of
        Some (YString locked) \<Rightarrow>
          throw_if (locked = []) LibraryUnpinned
          (throw_if (json_get (Some metadata) (js ''version'') \<noteq> Some (YString locked) \<or>
              json_get (json_get (Some metadata) (js ''exports'')) (js ''./sync'') \<noteq> Some (YString MARKDOWNLINT_ENTRY))
            LibraryMismatch (Inr MARKDOWNLINT_ENTRY))
      | _ \<Rightarrow> Inl LibraryUnpinned)"

definition markdownlintEntry :: "world \<Rightarrow> (gate_error, jsstr) res" where
  "markdownlintEntry w =
     (case (w_lock w, w_package w) of
        (Some lock, Some metadata) \<Rightarrow> markdownlintLibrary lock metadata
      | _ \<Rightarrow> Inl BadJson)"

section \<open>The lint child\<close>

datatype lint_error =
    LintConfigInvalid
  | LintConfigNotMapping
  | LintConfigKey jsstr
  | NonFileLintSource jsstr
  | LintSourceTooLarge jsstr nat
  | LintUsage
  | LintBatchTooLarge nat
  | LintInstall gate_error

definition lintConfiguration :: "(jsstr \<Rightarrow> yaml option) \<Rightarrow> jsstr \<Rightarrow> (lint_error, yaml) res" where
  "lintConfiguration load content =
     (case load content of
        None \<Rightarrow> Inl LintConfigInvalid
      | Some (YMap entries) \<Rightarrow>
          (case map_of entries (js ''config'') of
             Some (YMap config) \<Rightarrow>
               (case find (\<lambda>key. key \<notin> set LINT_CONFIG_KEYS) (map fst entries) of
                  Some key \<Rightarrow> Inl (LintConfigKey (take 64 key))
                | None \<Rightarrow> Inr (YMap config))
           | _ \<Rightarrow> Inl LintConfigNotMapping)
      | Some _ \<Rightarrow> Inl LintConfigNotMapping)"

record lint_result =
  lr_lineNumber :: nat
  lr_ruleNames :: "jsstr list"
  lr_ruleDescription :: jsstr
  lr_errorDetail :: jsstr
  lr_errorContext :: jsstr
  lr_errorColumn :: nat
  lr_severity :: jsstr

text \<open>
  A finding of the child: the result with its file and its place in the order the library
  reported. An absent text or column is the empty string or 0, which the formatter treats alike.
\<close>

record finding =
  fi_result :: lint_result
  fi_fileName :: jsstr
  fi_order :: nat

definition lintFinding :: "finding \<Rightarrow> jsstr" where
  "lintFinding f =
     (let r = fi_result f;
          column = (if lr_errorColumn r \<noteq> 0 then js '':'' @ nat_digits (lr_errorColumn r) else []);
          severity = (if lr_severity r \<noteq> [] then js '' '' @ lr_severity r else []);
          detail = (if lr_errorDetail r \<noteq> [] then js '' ['' @ lr_errorDetail r @ js '']'' else []);
          context = (if lr_errorContext r \<noteq> [] then js '' [Context: '' @ [34] @ lr_errorContext r @ [34] @ js '']'' else [])
      in fi_fileName f @ js '':'' @ nat_digits (lr_lineNumber r) @ column @ severity @ js '' '' @
         js_join (js ''/'') (lr_ruleNames r) @ js '' '' @ lr_ruleDescription r @ detail @ context)"

text \<open>\<open>lc\<close> is \<open>localeCompare\<close>, negative, zero or positive.\<close>

definition compareFindings :: "(jsstr \<Rightarrow> jsstr \<Rightarrow> int) \<Rightarrow> finding \<Rightarrow> finding \<Rightarrow> int" where
  "compareFindings lc l r =
     (let a = lc (fi_fileName l) (fi_fileName r);
          b = int (lr_lineNumber (fi_result l)) - int (lr_lineNumber (fi_result r));
          c = lc (hd (lr_ruleNames (fi_result l))) (hd (lr_ruleNames (fi_result r)))
      in if a \<noteq> 0 then a else if b \<noteq> 0 then b else if c \<noteq> 0 then c
         else int (fi_order l) - int (fi_order r))"

text \<open>Opening a source: the descriptor, if it opens, and \<open>lstat\<close> of the path.\<close>

record source_fs =
  sf_open :: "opened option"
  sf_lstat :: "lnode option"

definition readLintSource :: "(jsstr \<Rightarrow> source_fs) \<Rightarrow> jsstr \<Rightarrow> (lint_error, jsstr) res" where
  "readLintSource fs relative =
     (case sf_open (fs relative) of
        None \<Rightarrow> Inl (NonFileLintSource relative)
      | Some descriptor \<Rightarrow>
          (case sf_lstat (fs relative) of
             Some LOther \<Rightarrow>
               throw_if (\<not> op_file descriptor) (NonFileLintSource relative)
               (throw_if (int (op_size descriptor) > MAX_FILE_BYTES_CEILING)
                   (LintSourceTooLarge relative (op_size descriptor))
                 (Inr (op_text descriptor)))
           | _ \<Rightarrow> Inl (NonFileLintSource relative)))"

text \<open>
  The loop of \<open>lintChild\<close>: \<open>lint config file source\<close> is what the markdownlint library reports for one
  file.
\<close>

definition lint_step ::
  "(jsstr \<Rightarrow> source_fs) \<Rightarrow> (jsstr \<Rightarrow> jsstr \<Rightarrow> lint_result list) \<Rightarrow> jsstr \<Rightarrow> finding list \<Rightarrow> (lint_error, finding list) res" where
  "lint_step fs lint file findings =
     res_bind (readLintSource fs file) (\<lambda>source.
       Inr (findings @ map (\<lambda>(i, r). \<lparr>fi_result = r, fi_fileName = file, fi_order = i\<rparr>)
         (enumerate (length findings) (lint file source))))"

definition lintChild ::
  "world \<Rightarrow> (jsstr \<Rightarrow> yaml option) \<Rightarrow> jsstr \<Rightarrow> (jsstr \<Rightarrow> source_fs) \<Rightarrow> (yaml \<Rightarrow> jsstr \<Rightarrow> jsstr \<Rightarrow> lint_result list) \<Rightarrow>
   (jsstr \<Rightarrow> jsstr \<Rightarrow> int) \<Rightarrow> jsstr list \<Rightarrow> (lint_error, jsstr \<times> int) res" where
  "lintChild w load config fs lint lc args =
     (case args of
        [] \<Rightarrow> Inl LintUsage
      | _ # files \<Rightarrow>
          throw_if (int (length files) > MAX_FILES_CEILING) (LintBatchTooLarge (length files))
          (res_bind (lift_error LintInstall (markdownlintEntry w)) (\<lambda>_.
           res_bind (lintConfiguration load config) (\<lambda>rules.
           res_bind (fold_res (lint_step fs (lint rules)) (take (nat MAX_FILES_CEILING) files) []) (\<lambda>findings.
             let ordered = sort_by (\<lambda>l r. compareFindings lc l r \<le> 0) findings in
             Inr (concat (map (\<lambda>f. lintFinding f @ [10]) ordered), if findings = [] then 0 else 1))))))"

section \<open>Batches\<close>

definition batch_step ::
  "jsstr \<Rightarrow> jsstr list list \<times> jsstr list \<times> nat \<Rightarrow> jsstr list list \<times> jsstr list \<times> nat" where
  "batch_step file st =
     (let (result, current, bytes) = st; sz = byte_length file + 1 in
      if current \<noteq> [] \<and> bytes + sz > MAX_COMMAND_BYTES
      then (result @ [current], [file], sz)
      else (result, current @ [file], bytes + sz))"

definition batches :: "jsstr list \<Rightarrow> jsstr list list" where
  "batches files =
     (let (result, current, _) = fold batch_step (take (nat MAX_FILES_CEILING) files) ([], [], 0) in
      if current \<noteq> [] then result @ [current] else result)"

definition counted :: "nat \<Rightarrow> jsstr \<Rightarrow> jsstr" where
  "counted n noun = nat_digits n @ js '' '' @ noun @ (if n = 1 then [] else js ''s'')"

definition DEADLINE_NOTE :: jsstr where
  "DEADLINE_NOTE = js ''; the deadline keeps the gate inside the hosted job's 10-minute limit, and no setting moves it''"

record sized =
  sz_file :: jsstr
  sz_size :: nat

definition sized_le :: "(jsstr \<Rightarrow> jsstr \<Rightarrow> int) \<Rightarrow> sized \<Rightarrow> sized \<Rightarrow> bool" where
  "sized_le lc l r \<longleftrightarrow>
     (if sz_size l \<noteq> sz_size r then sz_size r < sz_size l else lc (sz_file l) (sz_file r) \<le> 0)"

definition batch_sizes :: "world \<Rightarrow> jsstr \<Rightarrow> jsstr list \<Rightarrow> sized list" where
  "batch_sizes w repo batch =
     map (\<lambda>f. \<lparr>sz_file = f, sz_size = (case w_lstat w (path_join [repo, f]) of None \<Rightarrow> 0 | Some st \<Rightarrow> st_size st)\<rparr>)
       (take (nat MAX_FILES_CEILING) batch)"

definition suspects_of :: "world \<Rightarrow> (jsstr \<Rightarrow> jsstr \<Rightarrow> int) \<Rightarrow> jsstr \<Rightarrow> jsstr list \<Rightarrow> sized list" where
  "suspects_of w lc repo batch = take MAX_BUDGET_SUSPECTS (sort_by (sized_le lc) (batch_sizes w repo batch))"

definition lint_hint :: "int \<Rightarrow> jsstr" where
  "lint_hint seconds =
     (if boundHint seconds LINT_TIMEOUT_SECONDS_CEILING
      then js ''; documentation.lint_timeout_seconds in .standards.yaml raises it up to 480'' else [])"

definition lintBudgetReport ::
  "world \<Rightarrow> (jsstr \<Rightarrow> jsstr \<Rightarrow> int) \<Rightarrow> jsstr \<Rightarrow> jsstr list \<Rightarrow> jsstr \<Rightarrow> int \<Rightarrow> bool \<Rightarrow> jsstr" where
  "lintBudgetReport w lc repo batch position seconds deadline =
     (let suspects = suspects_of w lc repo batch;
          secs = nat_digits (nat seconds);
          alone = (if length batch > 1 then
              10 # js ''lint a suspect alone to time it: node tools/markdownlint/verify.mjs '' @ ONLY_MODE @ js '' '' @
                sz_file (hd suspects) else []);
          limit = (if deadline then
              js ''ran past the gate's 480 s deadline before its '' @ secs @ js '' s budget ran out'' @ DEADLINE_NOTE
            else js ''exceeded its '' @ secs @ js '' s budget'' @ lint_hint seconds)
      in js ''lint batch '' @ position @ js '' ('' @ counted (length batch) (js ''file'') @ js '', '' @
         nat_digits (sum_list (map sz_size (batch_sizes w repo batch))) @ js '' bytes) '' @ limit @ [10] @
         js ''suspects, the batch's largest files (size is no proof):'' @ [10] @
         js_join [10] (map (\<lambda>s. js ''  '' @ sz_file s @ js '' ('' @ nat_digits (sz_size s) @ js '' bytes)'') suspects) @
         alone)"

section \<open>Running the rules\<close>

text \<open>\<open>overflow ||= emitBounded(...)\<close>: no call once the flag is set.\<close>

definition emit_unless :: "jsstr \<Rightarrow> label \<Rightarrow> jsstr list \<times> budget \<times> bool \<Rightarrow> jsstr list \<times> budget \<times> bool" where
  "emit_unless content lab st =
     (let (written, b, overflow) = st in
      if overflow then st
      else (let (chunks, b', flag) = emitBounded content b lab in (written @ chunks, b', flag)))"

definition runScratchRule :: "world \<Rightarrow> rat option \<Rightarrow> jsstr list \<Rightarrow> (gate_error, jsstr list \<times> int) res" where
  "runScratchRule w deadline files =
     res_bind (run_command w deadline (ScratchRule files) None True) (\<lambda>result.
       let (written, _, overflow) =
         (if sp_status result \<noteq> Some 0
          then emit_unless (sp_stderr result) PrivateLink
                 (emit_unless (sp_stdout result) PrivateLink ([], outputBudget, False))
          else ([], outputBudget, False))
       in Inr (written, if overflow then 2 else case sp_status result of None \<Rightarrow> 2 | Some s \<Rightarrow> s))"

record lint_state =
  ls_failed :: bool
  ls_out :: "jsstr list \<times> budget \<times> bool"

definition lint_batch_step ::
  "world \<Rightarrow> (jsstr \<Rightarrow> jsstr \<Rightarrow> int) \<Rightarrow> rat option \<Rightarrow> jsstr \<Rightarrow> settings \<Rightarrow> nat \<Rightarrow> nat \<times> jsstr list \<Rightarrow> lint_state \<Rightarrow>
   (gate_error, lint_state) res" where
  "lint_batch_step w lc deadline repo s batchCount ib st =
     (let (index, batch) = ib in
      case command deadline (w_now w (LintBatch index batch)) (Some (lintTimeoutSeconds s * 1000)) True
             (w_spawn w (LintBatch index batch)) of
        Inl (CommandTimeout lmt) \<Rightarrow>
          Inl (LintStopped (lintBudgetReport w lc repo batch
            (nat_digits (index + 1) @ js '' of '' @ nat_digits batchCount) (lintTimeoutSeconds s) (lim_deadline lmt)))
      | Inl e \<Rightarrow> Inl (CommandFailed e)
      | Inr result \<Rightarrow>
          Inr \<lparr>ls_failed = (ls_failed st \<or> sp_status result \<noteq> Some 0),
               ls_out = (if sp_status result \<noteq> Some 0
                  then emit_unless (sp_stderr result) Markdownlint (emit_unless (sp_stdout result) Markdownlint (ls_out st))
                  else ls_out st)\<rparr>)"

definition runMarkdownlint ::
  "world \<Rightarrow> (jsstr \<Rightarrow> jsstr \<Rightarrow> int) \<Rightarrow> rat option \<Rightarrow> jsstr \<Rightarrow> jsstr list \<Rightarrow> settings \<Rightarrow> (gate_error, jsstr list \<times> int) res" where
  "runMarkdownlint w lc deadline repo files s =
     res_bind (markdownlintEntry w) (\<lambda>_.
       let parts = batches files in
       res_bind (fold_res (lint_batch_step w lc deadline repo s (length parts))
           (enumerate 0 (take (nat MAX_FILES_CEILING) parts)) \<lparr>ls_failed = False, ls_out = ([], outputBudget, False)\<rparr>) (\<lambda>st.
         let (written, _, overflow) = ls_out st in
         Inr (written, if overflow then 2 else if ls_failed st then 1 else 0)))"

section \<open>Modes\<close>

definition repo_relative :: "world \<Rightarrow> jsstr \<Rightarrow> jsstr \<Rightarrow> jsstr" where
  "repo_relative w repo named = path_relative (w_cwd w) repo (path_resolve (w_cwd w) [named])"

definition named_step :: "world \<Rightarrow> jsstr \<Rightarrow> jsstr list \<Rightarrow> jsstr \<Rightarrow> jsstr list \<Rightarrow> (gate_error, jsstr list) res" where
  "named_step w repo chosen name files =
     (let relative = repo_relative w repo name in
      throw_if (relative \<notin> set chosen) (NotStyleSelected name)
        (Inr (if relative \<in> set files then files else files @ [relative])))"

definition namedStyleFiles ::
  "world \<Rightarrow> rat option \<Rightarrow> jsstr \<Rightarrow> settings \<Rightarrow> jsstr list \<Rightarrow> (gate_error, jsstr list) res" where
  "namedStyleFiles w deadline repo s named =
     throw_if (int (length named) > MAX_FILES_CEILING) (TooManyNamed (length named))
     (res_bind (inventory w deadline repo s) (\<lambda>files.
      res_bind (lift_error SettingsFailed (styleSelection (w_unicode w) files s (w_windows w))) (\<lambda>sel.
        fold_res (named_step w repo (styled sel)) (take (nat MAX_FILES_CEILING) named) [])))"

definition ref_first :: "nat \<Rightarrow> bool" where
  "ref_first c \<longleftrightarrow> 48 \<le> c \<and> c \<le> 57 \<or> 65 \<le> c \<and> c \<le> 90 \<or> 97 \<le> c \<and> c \<le> 122"

definition ref_unit :: "nat \<Rightarrow> bool" where
  "ref_unit c \<longleftrightarrow> ref_first c \<or> c \<in> set (js ''._/~^-'')"

definition REF_PATTERN :: "jsstr \<Rightarrow> bool" where
  "REF_PATTERN ref \<longleftrightarrow> (case ref of [] \<Rightarrow> False | c # cs \<Rightarrow> ref_first c \<and> list_all ref_unit cs)"

definition INVALID_REF_PART :: "jsstr \<Rightarrow> bool" where
  "INVALID_REF_PART ref \<longleftrightarrow>
     js_includes ref (js ''..'') \<or> js_includes ref (js ''//'') \<or> js_includes ref (js ''/.'') \<or>
     js_ends ref (js ''/'') \<or> js_ends ref (js ''.'') \<or> js_ends ref (js ''.lock'')"

definition validChangedSinceRef :: "jsstr \<Rightarrow> bool" where
  "validChangedSinceRef ref \<longleftrightarrow> byte_length ref \<le> MAX_REF_BYTES \<and> REF_PATTERN ref \<and> \<not> INVALID_REF_PART ref"

datatype mode = Gate | SelfTest | ChangedSince jsstr | Only "jsstr list"

definition changedSinceMode :: "jsstr \<Rightarrow> (gate_error, mode) res" where
  "changedSinceMode ref = throw_if (\<not> validChangedSinceRef ref) InvalidRef (Inr (ChangedSince ref))"

definition gateMode :: "jsstr list \<Rightarrow> (gate_error, mode) res" where
  "gateMode args =
     (if args = [] then Inr Gate
      else if length args = 1 \<and> args ! 0 = SELF_TEST_MODE then Inr SelfTest
      else if length args = 2 \<and> args ! 0 = CHANGED_SINCE_MODE then changedSinceMode (args ! 1)
      else if length args > 1 \<and> args ! 0 = ONLY_MODE then Inr (Only (drop 1 args))
      else Inl Usage)"

section \<open>Reports\<close>

definition reportSettings :: "settings \<Rightarrow> selection \<Rightarrow> jsstr list" where
  "reportSettings s sel =
     (if \<not> declared s then []
      else
        (js ''markdown-governance: .standards.yaml documentation bounds '' @ nat_digits (nat (maxFiles s)) @ js '' files, '' @
         nat_digits (nat (maxFileBytes s)) @ js '' bytes per file, '' @ nat_digits (nat (lintTimeoutSeconds s)) @
         js '' s per lint child (defaults 4096, 1048576, 120; ceilings 16384, 4194304, 480)'' @ [10]) #
        map (\<lambda>(glob, n). js ''markdown-governance: style exclusion '' @ json_string glob @ js '' matched '' @
             nat_digits n @ js '' files'' @ [10])
          (take MAX_STYLE_EXCLUSIONS (zip (styleExclude s) (counts sel))))"

definition excluded_note :: "settings \<Rightarrow> selection \<Rightarrow> jsstr" where
  "excluded_note s sel =
     (if styleExclude s \<noteq> [] then js '' ('' @ nat_digits (sel_excluded sel) @ js '' excluded by documentation.style_exclude)''
      else [])"

definition summaryLine :: "settings \<Rightarrow> selection \<Rightarrow> nat \<Rightarrow> jsstr" where
  "summaryLine s sel scratchCount =
     js ''markdown-governance: styled '' @ nat_digits (length (styled sel)) @ js '' public Markdown files'' @ excluded_note s sel @
     js ''; checked '' @ nat_digits scratchCount @ js '' tracked/non-ignored Markdown files for private links'' @ [10]"

definition changedSummaryLine :: "jsstr \<Rightarrow> settings \<Rightarrow> selection \<Rightarrow> nat \<Rightarrow> jsstr" where
  "changedSummaryLine ref s sel scratchCount =
     js ''markdown-governance: '' @ CHANGED_SINCE_MODE @ js '' '' @ ref @ js '': styled '' @ nat_digits (length (styled sel)) @
     js '' changed public Markdown files'' @ excluded_note s sel @ js ''; checked '' @ nat_digits scratchCount @
     js '' changed Markdown files for private links'' @ [10]"

section \<open>Runs\<close>

definition combineGateStatus :: "int \<Rightarrow> int \<Rightarrow> int" where
  "combineGateStatus scratchStatus lintStatus =
     (if scratchStatus = 0 \<and> lintStatus = 0 then 0 else if scratchStatus > 1 \<or> lintStatus > 1 then 2 else 1)"

definition runGate :: "world \<Rightarrow> (jsstr \<Rightarrow> jsstr \<Rightarrow> int) \<Rightarrow> rat option \<Rightarrow> jsstr \<Rightarrow> settings \<Rightarrow> (gate_error, jsstr list \<times> int) res" where
  "runGate w lc deadline repo s =
     res_bind (inventory w deadline repo s) (\<lambda>scratchFiles.
     res_bind (lift_error SettingsFailed (styleSelection (w_unicode w) scratchFiles s (w_windows w))) (\<lambda>sel.
     res_bind (runScratchRule w deadline scratchFiles) (\<lambda>(scratchOut, scratchStatus).
     res_bind (runMarkdownlint w lc deadline repo (styled sel) s) (\<lambda>(lintOut, lintStatus).
       Inr (reportSettings s sel @ scratchOut @ lintOut @ [summaryLine s sel (length scratchFiles)],
            if scratchStatus = 0 \<and> lintStatus = 0 then 0
            else if scratchStatus > 1 \<or> lintStatus > 1 then 2 else 1)))))"

definition isDocumentationToolPath :: "jsstr \<Rightarrow> bool" where
  "isDocumentationToolPath relative \<longleftrightarrow> js_starts relative (js ''tools/markdownlint/'') \<or> relative \<in> set TOOL_FILES"

definition changedTreeFallback :: "jsstr list \<Rightarrow> jsstr \<Rightarrow> jsstr option" where
  "changedTreeFallback paths ref =
     map_option (\<lambda>relative.
       if relative = MANIFEST_FILE then MANIFEST_FILE @ js '' changed since '' @ ref @ js ''; linting whole tree''
       else js ''documentation gate tool path '' @ relative @ js '' changed since '' @ ref @ js ''; linting whole tree'')
     (find (\<lambda>relative. relative = MANIFEST_FILE \<or> isDocumentationToolPath relative) (take MAX_TRACKED_ENTRIES paths))"

definition changedPathsSince :: "world \<Rightarrow> rat option \<Rightarrow> jsstr \<Rightarrow> (gate_error, jsstr option \<times> jsstr list) res" where
  "changedPathsSince w deadline ref =
     res_bind (run_command w deadline (DiffSince ref) None True) (\<lambda>result.
       if sp_status result \<noteq> Some 0 then
         Inr (Some (js ''ref '' @ ref @ js '' is unknown to git (shallow or missing base); linting whole tree''), [])
       else
         (let paths = nul_records (sp_stdout result) in
          throw_if (length paths > MAX_TRACKED_ENTRIES) (TooManyChanged (length paths))
            (Inr (changedTreeFallback paths ref, paths))))"

text \<open>
  \<open>eligible - styled.length\<close>: a difference of counts, written on the integers so that nothing is
  cut off at zero.
\<close>

definition changedStyleSelection ::
  "unicode \<Rightarrow> jsstr list \<Rightarrow> jsstr list \<Rightarrow> settings \<Rightarrow> bool \<Rightarrow> (settings_error, jsstr list \<times> int \<times> nat list) res" where
  "changedStyleSelection U allFiles scratchFiles s windows =
     res_bind (styleSelection U allFiles s windows) (\<lambda>full.
       let kept = filter (\<lambda>f. f \<in> set scratchFiles) (styled full);
           eligible = length (filter isStyleSelected scratchFiles) in
       Inr (kept, int eligible - int (length kept), counts full))"

definition runChangedSince ::
  "world \<Rightarrow> (jsstr \<Rightarrow> jsstr \<Rightarrow> int) \<Rightarrow> rat option \<Rightarrow> jsstr \<Rightarrow> settings \<Rightarrow> jsstr \<Rightarrow> (gate_error, jsstr list \<times> int) res" where
  "runChangedSince w lc deadline repo s ref =
     res_bind (changedPathsSince w deadline ref) (\<lambda>(fallback, paths).
       let prefix = js ''markdown-governance: '' @ CHANGED_SINCE_MODE @ js '' '' @ ref @ js '': '' in
       case fallback of
         Some reason \<Rightarrow>
           res_bind (runGate w lc deadline repo s) (\<lambda>(out, status). Inr ((prefix @ reason @ [10]) # out, status))
       | None \<Rightarrow>
           res_bind (inventory w deadline repo s) (\<lambda>allFiles.
             let scratchFiles = filter (\<lambda>f. f \<in> set paths) allFiles in
             if scratchFiles = [] then Inr ([prefix @ js ''0 changed Markdown files; pass'' @ [10]], 0)
             else
               res_bind (lift_error SettingsFailed
                   (changedStyleSelection (w_unicode w) allFiles scratchFiles s (w_windows w))) (\<lambda>(kept, excl, cs).
                 let sel = \<lparr>styled = kept, sel_excluded = nat excl, counts = cs\<rparr> in
                 res_bind (runScratchRule w deadline scratchFiles) (\<lambda>(scratchOut, scratchStatus).
                 res_bind (runMarkdownlint w lc deadline repo kept s) (\<lambda>(lintOut, lintStatus).
                   Inr (reportSettings s sel @ scratchOut @ lintOut @ [changedSummaryLine ref s sel (length scratchFiles)],
                        combineGateStatus scratchStatus lintStatus))))))"

text \<open>\<open>runOnly\<close> without its timing line, which prints the wall clock.\<close>

definition runOnly ::
  "world \<Rightarrow> (jsstr \<Rightarrow> jsstr \<Rightarrow> int) \<Rightarrow> rat option \<Rightarrow> jsstr \<Rightarrow> settings \<Rightarrow> jsstr list \<Rightarrow> (gate_error, jsstr list \<times> int) res" where
  "runOnly w lc deadline repo s named =
     res_bind (namedStyleFiles w deadline repo s named) (\<lambda>files. runMarkdownlint w lc deadline repo files s)"

definition run_mode ::
  "world \<Rightarrow> (jsstr \<Rightarrow> jsstr \<Rightarrow> int) \<Rightarrow> mode \<Rightarrow> rat option \<Rightarrow> (gate_error, jsstr list \<times> int) res" where
  "run_mode w lc m deadline =
     res_bind (install w deadline) (\<lambda>_.
     res_bind (repositoryRoot w deadline) (\<lambda>repo.
     res_bind (lift_error SettingsFailed (repositorySettings (w_unicode w) (w_load_all w) (w_manifest w))) (\<lambda>s.
       case m of
         Only files \<Rightarrow> runOnly w lc deadline repo s files
       | ChangedSince ref \<Rightarrow> runChangedSince w lc deadline repo s ref
       | _ \<Rightarrow> runGate w lc deadline repo s)))"

text \<open>
  \<open>main\<close> and \<open>entry\<close>: the exit code. Every failure of the gate carries status 2, and any other
  exception exits with 2 as well. \<open>selfTest\<close> is the outcome of the self-test.
\<close>

definition main :: "world \<Rightarrow> (jsstr \<Rightarrow> jsstr \<Rightarrow> int) \<Rightarrow> (gate_error, int) res \<Rightarrow> jsstr list \<Rightarrow> int" where
  "main w lc selfTest args =
     (case gateMode args of
        Inl _ \<Rightarrow> 2
      | Inr SelfTest \<Rightarrow> (case selfTest of Inl _ \<Rightarrow> 2 | Inr status \<Rightarrow> status)
      | Inr m \<Rightarrow>
          (case fst (withGateDeadline (w_start w) (of_int (GATE_DEADLINE_SECONDS * 1000)) (run_mode w lc m)) of
             Inl _ \<Rightarrow> 2
           | Inr (_, status) \<Rightarrow> status))"

text \<open>\<open>entry\<close>: the gate, or with \<open>LINT_MODE\<close> the lint child; its exit status. A failure of either exits with 2.\<close>

definition LINT_MODE :: jsstr where "LINT_MODE = js ''--lint''"

definition entry ::
  "world \<Rightarrow> (jsstr \<Rightarrow> jsstr \<Rightarrow> int) \<Rightarrow> (jsstr list \<Rightarrow> (lint_error, jsstr \<times> int) res) \<Rightarrow> (gate_error, int) res \<Rightarrow> jsstr list \<Rightarrow> int" where
  "entry w lc lint_child selfTest argv =
     (if argv \<noteq> [] \<and> hd argv = LINT_MODE
      then (case lint_child (tl argv) of Inl _ \<Rightarrow> 2 | Inr (_, status) \<Rightarrow> status)
      else main w lc selfTest argv)"

section \<open>Lemmas on batches\<close>

definition batch_bytes :: "jsstr list \<Rightarrow> nat" where
  "batch_bytes b = sum_list (map (\<lambda>f. byte_length f + 1) b)"

definition good_batch :: "jsstr list \<Rightarrow> bool" where
  "good_batch b \<longleftrightarrow> b \<noteq> [] \<and> (length b = 1 \<or> batch_bytes b \<le> MAX_COMMAND_BYTES)"

definition batch_inv :: "jsstr list list \<times> jsstr list \<times> nat \<Rightarrow> bool" where
  "batch_inv st \<longleftrightarrow>
     (\<forall>b \<in> set (fst st). good_batch b) \<and> (fst (snd st) \<noteq> [] \<longrightarrow> good_batch (fst (snd st))) \<and>
     snd (snd st) = batch_bytes (fst (snd st))"

lemma batch_step_inv: "batch_inv st \<Longrightarrow> batch_inv (batch_step file st)"
  by (cases st) (auto simp: batch_step_def batch_inv_def good_batch_def batch_bytes_def Let_def)

lemma batch_step_concat:
  "concat (fst (batch_step file st)) @ fst (snd (batch_step file st)) = (concat (fst st) @ fst (snd st)) @ [file]"
  by (cases st) (simp add: batch_step_def Let_def)

lemma batch_fold:
  "batch_inv st \<Longrightarrow> batch_inv (fold batch_step files st) \<and>
     concat (fst (fold batch_step files st)) @ fst (snd (fold batch_step files st)) = (concat (fst st) @ fst (snd st)) @ files"
proof (induction files arbitrary: st)
  case (Cons f files)
  from Cons.IH [OF batch_step_inv [OF Cons.prems]] batch_step_concat show ?case by simp
qed simp

lemma batches_good: "concat (batches files) = take (nat MAX_FILES_CEILING) files" "\<forall>b \<in> set (batches files). good_batch b"
proof -
  let ?st = "fold batch_step (take (nat MAX_FILES_CEILING) files) ([], [], 0)"
  have "batch_inv ([], [], 0)" by (simp add: batch_inv_def batch_bytes_def)
  from batch_fold [OF this] have st: "batch_inv ?st" "concat (fst ?st) @ fst (snd ?st) = take (nat MAX_FILES_CEILING) files"
    by auto
  have b: "batches files = (if fst (snd ?st) \<noteq> [] then fst ?st @ [fst (snd ?st)] else fst ?st)"
    by (simp add: batches_def split_def Let_def)
  show "concat (batches files) = take (nat MAX_FILES_CEILING) files" using b st(2) by (simp split: if_splits)
  show "\<forall>b \<in> set (batches files). good_batch b" using b st(1) by (auto simp: batch_inv_def split: if_splits)
qed

lemma length_concat_ge: "\<forall>b \<in> set bs. b \<noteq> [] \<Longrightarrow> length bs \<le> length (concat bs)"
proof (induction bs)
  case (Cons b bs)
  then have "0 < length b" "length bs \<le> length (concat bs)" by auto
  then have "Suc (length bs) \<le> length b + length (concat bs)" by linarith
  then show ?case by simp
qed simp

lemma length_batches: "length (batches files) \<le> nat MAX_FILES_CEILING"
proof -
  have "length (batches files) \<le> length (concat (batches files))"
    by (rule length_concat_ge) (use batches_good(2) in \<open>auto simp: good_batch_def\<close>)
  then show ?thesis by (simp add: batches_good(1))
qed

section \<open>Lemmas on the output of a run\<close>

definition out_ok :: "jsstr list \<times> budget \<times> bool \<Rightarrow> bool" where
  "out_ok st \<longleftrightarrow>
     (case st of (written, b, overflow) \<Rightarrow>
        overflow = bu_truncated b \<and>
        chunk_bytes written + bu_bytes b + owed b TRUNCATION_MARKER_BYTES \<le> MAX_DIAGNOSTIC_OUTPUT_BYTES \<and>
        chunk_lines written + bu_lines b + owed b 1 \<le> MAX_DIAGNOSTIC_OUTPUT_LINES)"

lemma out_ok_start: "out_ok ([], outputBudget, False)"
  by (simp add: out_ok_def outputBudget_def owed_def chunk_bytes_def chunk_lines_def
      MAX_DIAGNOSTIC_OUTPUT_BYTES_def MAX_DIAGNOSTIC_OUTPUT_LINES_def TRUNCATION_MARKER_BYTES_def)

lemma out_ok_emit: "out_ok st \<Longrightarrow> out_ok (emit_unless content lab st)"
proof -
  assume ok: "out_ok st"
  obtain written b overflow where st: "st = (written, b, overflow)" by (metis prod_cases3)
  obtain chunks b' flag where e: "emitBounded content b lab = (chunks, b', flag)" by (metis prod_cases3)
  from emitBounded_spends [OF e] ok show ?thesis
    by (auto simp: st e out_ok_def emit_unless_def chunk_bytes_def chunk_lines_def)
qed

lemma out_ok_bounds:
  "out_ok (written, b, overflow) \<Longrightarrow>
     chunk_bytes written \<le> MAX_DIAGNOSTIC_OUTPUT_BYTES \<and> chunk_lines written \<le> MAX_DIAGNOSTIC_OUTPUT_LINES"
  by (auto simp: out_ok_def)

definition child_passed :: "world \<Rightarrow> rat option \<Rightarrow> settings \<Rightarrow> nat \<times> jsstr list \<Rightarrow> bool" where
  "child_passed w deadline s ib \<longleftrightarrow>
     (\<exists>r. command deadline (w_now w (LintBatch (fst ib) (snd ib))) (Some (lintTimeoutSeconds s * 1000)) True
            (w_spawn w (LintBatch (fst ib) (snd ib))) = Inr r \<and> sp_status r = Some 0)"

definition lint_inv :: "lint_state \<Rightarrow> bool" where
  "lint_inv st \<longleftrightarrow> out_ok (ls_out st) \<and> (snd (snd (ls_out st)) \<longrightarrow> ls_failed st)"

lemma lint_batch_step_ok:
  assumes "lint_batch_step w lc deadline repo s n ib st = Inr t" and "lint_inv st"
  shows "lint_inv t" "ls_failed t \<longleftrightarrow> ls_failed st \<or> \<not> child_passed w deadline s ib"
proof -
  obtain i b where ib: "ib = (i, b)" by (cases ib)
  from assms(1) ib obtain r where
    r: "command deadline (w_now w (LintBatch i b)) (Some (lintTimeoutSeconds s * 1000)) True
          (w_spawn w (LintBatch i b)) = Inr r" and
    t: "t = \<lparr>ls_failed = (ls_failed st \<or> sp_status r \<noteq> Some 0),
             ls_out = (if sp_status r \<noteq> Some 0
               then emit_unless (sp_stderr r) Markdownlint (emit_unless (sp_stdout r) Markdownlint (ls_out st))
               else ls_out st)\<rparr>"
    by (auto simp: lint_batch_step_def Let_def split: sum.splits command_error.splits)
  show "lint_inv t" using assms(2) by (auto simp: lint_inv_def t out_ok_emit)
  show "ls_failed t \<longleftrightarrow> ls_failed st \<or> \<not> child_passed w deadline s ib"
    by (simp add: t ib child_passed_def r)
qed

interpretation lint_loop: guarded_loop "lint_batch_step w lc deadline repo s n" "\<lambda>_. True" lint_inv
  for w lc deadline repo s n
  by unfold_locales (rule lint_batch_step_ok(1))

lemma lint_run_failed:
  "fold_res (lint_batch_step w lc deadline repo s n) ibs st = Inr t \<Longrightarrow> lint_inv st \<Longrightarrow>
     ls_failed t \<longleftrightarrow> ls_failed st \<or> (\<exists>ib \<in> set ibs. \<not> child_passed w deadline s ib)"
proof (induction ibs arbitrary: st)
  case (Cons ib ibs)
  then obtain u where u: "lint_batch_step w lc deadline repo s n ib st = Inr u"
      "fold_res (lint_batch_step w lc deadline repo s n) ibs u = Inr t"
    by (auto simp: res_bind_Inr_iff)
  note st = lint_batch_step_ok [OF u(1) Cons.prems(2)]
  from Cons.IH [OF u(2) st(1)] st(2) show ?case by auto
qed simp

lemma runMarkdownlint_facts:
  assumes "runMarkdownlint w lc deadline repo files s = Inr (out, status)"
  shows "status = 0 \<longleftrightarrow> (\<forall>ib \<in> set (enumerate 0 (batches files)). child_passed w deadline s ib)"
    and "status \<in> {0, 1, 2}"
    and "chunk_bytes out \<le> MAX_DIAGNOSTIC_OUTPUT_BYTES" "chunk_lines out \<le> MAX_DIAGNOSTIC_OUTPUT_LINES"
proof -
  let ?start = "\<lparr>ls_failed = False, ls_out = ([], outputBudget, False)\<rparr>"
  let ?parts = "enumerate 0 (batches files)"
  have "take (nat MAX_FILES_CEILING) (batches files) = batches files" using length_batches by simp
  then obtain st where
    run: "fold_res (lint_batch_step w lc deadline repo s (length (batches files))) ?parts ?start = Inr st" and
    final: "(case ls_out st of (written, _, overflow) \<Rightarrow>
        (Inr (written, if overflow then 2 else if ls_failed st then 1 else 0) :: (gate_error, jsstr list \<times> int) res)) = Inr (out, status)"
    using assms by (auto simp: runMarkdownlint_def Let_def res_bind_Inr_iff)
  then obtain b overflow where
    out: "ls_out st = (out, b, overflow)" and
    status: "status = (if overflow then 2 else if ls_failed st then 1 else 0)"
    by (cases "ls_out st") auto
  have start: "lint_inv ?start" by (simp add: lint_inv_def out_ok_start)
  have inv: "lint_inv st" using lint_loop.run_inv [OF start _ run] by simp
  show "status \<in> {0, 1, 2}" by (simp add: status)
  show "chunk_bytes out \<le> MAX_DIAGNOSTIC_OUTPUT_BYTES" "chunk_lines out \<le> MAX_DIAGNOSTIC_OUTPUT_LINES"
    using inv out_ok_bounds by (auto simp: lint_inv_def out)
  show "status = 0 \<longleftrightarrow> (\<forall>ib \<in> set ?parts. child_passed w deadline s ib)"
    using lint_run_failed [OF run start] inv by (auto simp: lint_inv_def out status)
qed

definition scratch_passed :: "world \<Rightarrow> rat option \<Rightarrow> jsstr list \<Rightarrow> bool" where
  "scratch_passed w deadline files \<longleftrightarrow>
     (\<exists>r. run_command w deadline (ScratchRule files) None True = Inr r \<and> sp_status r = Some 0)"

lemma runScratchRule_passed:
  assumes "runScratchRule w deadline files = Inr (out, status)"
  shows "status = 0 \<longleftrightarrow> scratch_passed w deadline files"
    and "chunk_bytes out \<le> MAX_DIAGNOSTIC_OUTPUT_BYTES" "chunk_lines out \<le> MAX_DIAGNOSTIC_OUTPUT_LINES"
proof -
  from assms obtain r where r: "run_command w deadline (ScratchRule files) None True = Inr r"
    by (auto simp: runScratchRule_def res_bind_Inr_iff)
  let ?em = "emit_unless (sp_stderr r) PrivateLink (emit_unless (sp_stdout r) PrivateLink ([], outputBudget, False))"
  let ?st = "if sp_status r \<noteq> Some 0 then ?em else ([], outputBudget, False)"
  have ok: "out_ok ?st" by (simp add: out_ok_emit out_ok_start)
  obtain b overflow where st: "?st = (out, b, overflow)" and
    status: "status = (if overflow then 2 else case sp_status r of None \<Rightarrow> 2 | Some s \<Rightarrow> s)"
    using assms r by (auto simp: runScratchRule_def Let_def split: prod.splits)
  show "status = 0 \<longleftrightarrow> scratch_passed w deadline files"
    using st status r by (auto simp: scratch_passed_def split: option.splits if_splits)
  show "chunk_bytes out \<le> MAX_DIAGNOSTIC_OUTPUT_BYTES" "chunk_lines out \<le> MAX_DIAGNOSTIC_OUTPUT_LINES"
    using ok out_ok_bounds unfolding st by blast+
qed

lemma fold_named:
  assumes "fold_res (named_step w repo chosen) names files = Inr t"
    and "distinct files" and "set files \<subseteq> set chosen"
  shows "distinct t \<and> set t \<subseteq> set chosen \<and> set t = set files \<union> repo_relative w repo ` set names"
  using assms
proof (induction names arbitrary: files)
  case (Cons n names)
  from Cons.prems(1) have sel: "repo_relative w repo n \<in> set chosen"
    and run: "fold_res (named_step w repo chosen) names
      (if repo_relative w repo n \<in> set files then files else files @ [repo_relative w repo n]) = Inr t"
    by (auto simp: named_step_def [of w repo chosen n] Let_def res_simps split: if_splits)
  from Cons.IH [OF run] Cons.prems(2,3) sel show ?case by (auto simp: image_subset_iff split: if_splits)
qed simp

lemma lint_step_findings:
  assumes "lint_step fs lint file findings = Inr t" and "map fi_order findings = [0..<length findings]"
  shows "map fi_order t = [0..<length t]"
proof -
  obtain source where t: "t = findings @ map (\<lambda>(i, r). \<lparr>fi_result = r, fi_fileName = file, fi_order = i\<rparr>)
         (enumerate (length findings) (lint file source))"
    using assms(1) by (auto simp: lint_step_def res_bind_Inr_iff)
  have "map (\<lambda>x. fi_order ((\<lambda>(i, r). \<lparr>fi_result = r, fi_fileName = file, fi_order = i\<rparr>) x)) (enumerate n rs) = [n..<n + length rs]" for n rs
  proof -
    have "(\<lambda>x. fi_order ((\<lambda>(i, r). \<lparr>fi_result = r, fi_fileName = file, fi_order = i\<rparr>) x)) = fst"
      by (rule ext) (simp add: case_prod_unfold)
    then show ?thesis by (simp only: map_fst_enumerate)
  qed
  then show ?thesis
    using assms(2) upt_add_eq_append [OF le0, of "length findings" "length (lint file source)"]
    by (simp add: t comp_def)
qed

interpretation finding_loop: guarded_loop "lint_step fs lint" "\<lambda>_. True" "\<lambda>t. map fi_order t = [0..<length t]" for fs lint
  by unfold_locales (rule lint_step_findings)

text \<open>What a comparison function promises: opposite signs when swapped, and transitivity.\<close>

definition cmp_ok :: "('a \<Rightarrow> 'a \<Rightarrow> int) \<Rightarrow> bool" where
  "cmp_ok c \<longleftrightarrow>
     (\<forall>x y. c x y < 0 \<longleftrightarrow> 0 < c y x) \<and> (\<forall>x y z. c x y \<le> 0 \<longrightarrow> c y z \<le> 0 \<longrightarrow> c x z \<le> 0)"

lemma cmp_okD: "cmp_ok c \<Longrightarrow> c x y < 0 \<longleftrightarrow> 0 < c y x" "cmp_ok c \<Longrightarrow> c x y \<le> 0 \<Longrightarrow> c y z \<le> 0 \<Longrightarrow> c x z \<le> 0"
  unfolding cmp_ok_def by blast+

lemma cmp_ok_lex:
  assumes "cmp_ok a" and "cmp_ok b"
  shows "cmp_ok (\<lambda>x y. if a x y \<noteq> 0 then a x y else b x y)"
  unfolding cmp_ok_def
proof (intro conjI allI impI)
  fix x y
  show "((if a x y \<noteq> 0 then a x y else b x y) < 0) = (0 < (if a y x \<noteq> 0 then a y x else b y x))"
    using cmp_okD(1) [OF assms(1), of x y] cmp_okD(1) [OF assms(1), of y x] cmp_okD(1) [OF assms(2), of x y] by auto
next
  fix x y z
  assume h: "(if a x y \<noteq> 0 then a x y else b x y) \<le> 0" "(if a y z \<noteq> 0 then a y z else b y z) \<le> 0"
  then have le: "a x y \<le> 0" "a y z \<le> 0" by (auto split: if_splits)
  have xz: "a x z \<le> 0" by (rule cmp_okD(2) [OF assms(1) le])
  show "(if a x z \<noteq> 0 then a x z else b x z) \<le> 0"
  proof (cases "a x z = 0")
    case True
    then have zx: "a z x \<le> 0" using cmp_okD(1) [OF assms(1), of x z] by simp
    have "a y x \<le> 0" "a z y \<le> 0"
      using cmp_okD(2) [OF assms(1) le(2) zx] cmp_okD(2) [OF assms(1) zx le(1)] by simp_all
    then have "a x y = 0" "a y z = 0"
      using le cmp_okD(1) [OF assms(1), of x y] cmp_okD(1) [OF assms(1), of y z] by simp_all
    with h have "b x y \<le> 0" "b y z \<le> 0" by simp_all
    with True show ?thesis by (simp add: cmp_okD(2) [OF assms(2)])
  qed (use xz in simp)
qed

lemma cmp_ok_on: "cmp_ok c \<Longrightarrow> cmp_ok (\<lambda>x y. c (f x) (f y))"
  unfolding cmp_ok_def by blast

lemma cmp_ok_diff: "cmp_ok (\<lambda>x y. int (f x) - int (f y))" "cmp_ok (\<lambda>x y. int (f y) - int (f x))"
  by (auto simp: cmp_ok_def)

lemma cmp_ok_preorder: "cmp_ok c \<Longrightarrow> total_preorder A (\<lambda>x y. c x y \<le> 0)"
proof -
  assume c: "cmp_ok c"
  have "c x y \<le> 0 \<or> c y x \<le> 0" for x y
    using cmp_okD(1) [OF c, of y x] by linarith
  moreover have "c x y \<le> 0 \<longrightarrow> c y z \<le> 0 \<longrightarrow> c x z \<le> 0" for x y z
    using cmp_okD(2) [OF c] by blast
  ultimately show ?thesis unfolding total_preorder_def by (intro conjI ballI)
qed

lemma compareFindings_ok:
  assumes "cmp_ok lc"
  shows "cmp_ok (compareFindings lc)"
  unfolding compareFindings_def Let_def
  by (rule cmp_ok_lex [OF cmp_ok_on [OF assms, of fi_fileName]
        cmp_ok_lex [OF cmp_ok_diff(1) [of "\<lambda>f. lr_lineNumber (fi_result f)"]
          cmp_ok_lex [OF cmp_ok_on [OF assms, of "\<lambda>f. hd (lr_ruleNames (fi_result f))"] cmp_ok_diff(1) [of fi_order]]]])

lemma sized_le_ok:
  assumes "cmp_ok lc"
  shows "total_preorder A (sized_le lc)"
proof -
  have eq: "sized_le lc = (\<lambda>l r. (if int (sz_size r) - int (sz_size l) \<noteq> 0 then int (sz_size r) - int (sz_size l)
      else lc (sz_file l) (sz_file r)) \<le> 0)"
    by (auto simp: sized_le_def fun_eq_iff)
  have "cmp_ok (\<lambda>l r. if int (sz_size r) - int (sz_size l) \<noteq> 0 then int (sz_size r) - int (sz_size l)
      else lc (sz_file l) (sz_file r))"
    by (rule cmp_ok_lex [OF cmp_ok_diff(2) [of sz_size] cmp_ok_on [OF assms, of sz_file]])
  from cmp_ok_preorder [OF this] show ?thesis unfolding eq .
qed

text \<open>The comparison of code units, a comparison function for the witnesses.\<close>

definition unit_compare :: "jsstr \<Rightarrow> jsstr \<Rightarrow> int" where
  "unit_compare a b = (if a < b then - 1 else if a = b then 0 else 1)"

lemma unit_compare_ok: "cmp_ok unit_compare"
  unfolding cmp_ok_def unit_compare_def by (auto split: if_splits)

lemma sorted_take_drop:
  assumes "sorted_wrt le xs" and "x \<in> set (take n xs)" and "y \<in> set (drop n xs)"
  shows "le x y"
proof -
  have "sorted_wrt le (take n xs @ drop n xs)" using assms(1) by simp
  with assms(2,3) show ?thesis unfolding sorted_wrt_append by blast
qed

section \<open>Properties\<close>

text \<open>
  The lint batches cover the style files exactly once, in order; no batch is empty, and the
  paths of a batch stay within \<open>MAX_COMMAND_BYTES\<close> unless it holds a single file.
\<close>

theorem batches_partition:
  "concat (batches files) = take (nat MAX_FILES_CEILING) files \<and>
   length (batches files) \<le> nat MAX_FILES_CEILING \<and>
   list_all (\<lambda>b. b \<noteq> [] \<and> (length b = 1 \<or> sum_list (map (\<lambda>f. byte_length f + 1) b) \<le> MAX_COMMAND_BYTES)) (batches files)"
  using batches_good [of files] length_batches [of files]
  by (auto simp: list_all_iff good_batch_def batch_bytes_def)

text \<open>
  C6. The verdict of a lint run that ends: 0 exactly when every batch was linted by a child that
  exited 0, otherwise 1 or 2; and whatever the children print, the run writes at most
  \<open>MAX_DIAGNOSTIC_OUTPUT_BYTES\<close> bytes and \<open>MAX_DIAGNOSTIC_OUTPUT_LINES\<close> lines.
\<close>

theorem runMarkdownlint_verdict:
  assumes "runMarkdownlint w lc deadline repo files s = Inr (out, status)"
  shows "(status = 0 \<longleftrightarrow> list_all (child_passed w deadline s) (enumerate 0 (batches files))) \<and>
    status \<in> {0, 1, 2} \<and>
    chunk_bytes out \<le> MAX_DIAGNOSTIC_OUTPUT_BYTES \<and> chunk_lines out \<le> MAX_DIAGNOSTIC_OUTPUT_LINES"
  using runMarkdownlint_facts [OF assms] by (simp add: list_all_iff)

lemma sample_entry: "markdownlintEntry sample_world = Inr MARKDOWNLINT_ENTRY"
  by (simp add: markdownlintEntry_def sample_world_def markdownlintLibrary_def MARKDOWNLINT_ENTRY_def)

lemma sample_batches: "batches [js ''a.md''] = [[js ''a.md'']]"
  by (simp add: batches_def batch_step_def MAX_FILES_CEILING_def Let_def)

lemma sample_lint: "runMarkdownlint sample_world unit_compare d (js ''/r'') [js ''a.md''] DEFAULT_SETTINGS = Inr ([], 0)"
proof -
  have c: "command d n t True (w_spawn sample_world (LintBatch i b)) = Inr (exit_zero [])" for n t i b
    by (simp add: command_def sample_world_def exit_zero_def Let_def)
  have st: "lint_batch_step sample_world unit_compare d r DEFAULT_SETTINGS n (i, b) x = Inr \<lparr>ls_failed = ls_failed x, ls_out = ls_out x\<rparr>"
    for r n i b x
    unfolding lint_batch_step_def Let_def prod.case c by (simp add: exit_zero_def)
  show ?thesis
    unfolding runMarkdownlint_def sample_entry res_bind_simps sample_batches Let_def
    by (simp add: st MAX_FILES_CEILING_def)
qed

theorem runMarkdownlint_verdict_witness:
  "runMarkdownlint sample_world unit_compare None (js ''/r'') [js ''a.md''] DEFAULT_SETTINGS = Inr ([], 0) \<and>
   list_all (child_passed sample_world None DEFAULT_SETTINGS) (enumerate 0 (batches [js ''a.md'']))"
  using sample_lint runMarkdownlint_verdict [OF sample_lint] by blast

text \<open>
  A lint child reports every finding of the markdownlint library exactly once, ordered by file,
  line, rule and report order, whatever locale comparison it runs under, and exits 0 exactly when
  there is none.
\<close>

theorem lintChild_reports:
  assumes "lintChild w load config fs lint lc (temporary # files) = Inr (out, status)" and "cmp_ok lc"
  shows "\<exists>rules findings ordered. lintConfiguration load config = Inr rules \<and>
    fold_res (lint_step fs (lint rules)) files [] = Inr findings \<and>
    map fi_order findings = [0..<length findings] \<and>
    mset ordered = mset findings \<and> sorted_wrt (\<lambda>l r. compareFindings lc l r \<le> 0) ordered \<and>
    out = concat (map (\<lambda>f. lintFinding f @ [10]) ordered) \<and> (status = 0 \<longleftrightarrow> findings = []) \<and> status \<in> {0, 1}"
proof -
  from assms(1) obtain rules findings where
    rules: "lintConfiguration load config = Inr rules" and
    run: "fold_res (lint_step fs (lint rules)) files [] = Inr findings" and
    out: "out = concat (map (\<lambda>f. lintFinding f @ [10]) (sort_by (\<lambda>l r. compareFindings lc l r \<le> 0) findings))" and
    status: "status = (if findings = [] then 0 else 1)"
    by (auto simp: lintChild_def res_simps Let_def)
  have order: "map fi_order findings = [0..<length findings]"
    by (rule finding_loop.run_inv [OF _ _ run]) simp_all
  have "sorted_wrt (\<lambda>l r. compareFindings lc l r \<le> 0) (sort_by (\<lambda>l r. compareFindings lc l r \<le> 0) findings)"
    by (rule sorted_sort_by [OF cmp_ok_preorder [OF compareFindings_ok [OF assms(2)]], of _ UNIV]) simp
  with rules run out status order show ?thesis
    by (intro exI [of _ rules] exI [of _ findings] exI [of _ "sort_by (\<lambda>l r. compareFindings lc l r \<le> 0) findings"]) simp
qed

theorem lintChild_reports_witness:
  "\<exists>rules. lintConfiguration (\<lambda>_. Some (YMap [(js ''config'', YMap [])])) [] = Inr rules"
proof -
  let ?load = "\<lambda>_. Some (YMap [(js ''config'', YMap [])])"
  have h: "lintChild sample_world ?load [] (\<lambda>_. \<lparr>sf_open = None, sf_lstat = None\<rparr>) (\<lambda>_ _ _. []) unit_compare [[]] = Inr ([], 0)"
    by (simp add: lintChild_def sample_entry lintConfiguration_def LINT_CONFIG_KEYS_def lift_error_def MAX_FILES_CEILING_def Let_def)
  from lintChild_reports [OF h unit_compare_ok] show ?thesis by blast
qed

text \<open>
  A ref that \<open>--changed-since\<close> accepts is safe to place in a git command line: it is not empty, at
  most 256 units, never begins with a dash (so git cannot read it as an option), holds no white
  space, control unit or colon, and no range (\<open>..\<close>) of its own.
\<close>

theorem validChangedSinceRef_safe:
  assumes "validChangedSinceRef ref"
  shows "ref \<noteq> [] \<and> length ref \<le> MAX_REF_BYTES \<and> hd ref \<noteq> cu CHR ''-'' \<and>
    list_all (\<lambda>c. 32 < c \<and> c < 127 \<and> c \<noteq> cu CHR '':'') ref \<and> \<not> js_includes ref (js ''..'')"
proof -
  obtain c cs where ref: "ref = c # cs" and c: "ref_first c" and cs: "list_all ref_unit cs"
    using assms by (auto simp: validChangedSinceRef_def REF_PATTERN_def split: list.splits)
  have unit: "ref_unit d \<Longrightarrow> 32 < d \<and> d < 127 \<and> d \<noteq> 58" for d
    by (auto simp: ref_unit_def ref_first_def)
  have "list_all (\<lambda>c. 32 < c \<and> c < 127 \<and> c \<noteq> 58) cs"
    by (rule list.pred_mono_strong [OF cs]) (use unit in blast)
  moreover have "length ref \<le> MAX_REF_BYTES"
    using assms length_le_byte_length [of ref] by (simp add: validChangedSinceRef_def)
  ultimately show ?thesis
    using c assms by (auto simp: ref ref_first_def validChangedSinceRef_def INVALID_REF_PART_def)
qed

theorem validChangedSinceRef_safe_witness:
  "validChangedSinceRef (js ''origin/main'') \<and> hd (js ''origin/main'') \<noteq> cu CHR ''-''"
proof -
  have h: "validChangedSinceRef (js ''origin/main'')"
    by (simp add: validChangedSinceRef_def REF_PATTERN_def INVALID_REF_PART_def ref_first_def ref_unit_def
        js_includes_def js_ends_def byte_length_def point_bytes_def high_surrogate_def MAX_REF_BYTES_def)
  from h validChangedSinceRef_safe [OF h] show ?thesis by blast
qed

text \<open>
  \<open>--only\<close> lints nothing the gate would not: the files it resolves are distinct, are exactly the
  repository paths of the names given, and each is a style-selected file of the inventory.
\<close>

theorem namedStyleFiles_selected:
  assumes "namedStyleFiles w deadline repo s named = Inr files"
  shows "\<exists>tracked sel. inventory w deadline repo s = Inr tracked \<and>
    styleSelection (w_unicode w) tracked s (w_windows w) = Inr sel \<and> set files \<subseteq> set (styled sel) \<and>
    distinct files \<and> set files = repo_relative w repo ` set named"
proof -
  from assms obtain tracked sel where
    i: "inventory w deadline repo s = Inr tracked" and
    s: "styleSelection (w_unicode w) tracked s (w_windows w) = Inr sel" and
    n: "int (length named) \<le> MAX_FILES_CEILING" and
    f: "fold_res (named_step w repo (styled sel)) (take (nat MAX_FILES_CEILING) named) [] = Inr files"
    by (auto simp: namedStyleFiles_def res_simps)
  have "take (nat MAX_FILES_CEILING) named = named" using n by simp
  with fold_named [OF f] i s show ?thesis by auto
qed

lemma sample_selection:
  "styleSelection (w_unicode sample_world) [js ''a.md''] DEFAULT_SETTINGS (w_windows sample_world) =
     Inr \<lparr>styled = [js ''a.md''], sel_excluded = 0, counts = []\<rparr>"
  by (simp add: styleSelection_def matchers_of_def DEFAULT_SETTINGS_def selection_step_def isStyleSelected_def
      MARKDOWN_SUFFIXES_def STYLE_EXCLUDED_FILES_def STYLE_EXCLUDED_PREFIXES_def js_ends_def lower_unit_def
      MAX_STYLE_EXCLUSIONS_def MAX_FILES_CEILING_def Let_def)

theorem namedStyleFiles_selected_witness:
  "namedStyleFiles sample_world None (js ''/r'') DEFAULT_SETTINGS [js ''./a.md''] = Inr [js ''a.md''] \<and>
   {js ''a.md''} = repo_relative sample_world (js ''/r'') ` {js ''./a.md''}"
proof -
  have r: "repo_relative sample_world (js ''/r'') (js ''./a.md'') = js ''a.md''"
    by (simp add: repo_relative_def sample_world_def path_relative_def path_resolve_def abs_path_def path_parts_def
        norm_parts_def norm_step_def is_absolute_def dot_seg_def dotdot_seg_def Let_def)
  have h: "namedStyleFiles sample_world None (js ''/r'') DEFAULT_SETTINGS [js ''./a.md''] = Inr [js ''a.md'']"
    unfolding namedStyleFiles_def sample_inventory res_bind_simps sample_selection
    using r by (simp add: lift_error_def named_step_def MAX_FILES_CEILING_def Let_def)
  from h namedStyleFiles_selected [OF h] show ?thesis by auto
qed

text \<open>
  C7. The selection of a \<open>--changed-since\<close> run is the whole-tree selection cut down to the changed
  files: a changed file is styled exactly when the whole tree would style it, and the reported
  exclusions are the changed files that a declared glob removed, never a negative number.
\<close>

theorem changedStyleSelection_restricts:
  assumes "settings_ok U s" and "matchers_of U windows s = Inr ms" and "length allFiles \<le> nat MAX_FILES_CEILING"
    and "changedStyleSelection U allFiles (filter (\<lambda>f. f \<in> set paths) allFiles) s windows = Inr (kept, excl, cs)"
  shows "kept = filter (\<lambda>f. isStyleSelected f \<and> \<not> excluded_by ms f) (filter (\<lambda>f. f \<in> set paths) allFiles) \<and>
    excl = int (length (filter (\<lambda>f. isStyleSelected f \<and> excluded_by ms f) (filter (\<lambda>f. f \<in> set paths) allFiles)))"
proof -
  let ?changed = "filter (\<lambda>f. f \<in> set paths) allFiles"
  have kept: "kept = filter (\<lambda>f. f \<in> set ?changed) (filter (\<lambda>f. \<not> excluded_by ms f) (filter isStyleSelected allFiles))"
    and excl: "excl = int (length (filter isStyleSelected ?changed)) - int (length kept)"
    using assms(4) unfolding changedStyleSelection_def styleSelection_value [OF assms(1-3)]
    by (auto simp: Let_def split: if_splits)
  have k: "kept = filter (\<lambda>f. isStyleSelected f \<and> \<not> excluded_by ms f) ?changed"
    unfolding kept filter_filter by (rule filter_cong) auto
  have "length (filter isStyleSelected ?changed) =
      length (filter (\<lambda>f. isStyleSelected f \<and> \<not> excluded_by ms f) ?changed) +
      length (filter (\<lambda>f. isStyleSelected f \<and> excluded_by ms f) ?changed)"
    by (induction allFiles) auto
  with k excl show ?thesis by simp
qed

theorem changedStyleSelection_restricts_witness:
  "changedStyleSelection ascii_unicode [js ''a.md''] (filter (\<lambda>f. f \<in> set [js ''a.md'']) [js ''a.md'']) DEFAULT_SETTINGS False =
     Inr ([js ''a.md''], 0, []) \<and>
   [js ''a.md''] = filter (\<lambda>f. isStyleSelected f \<and> \<not> excluded_by [] f) (filter (\<lambda>f. f \<in> set [js ''a.md'']) [js ''a.md''])"
proof -
  have u: "w_unicode sample_world = ascii_unicode" "w_windows sample_world = False" by (simp_all add: sample_world_def)
  have sel: "isStyleSelected (js ''a.md'')"
    by (simp add: isStyleSelected_def MARKDOWN_SUFFIXES_def STYLE_EXCLUDED_FILES_def STYLE_EXCLUDED_PREFIXES_def
        js_ends_def lower_unit_def Let_def)
  have m: "matchers_of ascii_unicode False DEFAULT_SETTINGS = Inr []" by (simp add: matchers_of_def DEFAULT_SETTINGS_def)
  have n: "length [js ''a.md''] \<le> nat MAX_FILES_CEILING" by (simp add: MAX_FILES_CEILING_def)
  have h: "changedStyleSelection ascii_unicode [js ''a.md''] (filter (\<lambda>f. f \<in> set [js ''a.md'']) [js ''a.md'']) DEFAULT_SETTINGS False =
     Inr ([js ''a.md''], 0, [])"
    unfolding changedStyleSelection_def sample_selection [unfolded u] res_bind_simps Let_def
    using sel by simp
  from h changedStyleSelection_restricts [OF default_settings_ok m n h] show ?thesis by blast
qed

text \<open>
  The report on a stopped lint batch names its largest files: at most five suspects, and no file
  of the batch left out is larger than one that is named.
\<close>

theorem suspects_largest:
  assumes "cmp_ok lc"
  shows "\<exists>rest. mset (suspects_of w lc repo batch @ rest) = mset (batch_sizes w repo batch) \<and>
    length (suspects_of w lc repo batch) \<le> MAX_BUDGET_SUSPECTS \<and>
    (\<forall>x \<in> set (suspects_of w lc repo batch). \<forall>y \<in> set rest. sz_size y \<le> sz_size x)"
proof -
  let ?all = "sort_by (sized_le lc) (batch_sizes w repo batch)"
  let ?rest = "drop MAX_BUDGET_SUSPECTS ?all"
  have sorted: "sorted_wrt (sized_le lc) ?all" by (rule sorted_sort_by [OF sized_le_ok [OF assms], of _ UNIV]) simp
  have "suspects_of w lc repo batch @ ?rest = ?all" by (simp add: suspects_of_def)
  then have "mset (suspects_of w lc repo batch @ ?rest) = mset (batch_sizes w repo batch)" by (simp only: mset_sort_by)
  moreover have "sz_size y \<le> sz_size x" if "x \<in> set (suspects_of w lc repo batch)" "y \<in> set ?rest" for x y
    using sorted_take_drop [OF sorted that [unfolded suspects_of_def]] by (simp add: sized_le_def split: if_splits)
  moreover have "length (suspects_of w lc repo batch) \<le> MAX_BUDGET_SUSPECTS" by (simp add: suspects_of_def)
  ultimately show ?thesis by blast
qed

theorem suspects_largest_witness:
  "cmp_ok unit_compare \<and> length (suspects_of sample_world unit_compare (js ''/r'') [js ''a.md'']) \<le> MAX_BUDGET_SUSPECTS"
  using unit_compare_ok suspects_largest [OF unit_compare_ok, of sample_world "js ''/r''" "[js ''a.md'']"] by blast

end
