(* ===== verification/GateFixtures.thy ===== *)
theory GateFixtures
  imports GateSettings
begin

text \<open>
  The fixtures that the gate's self test holds the glob matcher to (\<^verbatim>\<open>src/tools/markdownlint/verify.mjs\<close>,
  \<open>LITERAL_STYLE_PATHS\<close> to \<open>styleExclusionCharacterSelfTest\<close>, and the selections of \<open>styleExclusionSelfTest\<close>): for each
  pattern the paths that micromatch 4.0.8 matched, and the shapes that are refused with their reason. The theorem
  evaluates the model of the matcher on all of them. The Unicode classes are those of the characters the fixtures use.
\<close>

section \<open>The tables\<close>








section \<open>The tests\<close>














section \<open>Evaluation\<close>

























end
