(* ===== verification/WhatwgURL.thy ===== *)
theory WhatwgURL
  imports NodePath
begin

text \<open>
  The parts of JavaScript's \<open>URL\<close>, \<open>encodeURIComponent\<close> and \<open>decodeURIComponent\<close> the tools use, after the
  WHATWG URL standard: resolving a string against an \<open>https\<close> base and reading \<open>protocol\<close>, \<open>origin\<close> and
  \<open>pathname\<close>. The callers distinguish three outcomes only: a \<open>file:\<close> URL, a URL of the base's own origin,
  and everything else (another origin, an opaque URL, or a parse failure), so these are the outcomes of the
  model. Host names go through a host parser (IDNA and IP addresses), which is a parameter; a relative
  reference never consults it.
\<close>

section \<open>Code units and percent-encoding\<close>

definition is_alpha :: "nat \<Rightarrow> bool" where
  "is_alpha c \<longleftrightarrow> 65 \<le> c \<and> c \<le> 90 \<or> 97 \<le> c \<and> c \<le> 122"

definition is_dec :: "nat \<Rightarrow> bool" where "is_dec c \<longleftrightarrow> 48 \<le> c \<and> c \<le> 57"

definition is_hex :: "nat \<Rightarrow> bool" where
  "is_hex c \<longleftrightarrow> is_dec c \<or> 65 \<le> c \<and> c \<le> 70 \<or> 97 \<le> c \<and> c \<le> 102"

definition hex_value :: "nat \<Rightarrow> nat" where
  "hex_value c = (if is_dec c then c - 48 else if c \<le> 70 then c - 55 else c - 87)"

definition hex_upper :: "nat \<Rightarrow> nat" where
  "hex_upper n = (if n < 10 then 48 + n else 55 + n)"

text \<open>\<open>toWellFormed\<close>: a lone surrogate becomes U+FFFD, as in any conversion to UTF-8.\<close>

definition to_well_formed :: "jsstr \<Rightarrow> jsstr" where
  "to_well_formed s =
     concat (map (\<lambda>p. if high_surrogate p \<or> low_surrogate p then [0xFFFD] else from_code_point p) (code_points s))"

definition well_formed :: "jsstr \<Rightarrow> bool" where
  "well_formed s \<longleftrightarrow> list_all (\<lambda>p. \<not> high_surrogate p \<and> \<not> low_surrogate p) (code_points s)"

definition utf8_point :: "nat \<Rightarrow> nat list" where
  "utf8_point p =
     (if p < 0x80 then [p]
      else if p < 0x800 then [0xC0 + p div 64, 0x80 + p mod 64]
      else if p < 0x10000 then [0xE0 + p div 4096, 0x80 + p div 64 mod 64, 0x80 + p mod 64]
      else [0xF0 + p div 262144, 0x80 + p div 4096 mod 64, 0x80 + p div 64 mod 64, 0x80 + p mod 64])"

definition percent_byte :: "nat \<Rightarrow> jsstr" where
  "percent_byte b = [37, hex_upper (b div 16), hex_upper (b mod 16)]"

definition percent_encode :: "(nat \<Rightarrow> bool) \<Rightarrow> jsstr \<Rightarrow> jsstr" where
  "percent_encode in_set s =
     concat (map (\<lambda>p. if in_set p then concat (map percent_byte (utf8_point p)) else from_code_point p) (code_points s))"

text \<open>The path percent-encode set.\<close>

definition path_encode_set :: "nat \<Rightarrow> bool" where
  "path_encode_set p \<longleftrightarrow> p \<le> 32 \<or> p > 126 \<or> p \<in> {34, 35, 60, 62, 63, 94, 96, 123, 125}"

text \<open>\<open>encodeURIComponent\<close>: a lone surrogate throws.\<close>

definition component_kept :: "nat \<Rightarrow> bool" where
  "component_kept p \<longleftrightarrow> is_alpha p \<or> is_dec p \<or> p \<in> {45, 95, 46, 33, 126, 42, 39, 40, 41}"

definition encodeURIComponent :: "jsstr \<Rightarrow> jsstr option" where
  "encodeURIComponent s = (if well_formed s then Some (percent_encode (\<lambda>p. \<not> component_kept p) s) else None)"

section \<open>Paths\<close>

definition is_slash :: "nat \<Rightarrow> bool" where "is_slash c \<longleftrightarrow> c = 47 \<or> c = 92"
definition ends_path :: "nat \<Rightarrow> bool" where "ends_path c \<longleftrightarrow> c = 63 \<or> c = 35"

text \<open>The segments between the slashes; both slashes separate in a special URL.\<close>

fun split_slashes :: "jsstr \<Rightarrow> jsstr list" where
  "split_slashes [] = [[]]"
| "split_slashes (c # s) =
     (if is_slash c then [] # split_slashes s
      else (case split_slashes s of [] \<Rightarrow> [[c]] | x # xs \<Rightarrow> (c # x) # xs))"

definition ascii_lower :: "jsstr \<Rightarrow> jsstr" where
  "ascii_lower s = map (\<lambda>c. if 65 \<le> c \<and> c \<le> 90 then c + 32 else c) s"

definition is_single_dot :: "jsstr \<Rightarrow> bool" where
  "is_single_dot s \<longleftrightarrow> ascii_lower s \<in> set [js ''.'', js ''%2e'']"

definition is_double_dot :: "jsstr \<Rightarrow> bool" where
  "is_double_dot s \<longleftrightarrow> ascii_lower s \<in> set [js ''..'', js ''.%2e'', js ''%2e.'', js ''%2e%2e'']"

definition url_drive :: "jsstr \<Rightarrow> bool" where
  "url_drive s \<longleftrightarrow> (case s of [a, b] \<Rightarrow> is_alpha a \<and> (b = 58 \<or> b = 124) | _ \<Rightarrow> False)"

definition normal_drive :: "jsstr \<Rightarrow> bool" where
  "normal_drive s \<longleftrightarrow> url_drive s \<and> last s = 58"

definition shorten :: "bool \<Rightarrow> jsstr list \<Rightarrow> jsstr list" where
  "shorten file path =
     (if file \<and> length path = 1 \<and> normal_drive (hd path) then path else butlast path)"

definition path_segment :: "bool \<Rightarrow> bool \<Rightarrow> jsstr \<Rightarrow> jsstr list \<Rightarrow> jsstr list" where
  "path_segment file is_last seg path =
     (let buffer = percent_encode path_encode_set seg in
      if is_double_dot buffer then shorten file path @ (if is_last then [[]] else [])
      else if is_single_dot buffer then path @ (if is_last then [[]] else [])
      else if file \<and> path = [] \<and> url_drive buffer then path @ [[hd buffer, 58]]
      else path @ [buffer])"

fun path_state :: "bool \<Rightarrow> jsstr list \<Rightarrow> jsstr list \<Rightarrow> jsstr list" where
  "path_state file [] path = path"
| "path_state file [seg] path = path_segment file True seg path"
| "path_state file (seg # t # segs) path = path_state file (t # segs) (path_segment file False seg path)"

definition url_path :: "bool \<Rightarrow> jsstr list \<Rightarrow> jsstr \<Rightarrow> jsstr list" where
  "url_path file path rest = path_state file (split_slashes (takeWhile (\<lambda>c. \<not> ends_path c) rest)) path"

text \<open>The path start state: one slash is skipped.\<close>

definition start_path :: "bool \<Rightarrow> jsstr \<Rightarrow> jsstr list" where
  "start_path file rest =
     url_path file [] (case rest of [] \<Rightarrow> [] | c # r \<Rightarrow> if is_slash c then r else rest)"

definition pathname_of :: "jsstr list \<Rightarrow> jsstr" where
  "pathname_of path = concat (map (\<lambda>seg. SLASH # seg) path)"

section \<open>URLs against an https base\<close>

datatype url_view =
    FileURL jsstr
  | SiteURL jsstr
  | OtherURL

text \<open>Leading and trailing C0 controls and spaces are stripped, tabs and line ends removed.\<close>

definition url_clean :: "jsstr \<Rightarrow> jsstr" where
  "url_clean s =
     filter (\<lambda>c. c \<noteq> 9 \<and> c \<noteq> 10 \<and> c \<noteq> 13)
       (rev (dropWhile (\<lambda>c. c \<le> 32) (rev (dropWhile (\<lambda>c. c \<le> 32) s))))"

definition scheme_unit :: "nat \<Rightarrow> bool" where
  "scheme_unit c \<longleftrightarrow> is_alpha c \<or> is_dec c \<or> c = 43 \<or> c = 45 \<or> c = 46"

definition url_scheme :: "jsstr \<Rightarrow> (jsstr \<times> jsstr) option" where
  "url_scheme s =
     (let name = takeWhile scheme_unit s; rest = dropWhile scheme_unit s in
      case rest of
        c # after \<Rightarrow> if c = 58 \<and> name \<noteq> [] \<and> is_alpha (hd name) then Some (ascii_lower name, after) else None
      | [] \<Rightarrow> None)"

text \<open>The host and the port of an authority: after the last \<open>@\<close>, up to a colon outside brackets.\<close>

fun host_end :: "bool \<Rightarrow> jsstr \<Rightarrow> nat" where
  "host_end inBrackets [] = 0"
| "host_end inBrackets (c # s) =
     (if c = 58 \<and> \<not> inBrackets then 0
      else Suc (host_end (if c = 91 then True else if c = 93 then False else inBrackets) s))"

definition after_at :: "jsstr \<Rightarrow> jsstr" where
  "after_at s = (if 64 \<in> set s then rev (takeWhile (\<lambda>c. c \<noteq> 64) (rev s)) else s)"

fun port_value :: "nat \<Rightarrow> jsstr \<Rightarrow> nat" where
  "port_value n [] = n"
| "port_value n (c # s) = port_value (n * 10 + (c - 48)) s"

text \<open>\<open>https://authority/path\<close>: the base's own origin needs its host and the default port.\<close>

definition authority_url :: "(jsstr \<Rightarrow> jsstr option) \<Rightarrow> jsstr \<Rightarrow> jsstr \<Rightarrow> url_view" where
  "authority_url host_parser site rest =
     (let after = dropWhile is_slash rest;
          auth = takeWhile (\<lambda>c. \<not> is_slash c \<and> \<not> ends_path c) after;
          hp = after_at auth; n = host_end False hp; host = take n hp; port = drop (Suc n) hp in
      if host = [] \<or> \<not> list_all is_dec port then OtherURL
      else if host_parser host = Some site \<and> (port = [] \<or> port_value 0 port = 443)
      then SiteURL (pathname_of (start_path False (drop (length auth) after)))
      else OtherURL)"

definition relative_url :: "(jsstr \<Rightarrow> jsstr option) \<Rightarrow> jsstr \<Rightarrow> jsstr list \<Rightarrow> jsstr \<Rightarrow> url_view" where
  "relative_url host_parser site base s =
     (case s of
        [] \<Rightarrow> SiteURL (pathname_of base)
      | c # r \<Rightarrow>
          if is_slash c then
            (case r of
               d # r' \<Rightarrow> if is_slash d then authority_url host_parser site r' else SiteURL (pathname_of (url_path False [] r))
             | [] \<Rightarrow> SiteURL (pathname_of (url_path False [] r)))
          else if ends_path c then SiteURL (pathname_of base)
          else SiteURL (pathname_of (url_path False (butlast base) s)))"

definition file_host_url :: "(jsstr \<Rightarrow> jsstr option) \<Rightarrow> jsstr \<Rightarrow> url_view" where
  "file_host_url host_parser s =
     (let host = takeWhile (\<lambda>c. \<not> is_slash c \<and> \<not> ends_path c) s; rest = drop (length host) s in
      if url_drive host then FileURL (pathname_of (url_path True [] s))
      else if host = [] then FileURL (pathname_of (start_path True rest))
      else if host_parser host = None then OtherURL
      else FileURL (pathname_of (start_path True rest)))"

definition file_url :: "(jsstr \<Rightarrow> jsstr option) \<Rightarrow> jsstr \<Rightarrow> url_view" where
  "file_url host_parser rest =
     (case rest of
        c # r \<Rightarrow>
          if is_slash c then
            (case r of
               d # r' \<Rightarrow> if is_slash d then file_host_url host_parser r' else FileURL (pathname_of (url_path True [] r))
             | [] \<Rightarrow> FileURL (pathname_of (url_path True [] r)))
          else FileURL (pathname_of (url_path True [] rest))
      | [] \<Rightarrow> FileURL (pathname_of (url_path True [] rest)))"

definition resolve_url :: "(jsstr \<Rightarrow> jsstr option) \<Rightarrow> jsstr \<Rightarrow> jsstr list \<Rightarrow> jsstr \<Rightarrow> url_view" where
  "resolve_url host_parser site base input =
     (let s = url_clean (to_well_formed input) in
      case url_scheme s of
        None \<Rightarrow> relative_url host_parser site base s
      | Some (scheme, rest) \<Rightarrow>
          if scheme = js ''file'' then file_url host_parser rest
          else if scheme = js ''https'' then
            (if js_starts rest (js ''//'') then authority_url host_parser site (drop 2 rest)
             else relative_url host_parser site base rest)
          else OtherURL)"

end
