(* ===== verification/ScratchURL.thy ===== *)
theory ScratchURL
  imports WhatwgURL
begin

text \<open>
  How the private-scratch-link rule (\<^verbatim>\<open>src/tools/markdownlint/no-private-scratch-links.mjs\<close>) decides
  that a link destination reaches a scratch directory: decoding the destination, resolving it against
  the source file as a URL of a synthetic origin, and reading the first part of the resolved path.
  The HTML parser (\<open>parse5\<close>) and the host parser of \<open>URL\<close> are parameters.
\<close>

section \<open>What the HTML parser returns\<close>

text \<open>
  A node of a parsed fragment: \<open>nodeName\<close>, \<open>tagName\<close>, \<open>value\<close>, \<open>attrs\<close> as names and values, the start line
  of each attribute and of the node in \<open>sourceCodeLocation\<close>, \<open>childNodes\<close> and the children of \<open>content\<close>.
\<close>

datatype html_node =
  HtmlNode (nd_name: jsstr) (nd_tag: "jsstr option") (nd_value: "jsstr option")
    (nd_attrs: "(jsstr \<times> jsstr) list") (nd_locations: "(jsstr \<times> nat) list") (nd_line: "nat option")
    (nd_children: "html_node list option") (nd_content: "html_node list")

type_synonym fragment_parser = "jsstr \<Rightarrow> html_node list"

section \<open>Destinations\<close>

definition SCRATCH_ROOT_NAMES :: "jsstr list" where
  "SCRATCH_ROOT_NAMES = [js ''.workingdir'', js ''.workingdir2'']"

definition SYNTHETIC_HOST :: jsstr where "SYNTHETIC_HOST = js ''praetor-markdown.invalid''"
definition SYNTHETIC_SEGMENT :: jsstr where "SYNTHETIC_SEGMENT = js ''__praetor_repository__''"
definition SYNTHETIC_REPOSITORY_PATH :: jsstr where
  "SYNTHETIC_REPOSITORY_PATH = [SLASH] @ SYNTHETIC_SEGMENT @ [SLASH]"

definition ascii_punctuation :: "nat \<Rightarrow> bool" where
  "ascii_punctuation c \<longleftrightarrow> 33 \<le> c \<and> c \<le> 47 \<or> 58 \<le> c \<and> c \<le> 64 \<or> 91 \<le> c \<and> c \<le> 96 \<or> 123 \<le> c \<and> c \<le> 126"

text \<open>The backslash escapes of Markdown removed.\<close>

fun markdown_unescape :: "jsstr \<Rightarrow> jsstr" where
  "markdown_unescape [] = []"
| "markdown_unescape [c] = [c]"
| "markdown_unescape (c # d # s) =
     (if c = 92 \<and> ascii_punctuation d then d # markdown_unescape s else c # markdown_unescape (d # s))"

definition markdownDestinationString :: "fragment_parser \<Rightarrow> jsstr \<Rightarrow> bool \<Rightarrow> jsstr" where
  "markdownDestinationString pf content markdownEscapes =
     (let decoded = (if markdownEscapes then markdown_unescape content else content);
          safe = replace_unit 62 (js ''&gt;'') (replace_unit 60 (js ''&lt;'') decoded) in
      case pf (js ''<span>'' @ safe @ js ''</span>'') of
        [] \<Rightarrow> decoded
      | span # _ \<Rightarrow>
          (case nd_children span of
             None \<Rightarrow> decoded
           | Some nodes \<Rightarrow> concat (map (\<lambda>n. case nd_value n of None \<Rightarrow> [] | Some v \<Rightarrow> v) nodes)))"

definition preprocessURLInput :: "jsstr \<Rightarrow> jsstr" where
  "preprocessURLInput content =
     filter (\<lambda>c. c \<noteq> 9 \<and> c \<noteq> 10 \<and> c \<noteq> 13)
       (rev (dropWhile (\<lambda>c. c \<le> 32) (rev (dropWhile (\<lambda>c. c \<le> 32) content))))"

function decodeASCIITriplets :: "jsstr \<Rightarrow> jsstr" where
  "decodeASCIITriplets s =
     (case s of
        [] \<Rightarrow> []
      | c # r \<Rightarrow>
          (case r of
             a # b # t \<Rightarrow>
               if c = 37 \<and> is_hex a \<and> is_hex b \<and> hex_value a * 16 + hex_value b \<le> 127
               then (hex_value a * 16 + hex_value b) # decodeASCIITriplets t
               else c # decodeASCIITriplets r
           | _ \<Rightarrow> c # decodeASCIITriplets r))"
  by pat_completeness auto
termination
  by (relation "measure length") auto

declare decodeASCIITriplets.simps [simp del]

text \<open>\<open>sourceURL\<close>: the path of the base URL, or \<open>None\<close> where \<open>encodeURIComponent\<close> throws.\<close>

definition sourceURL :: "jsstr \<Rightarrow> jsstr list option" where
  "sourceURL source =
     (let segments = map encodeURIComponent (path_parts (replace_unit 92 [SLASH] source)) in
      if None \<in> set segments then None
      else Some (url_path False [] (tl (SYNTHETIC_REPOSITORY_PATH @ js_join [SLASH] (map the segments)))))"

record resolution =
  rs_root :: jsstr
  rs_resolved :: jsstr

definition scratchResolution :: "jsstr \<Rightarrow> bool \<Rightarrow> resolution option" where
  "scratchResolution pathname anywhere =
     (let portable = path_normalize (replace_unit 92 [SLASH] (decodeASCIITriplets pathname));
          parts = path_parts portable;
          candidates = (if anywhere then parts else take 1 parts) in
      map_option (\<lambda>r. \<lparr>rs_root = r, rs_resolved = dropWhile (\<lambda>c. c = SLASH) portable\<rparr>)
        (find (\<lambda>part. part \<in> set SCRATCH_ROOT_NAMES) (map js_lower candidates)))"

definition drive_path :: "jsstr \<Rightarrow> bool" where
  "drive_path s \<longleftrightarrow> (case s of a # b # c # _ \<Rightarrow> is_alpha a \<and> b = 58 \<and> is_slash c | _ \<Rightarrow> False)"

definition resolveURLDestination :: "(jsstr \<Rightarrow> jsstr option) \<Rightarrow> jsstr \<Rightarrow> jsstr \<Rightarrow> resolution option" where
  "resolveURLDestination host_parser source content =
     (let cleaned = preprocessURLInput content;
          candidate =
            (if js_starts cleaned [92, 92] then js ''file:'' @ replace_unit 92 [SLASH] cleaned
             else if drive_path cleaned then js ''file:///'' @ replace_unit 92 [SLASH] cleaned
             else cleaned) in
      if cleaned = [] then None
      else
        (case sourceURL source of
           None \<Rightarrow> None
         | Some base \<Rightarrow>
             (case resolve_url host_parser SYNTHETIC_HOST base candidate of
                OtherURL \<Rightarrow> None
              | FileURL pathname \<Rightarrow> scratchResolution pathname True
              | SiteURL raw \<Rightarrow>
                  (let pathname = replace_unit 92 [SLASH] (decodeASCIITriplets raw) in
                   if js_starts pathname SYNTHETIC_REPOSITORY_PATH
                   then scratchResolution (drop (length SYNTHETIC_REPOSITORY_PATH) pathname) False
                   else if js_starts candidate [SLASH] then scratchResolution pathname True else None))))"

datatype link_context = MarkdownLink | HtmlLink | SnippetPath | MdxProperty

text \<open>The first of the candidates that resolves to a scratch root, as the loop tries them.\<close>

definition candidate_resolution ::
  "(jsstr \<Rightarrow> jsstr option) \<Rightarrow> jsstr \<Rightarrow> link_context \<Rightarrow> jsstr \<Rightarrow> resolution option" where
  "candidate_resolution host_parser source cx candidate =
     (case resolveURLDestination host_parser source candidate of
        Some r \<Rightarrow> Some r
      | None \<Rightarrow>
          if cx = SnippetPath \<or> cx = MdxProperty
          then resolveURLDestination host_parser (js ''README.md'') candidate else None)"

fun first_resolution :: "('a \<Rightarrow> 'b option) \<Rightarrow> 'a list \<Rightarrow> 'b option" where
  "first_resolution f [] = None"
| "first_resolution f (x # xs) = (case f x of Some r \<Rightarrow> Some r | None \<Rightarrow> first_resolution f xs)"

definition forbiddenResolution ::
  "fragment_parser \<Rightarrow> (jsstr \<Rightarrow> jsstr option) \<Rightarrow> jsstr \<Rightarrow> jsstr \<Rightarrow> link_context \<Rightarrow> resolution option" where
  "forbiddenResolution pf host_parser source destination cx =
     first_resolution (candidate_resolution host_parser source cx)
       (if cx = MarkdownLink
        then [markdownDestinationString pf destination True, markdownDestinationString pf destination False]
        else [destination])"

section \<open>Lemmas: a plain relative reference\<close>

text \<open>Segments of letters, digits and the marks that no URL parser rewrites; dot segments included.\<close>

definition kept_seg :: "jsstr \<Rightarrow> bool" where
  "kept_seg s \<longleftrightarrow> s \<noteq> [] \<and> list_all component_kept s"

lemma component_kept_facts:
  assumes "component_kept c"
  shows "32 < c" "c < 128" "c \<noteq> 37" "c \<noteq> 47" "c \<noteq> 92" "c \<noteq> 58" "\<not> ends_path c" "\<not> is_slash c" "\<not> path_encode_set c"
  using assms by (auto simp: component_kept_def is_alpha_def is_dec_def ends_path_def is_slash_def path_encode_set_def)

definition plain_text :: "jsstr \<Rightarrow> bool" where
  "plain_text s \<longleftrightarrow> list_all (\<lambda>c. component_kept c \<or> c = SLASH) s"

lemma plain_text_facts:
  assumes "plain_text s" and "c \<in> set s"
  shows "32 < c" "c < 128" "c \<noteq> 37" "c \<noteq> 92" "c \<noteq> 58" "\<not> ends_path c"
  using assms component_kept_facts [of c]
  by (auto simp: plain_text_def list_all_iff ends_path_def)

lemma plain_text_join: "\<forall>s \<in> set xs. list_all component_kept s \<Longrightarrow> plain_text (js_join [SLASH] xs)"
proof (induction xs)
  case (Cons x xs)
  then have x: "list_all component_kept x" and xs: "plain_text (js_join [SLASH] xs)" by auto
  show ?case
  proof (cases "xs = []")
    case True
    with x show ?thesis by (auto simp: plain_text_def list_all_iff)
  next
    case False
    with x xs show ?thesis by (auto simp: js_join_Cons plain_text_def list_all_iff)
  qed
qed (simp add: plain_text_def)

lemma code_points_ascii: "\<forall>c \<in> set s. c < 128 \<Longrightarrow> code_points s = s"
  by (induction s rule: code_points.induct) (auto simp: high_surrogate_def)

lemma concat_map_points:
  assumes "\<forall>c \<in> set s. c < 128" and "\<And>c. c \<in> set s \<Longrightarrow> f c = [c]"
  shows "concat (map f (code_points s)) = s"
proof -
  have "concat (map f s) = s" using assms(2) by (induction s) auto
  with assms(1) show ?thesis by (simp add: code_points_ascii)
qed

lemma percent_encode_id: "\<forall>c \<in> set s. c < 128 \<and> \<not> P c \<Longrightarrow> percent_encode P s = s"
  unfolding percent_encode_def by (rule concat_map_points) (auto simp: from_code_point_def)

lemma to_well_formed_id: "\<forall>c \<in> set s. c < 128 \<Longrightarrow> to_well_formed s = s"
  unfolding to_well_formed_def
  by (rule concat_map_points) (auto simp: from_code_point_def high_surrogate_def low_surrogate_def)

lemma dropWhile_no: "\<forall>c \<in> set s. \<not> P c \<Longrightarrow> dropWhile P s = s"
  by (cases s) auto

lemma trimmed_plain:
  assumes "\<forall>c \<in> set s. 32 < (c :: nat)"
  shows "filter (\<lambda>c. c \<noteq> 9 \<and> c \<noteq> 10 \<and> c \<noteq> 13) (rev (dropWhile (\<lambda>c. c \<le> 32) (rev (dropWhile (\<lambda>c. c \<le> 32) s)))) = s"
proof -
  have "dropWhile (\<lambda>c. c \<le> 32) s = s" "dropWhile (\<lambda>c. c \<le> 32) (rev s) = rev s"
    using assms by (simp_all add: dropWhile_no not_le)
  with assms show ?thesis by (auto simp: filter_id_conv)
qed

lemma preprocess_plain: "\<forall>c \<in> set s. 32 < c \<Longrightarrow> preprocessURLInput s = s"
  unfolding preprocessURLInput_def by (rule trimmed_plain)

lemma url_clean_plain: "\<forall>c \<in> set s. 32 < c \<Longrightarrow> url_clean s = s"
  unfolding url_clean_def by (rule trimmed_plain)

lemma decode_no_percent: "37 \<notin> set s \<Longrightarrow> decodeASCIITriplets s = s"
proof (induction s rule: decodeASCIITriplets.induct)
  case (1 s)
  then show ?case
    by (subst decodeASCIITriplets.simps) (auto split: list.splits)
qed

lemma url_scheme_no_colon: "58 \<notin> set s \<Longrightarrow> url_scheme s = None"
  by (auto simp: url_scheme_def Let_def split: list.splits dest!: arg_cong [where f = set] dest: set_dropWhileD)

lemma split_slashes_append:
  "\<forall>c \<in> set a. \<not> is_slash c \<Longrightarrow> is_slash d \<Longrightarrow> split_slashes (a @ d # s) = a # split_slashes s"
  by (induction a) auto

lemma split_slashes_single: "\<forall>c \<in> set a. \<not> is_slash c \<Longrightarrow> split_slashes a = [a]"
  by (induction a) auto

lemma split_slashes_join:
  "xs \<noteq> [] \<Longrightarrow> \<forall>x \<in> set xs. \<forall>c \<in> set x. \<not> is_slash c \<Longrightarrow> split_slashes (js_join [SLASH] xs) = xs"
proof (induction xs)
  case (Cons x xs)
  have "is_slash SLASH" by (simp add: is_slash_def)
  with Cons show ?case
    by (cases "xs = []") (auto simp: split_slashes_single js_join_Cons split_slashes_append)
qed simp

definition dot_like :: "jsstr \<Rightarrow> bool" where "dot_like s \<longleftrightarrow> s = dot_seg \<or> s = dotdot_seg"

lemma ascii_lower_unit: "(if 65 \<le> c \<and> c \<le> 90 then c + 32 else c) = 46 \<longleftrightarrow> c = (46 :: nat)"
  by auto

lemma ascii_lower_37: "37 \<in> set (ascii_lower s) \<Longrightarrow> 37 \<in> set s"
  by (auto simp: ascii_lower_def split: if_splits)

lemma dots_kept:
  assumes "list_all component_kept s"
  shows "is_single_dot s \<longleftrightarrow> s = dot_seg" "is_double_dot s \<longleftrightarrow> s = dotdot_seg"
proof -
  have no: "37 \<notin> set (ascii_lower s)"
    using assms component_kept_facts(3) ascii_lower_37 by (auto simp: list_all_iff)
  have "ascii_lower s = [46] \<longleftrightarrow> s = [46]" "ascii_lower s = [46, 46] \<longleftrightarrow> s = [46, 46]"
    by (auto simp: ascii_lower_def map_eq_Cons_conv ascii_lower_unit split: if_splits)
  with no show "is_single_dot s \<longleftrightarrow> s = dot_seg" "is_double_dot s \<longleftrightarrow> s = dotdot_seg"
    by (auto simp: is_single_dot_def is_double_dot_def dot_seg_def dotdot_seg_def)
qed

lemma path_segment_kept:
  assumes "kept_seg s" and "dotdot_seg \<notin> set path"
  shows "path_segment False is_last s path = norm_step False s path @ (if is_last \<and> dot_like s then [[]] else [])"
proof -
  have enc: "percent_encode path_encode_set s = s"
    using assms(1) component_kept_facts by (auto simp: kept_seg_def list_all_iff intro!: percent_encode_id)
  have last: "(path \<noteq> [] \<and> last path \<noteq> dotdot_seg) = (path \<noteq> [])" using assms(2) last_in_set by metis
  have "list_all component_kept s" using assms(1) by (simp add: kept_seg_def)
  note dots = dots_kept [OF this]
  show ?thesis
    unfolding path_segment_def Let_def enc dots norm_step_def last shorten_def
    by (cases "s = dot_seg"; cases "s = dotdot_seg"; cases "path = []")
       (simp_all add: dot_like_def dot_seg_def dotdot_seg_def)
qed

lemma norm_step_no_dotdot: "dotdot_seg \<notin> set path \<Longrightarrow> dotdot_seg \<notin> set (norm_step False s path)"
  by (auto simp: norm_step_def dest: in_set_butlastD)

lemma path_state_kept:
  "segs \<noteq> [] \<Longrightarrow> \<forall>s \<in> set segs. kept_seg s \<Longrightarrow> dotdot_seg \<notin> set path \<Longrightarrow>
   path_state False segs path = fold (norm_step False) segs path @ (if dot_like (last segs) then [[]] else [])"
proof (induction "False" segs path rule: path_state.induct)
  case (3 seg t segs path)
  then show ?case by (simp add: path_segment_kept norm_step_no_dotdot)
qed (auto simp: path_segment_kept)

lemma kept_segs_no_slash: "\<forall>x \<in> set xs. kept_seg x \<Longrightarrow> \<forall>x \<in> set xs. \<forall>c \<in> set x. \<not> is_slash c"
  using component_kept_facts(8) by (auto simp: kept_seg_def list_all_iff)

lemma kept_segs_no_end:
  assumes "\<forall>x \<in> set xs. kept_seg x"
  shows "takeWhile (\<lambda>c. \<not> ends_path c) (js_join [SLASH] xs) = js_join [SLASH] xs"
proof -
  have "plain_text (js_join [SLASH] xs)" using assms by (auto simp: kept_seg_def intro!: plain_text_join)
  then show ?thesis using plain_text_facts(6) by (auto simp: takeWhile_eq_all_conv)
qed

lemma url_path_kept:
  assumes "segs \<noteq> []" and "\<forall>s \<in> set segs. kept_seg s" and "dotdot_seg \<notin> set path"
  shows "url_path False path (js_join [SLASH] segs) =
    fold (norm_step False) segs path @ (if dot_like (last segs) then [[]] else [])"
  unfolding url_path_def kept_segs_no_end [OF assms(2)]
    split_slashes_join [OF assms(1) kept_segs_no_slash [OF assms(2)]]
  by (rule path_state_kept [OF assms])

text \<open>The base URL of a source file named by plain segments.\<close>

lemma kept_seg_synthetic: "kept_seg SYNTHETIC_SEGMENT" "\<not> dot_like SYNTHETIC_SEGMENT"
  by (simp_all add: kept_seg_def SYNTHETIC_SEGMENT_def component_kept_def is_alpha_def is_dec_def dot_like_def
      dot_seg_def dotdot_seg_def)

lemma path_parts_kept:
  assumes "\<forall>s \<in> set xs. kept_seg s"
  shows "path_parts (js_join [SLASH] xs) = xs"
  using assms component_kept_facts(4) by (intro path_parts_join) (auto simp: kept_seg_def list_all_iff)

lemma replace_backslash_plain: "plain_text s \<Longrightarrow> replace_unit 92 r s = s"
  using plain_text_facts(4) by (auto intro: replace_unit_id)

lemma encode_kept: "kept_seg s \<Longrightarrow> encodeURIComponent s = Some s"
proof -
  assume s: "kept_seg s"
  then have ascii: "\<forall>c \<in> set s. c < 128" using component_kept_facts(2) by (auto simp: kept_seg_def list_all_iff)
  then have "well_formed s"
    by (auto simp: well_formed_def code_points_ascii list_all_iff high_surrogate_def low_surrogate_def)
  moreover have "percent_encode (\<lambda>p. \<not> component_kept p) s = s"
    using s ascii by (intro percent_encode_id) (auto simp: kept_seg_def list_all_iff)
  ultimately show ?thesis by (simp add: encodeURIComponent_def)
qed

lemma sourceURL_kept:
  assumes "\<forall>s \<in> set ds. kept_seg s" and "kept_seg f" and "\<not> dot_like f"
  shows "sourceURL (js_join [SLASH] (ds @ [f])) = Some (norm_parts False (SYNTHETIC_SEGMENT # ds) @ [f])"
proof -
  let ?xs = "ds @ [f]"
  have kept: "\<forall>s \<in> set ?xs. kept_seg s" using assms by auto
  have plain: "plain_text (js_join [SLASH] ?xs)" using kept by (auto simp: kept_seg_def intro!: plain_text_join)
  have enc: "map encodeURIComponent ?xs = map Some ?xs" using kept encode_kept by auto
  have full: "tl (SYNTHETIC_REPOSITORY_PATH @ js_join [SLASH] ?xs) = js_join [SLASH] (SYNTHETIC_SEGMENT # ?xs)"
    by (simp add: SYNTHETIC_REPOSITORY_PATH_def js_join_Cons)
  have none: "None \<notin> set (map Some ?xs)" by auto
  have "sourceURL (js_join [SLASH] ?xs) = Some (url_path False [] (js_join [SLASH] (SYNTHETIC_SEGMENT # ?xs)))"
    unfolding sourceURL_def Let_def replace_backslash_plain [OF plain] path_parts_kept [OF kept] enc
    using none full by (simp add: comp_def)
  also have "url_path False [] (js_join [SLASH] (SYNTHETIC_SEGMENT # ?xs)) =
      fold (norm_step False) (SYNTHETIC_SEGMENT # ?xs) [] @ (if dot_like (last (SYNTHETIC_SEGMENT # ?xs)) then [[]] else [])"
    using kept kept_seg_synthetic by (intro url_path_kept) auto
  also have "\<dots> = norm_parts False (SYNTHETIC_SEGMENT # ds) @ [f]"
    using assms(3) by (simp add: norm_parts_def dot_like_def norm_step_def [of False f])
  finally show ?thesis .
qed

text \<open>A pathname of plain parts, and what the rule reads of it.\<close>

lemma pathname_of_join: "path \<noteq> [] \<Longrightarrow> pathname_of path = SLASH # js_join [SLASH] path"
proof (induction path)
  case (Cons x path)
  then show ?case by (cases "path = []") (auto simp: pathname_of_def js_join_Cons)
qed simp

lemma js_join_snoc_empty: "xs \<noteq> [] \<Longrightarrow> js_join [SLASH] (xs @ [[]]) = js_join [SLASH] xs @ [SLASH]"
proof (induction xs)
  case (Cons x xs)
  then show ?case by (cases "xs = []") (auto simp: js_join_Cons)
qed simp

definition trail :: "bool \<Rightarrow> jsstr list" where "trail t = (if t then [[]] else [])"

lemma path_parts_trail:
  assumes "\<forall>s \<in> set xs. kept_seg s"
  shows "path_parts (js_join [SLASH] (xs @ trail t)) = xs"
proof (cases "t \<and> xs \<noteq> []")
  case True
  then show ?thesis by (simp add: trail_def js_join_snoc_empty path_parts_snoc_slash path_parts_kept [OF assms])
next
  case False
  then show ?thesis using path_parts_kept [OF assms] by (auto simp: trail_def path_parts_def)
qed

lemma norm_parts_plain: "\<forall>s \<in> set xs. plain_seg s \<Longrightarrow> norm_parts up xs = xs"
  by (simp add: norm_parts_def fold_norm_plain)

lemma plain_seg_kept: "kept_seg s \<Longrightarrow> \<not> dot_like s \<Longrightarrow> plain_seg s"
  using component_kept_facts(4) by (auto simp: plain_seg_def kept_seg_def list_all_iff dot_like_def)

lemma scratchResolution_plain:
  assumes "\<forall>s \<in> set xs. kept_seg s \<and> \<not> dot_like s"
  shows "map_option rs_root (scratchResolution (js_join [SLASH] (xs @ trail t)) False) =
    (case xs of [] \<Rightarrow> None | x # _ \<Rightarrow> if js_lower x \<in> set SCRATCH_ROOT_NAMES then Some (js_lower x) else None)"
proof -
  let ?p = "js_join [SLASH] (xs @ trail t)"
  have kept: "\<forall>s \<in> set xs. kept_seg s" and plain: "\<forall>s \<in> set xs. plain_seg s"
    using assms plain_seg_kept by auto
  have ptext: "plain_text ?p" using kept by (auto simp: kept_seg_def trail_def intro!: plain_text_join)
  have decoded: "replace_unit 92 [SLASH] (decodeASCIITriplets ?p) = ?p"
  proof -
    have "37 \<notin> set ?p" using plain_text_facts(3) [OF ptext] by blast
    then show ?thesis by (simp add: decode_no_percent replace_backslash_plain [OF ptext])
  qed
  have relative: "\<not> is_absolute ?p"
  proof (cases xs)
    case Nil
    then show ?thesis by (simp add: trail_def is_absolute_def)
  next
    case (Cons x rest)
    then obtain c y where "x = c # y" "c \<noteq> SLASH"
      using kept component_kept_facts(4) by (cases x) (auto simp: kept_seg_def)
    then show ?thesis using Cons by (cases "rest @ trail t = []") (auto simp: is_absolute_def js_join_Cons)
  qed
  have parts: "path_parts (path_normalize ?p) = (if xs = [] then [dot_seg] else xs)"
  proof (cases "?p = []")
    case True
    then have "xs = []" using path_parts_trail [OF kept, of t] by (simp add: path_parts_dots)
    with True show ?thesis by (simp add: path_normalize_def path_parts_dots)
  next
    case False
    show ?thesis
      unfolding path_normalize_parts [OF False] path_parts_trail [OF kept] norm_parts_plain [OF plain]
      using relative by auto
  qed
  have dot: "js_lower dot_seg \<notin> set SCRATCH_ROOT_NAMES" by (simp add: dot_seg_def lower_unit_def SCRATCH_ROOT_NAMES_def)
  show ?thesis
    unfolding scratchResolution_def Let_def decoded parts
    using dot by (auto split: list.splits)
qed

lemma kept_not_empty_prefix: "kept_seg s \<Longrightarrow> js_join [SLASH] (s # xs) = c # r \<Longrightarrow> c \<noteq> SLASH \<and> c \<noteq> 92 \<and> \<not> ends_path c"
  using component_kept_facts
  by (cases s; cases "xs = []") (auto simp: kept_seg_def js_join_Cons)

lemma resolve_url_kept:
  assumes "segs \<noteq> []" and "\<forall>s \<in> set segs. kept_seg s" and "dotdot_seg \<notin> set N"
  shows "resolve_url hp site (N @ [f]) (js_join [SLASH] segs) =
    SiteURL (pathname_of (fold (norm_step False) segs N @ trail (dot_like (last segs))))"
proof -
  let ?s = "js_join [SLASH] segs"
  have plain: "plain_text ?s" using assms(2) by (auto simp: kept_seg_def intro!: plain_text_join)
  note facts = plain_text_facts [OF plain]
  have clean: "url_clean (to_well_formed ?s) = ?s"
    using facts(1,2) by (simp add: to_well_formed_id url_clean_plain)
  have scheme: "url_scheme ?s = None" using facts(5) by (auto intro: url_scheme_no_colon)
  obtain x rest where segs: "segs = x # rest" using assms(1) by (cases segs) auto
  obtain c r where cr: "?s = c # r"
    using assms(2) segs by (cases x; cases "rest = []") (auto simp: js_join_Cons kept_seg_def)
  have "c \<noteq> SLASH \<and> c \<noteq> 92 \<and> \<not> ends_path c"
    using kept_not_empty_prefix [of x rest c r] assms(2) segs cr by auto
  then have "relative_url hp site (N @ [f]) ?s = SiteURL (pathname_of (url_path False N ?s))"
    by (simp add: relative_url_def cr is_slash_def)
  then show ?thesis
    by (simp add: resolve_url_def clean scheme url_path_kept [OF assms] trail_def)
qed

lemma set_norm_step: "set (norm_step False s acc) \<subseteq> insert s (set acc)"
  by (auto simp: norm_step_def dest: in_set_butlastD)

lemma set_fold_norm: "set (fold (norm_step False) segs acc) \<subseteq> set segs \<union> set acc"
proof (induction segs arbitrary: acc)
  case (Cons s segs)
  have "set (fold (norm_step False) segs (norm_step False s acc)) \<subseteq> set segs \<union> set (norm_step False s acc)"
    by (rule Cons.IH)
  with set_norm_step [of s acc] show ?case by auto
qed simp

lemma norm_parts_kept:
  assumes "\<forall>s \<in> set xs. kept_seg s"
  shows "\<forall>s \<in> set (norm_parts False xs). kept_seg s \<and> \<not> dot_like s"
proof -
  have "\<forall>s \<in> set (norm_parts False xs). kept_seg s"
    using assms set_fold_norm [of xs "[]"] by (auto simp: norm_parts_def)
  moreover have "\<forall>s \<in> set (norm_parts False xs). plain_seg s"
  proof -
    have "\<forall>s \<in> set xs. s \<noteq> [] \<and> SLASH \<notin> set s"
      using assms component_kept_facts(4) by (auto simp: kept_seg_def list_all_iff)
    from norm_parts_normal [OF this, of False] show ?thesis by (simp add: normal_parts_False)
  qed
  ultimately show ?thesis by (auto simp: dot_like_def plain_seg_def)
qed

lemma starts_synthetic:
  assumes "\<forall>s \<in> set N. kept_seg s" and "N @ trail t \<noteq> []"
  shows "js_starts (pathname_of (N @ trail t)) SYNTHETIC_REPOSITORY_PATH \<longleftrightarrow>
    (\<exists>rest. N = SYNTHETIC_SEGMENT # rest \<and> rest @ trail t \<noteq> [])"
proof -
  have split: "js_split SLASH (js_join [SLASH] (N @ trail t)) = N @ trail t"
    using assms component_kept_facts(4)
    by (intro js_split_join) (auto simp: trail_def kept_seg_def list_all_iff split: if_splits)
  have no: "SLASH \<notin> set SYNTHETIC_SEGMENT" by (simp add: SYNTHETIC_SEGMENT_def)
  have "js_starts (pathname_of (N @ trail t)) SYNTHETIC_REPOSITORY_PATH \<longleftrightarrow>
      (\<exists>r. js_join [SLASH] (N @ trail t) = SYNTHETIC_SEGMENT @ SLASH # r)"
    by (simp add: pathname_of_join [OF assms(2)] SYNTHETIC_REPOSITORY_PATH_def js_starts_iff)
  also have "\<dots> \<longleftrightarrow> (\<exists>rest. N @ trail t = SYNTHETIC_SEGMENT # rest \<and> rest \<noteq> [])"
  proof
    assume "\<exists>r. js_join [SLASH] (N @ trail t) = SYNTHETIC_SEGMENT @ SLASH # r"
    then obtain r where "js_join [SLASH] (N @ trail t) = SYNTHETIC_SEGMENT @ SLASH # r" by blast
    then have "N @ trail t = SYNTHETIC_SEGMENT # js_split SLASH r"
      using split js_split_append [OF no, of r] by simp
    then show "\<exists>rest. N @ trail t = SYNTHETIC_SEGMENT # rest \<and> rest \<noteq> []" by simp
  next
    assume "\<exists>rest. N @ trail t = SYNTHETIC_SEGMENT # rest \<and> rest \<noteq> []"
    then show "\<exists>r. js_join [SLASH] (N @ trail t) = SYNTHETIC_SEGMENT @ SLASH # r"
      by (auto simp: js_join_Cons)
  qed
  also have "\<dots> \<longleftrightarrow> (\<exists>rest. N = SYNTHETIC_SEGMENT # rest \<and> rest @ trail t \<noteq> [])"
    by (cases N) (auto simp: trail_def SYNTHETIC_SEGMENT_def split: if_splits)
  finally show ?thesis .
qed

lemma plain_reference:
  assumes "segs \<noteq> []" and "\<forall>s \<in> set segs. kept_seg s"
  shows "\<not> js_starts (js_join [SLASH] segs) [92, 92]" "\<not> drive_path (js_join [SLASH] segs)"
    "\<not> js_starts (js_join [SLASH] segs) [SLASH]" "js_join [SLASH] segs \<noteq> []"
proof -
  let ?s = "js_join [SLASH] segs"
  have plain: "plain_text ?s" using assms(2) by (auto simp: kept_seg_def intro!: plain_text_join)
  note facts = plain_text_facts [OF plain]
  show "\<not> js_starts ?s [92, 92]" using facts(4) [of 92] by (auto simp: js_starts_iff)
  show "\<not> drive_path ?s" using facts(5) by (auto simp: drive_path_def split: list.splits)
  obtain x rest where segs: "segs = x # rest" using assms(1) by (cases segs) auto
  with assms(2) show "?s \<noteq> []" by (cases "rest = []") (auto simp: js_join_Cons kept_seg_def)
  with segs assms(2) show "\<not> js_starts ?s [SLASH]"
    using kept_not_empty_prefix [of x rest] by (cases ?s) auto
qed

lemma fold_norm_nonempty: "segs \<noteq> [] \<Longrightarrow> \<not> dot_like (last segs) \<Longrightarrow> fold (norm_step False) segs acc \<noteq> []"
proof (induction segs rule: rev_induct)
  case (snoc x xs)
  then show ?case by (simp add: norm_step_def dot_like_def)
qed simp

text \<open>What a plain relative reference from a plain source resolves to.\<close>

lemma resolveURLDestination_plain:
  assumes "\<forall>s \<in> set ds. kept_seg s" and "kept_seg f" and "\<not> dot_like f"
    and "segs \<noteq> []" and "\<forall>s \<in> set segs. kept_seg s"
    and N: "N = norm_parts False (SYNTHETIC_SEGMENT # ds @ segs)"
  shows "map_option rs_root (resolveURLDestination hp (js_join [SLASH] (ds @ [f])) (js_join [SLASH] segs)) =
    (case N of
       base # r # _ \<Rightarrow> if base = SYNTHETIC_SEGMENT \<and> js_lower r \<in> set SCRATCH_ROOT_NAMES then Some (js_lower r) else None
     | _ \<Rightarrow> None)"
proof -
  let ?s = "js_join [SLASH] segs" and ?N0 = "norm_parts False (SYNTHETIC_SEGMENT # ds)"
  define t where "t = dot_like (last segs)"
  have plain: "plain_text ?s" using assms(5) by (auto simp: kept_seg_def intro!: plain_text_join)
  note facts = plain_text_facts [OF plain]
  have pre: "preprocessURLInput ?s = ?s" using facts(1) by (auto intro: preprocess_plain)
  note not_prefixed = plain_reference [OF assms(4,5)]
  have N0: "fold (norm_step False) segs ?N0 = N"
    unfolding N norm_parts_def by (simp add: fold_append comp_def)
  have keptN0: "\<forall>s \<in> set ?N0. kept_seg s \<and> \<not> dot_like s" and keptN: "\<forall>s \<in> set N. kept_seg s \<and> \<not> dot_like s"
    using assms(1,5) kept_seg_synthetic(1) N by (auto intro!: norm_parts_kept)
  then have "dotdot_seg \<notin> set ?N0" by (auto simp: dot_like_def)
  from resolve_url_kept [OF assms(4,5) this, of hp SYNTHETIC_HOST f]
  have url: "resolve_url hp SYNTHETIC_HOST (?N0 @ [f]) ?s = SiteURL (pathname_of (N @ trail t))"
    by (simp add: N0 t_def)
  have nonempty: "N @ trail t \<noteq> []" using fold_norm_nonempty [OF assms(4)] N0 by (auto simp: trail_def t_def)
  have ptext: "plain_text (pathname_of (N @ trail t))"
  proof -
    have "\<forall>s \<in> set (N @ trail t). list_all component_kept s"
      using keptN by (auto simp: trail_def kept_seg_def)
    from plain_text_join [OF this] show ?thesis
      by (simp add: pathname_of_join [OF nonempty] plain_text_def)
  qed
  have decoded: "replace_unit 92 [SLASH] (decodeASCIITriplets (pathname_of (N @ trail t))) = pathname_of (N @ trail t)"
    using plain_text_facts(3) [OF ptext] by (metis decode_no_percent replace_backslash_plain ptext)
  have keptN': "\<forall>s \<in> set N. kept_seg s" using keptN by auto
  let ?P = "pathname_of (N @ trail t)"
  have d: "resolveURLDestination hp (js_join [SLASH] (ds @ [f])) ?s =
      (if js_starts ?P SYNTHETIC_REPOSITORY_PATH
       then scratchResolution (drop (length SYNTHETIC_REPOSITORY_PATH) ?P) False else None)"
    using not_prefixed by (simp add: resolveURLDestination_def Let_def pre sourceURL_kept [OF assms(1-3)] url decoded)
  show ?thesis
  proof (cases "\<exists>rest. N = SYNTHETIC_SEGMENT # rest \<and> rest @ trail t \<noteq> []")
    case True
    then obtain rest where rest: "N = SYNTHETIC_SEGMENT # rest" "rest @ trail t \<noteq> []" by blast
    have tail: "drop (length SYNTHETIC_REPOSITORY_PATH) ?P = js_join [SLASH] (rest @ trail t)"
      using rest by (simp add: pathname_of_join js_join_Cons SYNTHETIC_REPOSITORY_PATH_def)
    have "\<forall>s \<in> set rest. kept_seg s \<and> \<not> dot_like s" using keptN rest by auto
    from scratchResolution_plain [OF this, of t] show ?thesis
      unfolding d tail using starts_synthetic [OF keptN' nonempty] True rest(1) by (simp split: list.splits)
  next
    case False
    then have "resolveURLDestination hp (js_join [SLASH] (ds @ [f])) ?s = None"
      unfolding d using starts_synthetic [OF keptN' nonempty] by (simp only: if_False)
    with False show ?thesis by (auto split: list.splits)
  qed
qed

section \<open>Lemmas: a reference from the root\<close>

lemma plain_segs_text:
  assumes "\<forall>s \<in> set xs. kept_seg s"
  shows "plain_text (js_join [SLASH] xs)"
  using assms by (auto simp: kept_seg_def intro!: plain_text_join)

lemma resolve_url_rooted:
  assumes "segs \<noteq> []" and "\<forall>s \<in> set segs. kept_seg s" and "c = SLASH \<or> c = 92"
  shows "resolve_url hp site base (c # js_join [SLASH] segs) =
    SiteURL (pathname_of (norm_parts False segs @ trail (dot_like (last segs))))"
proof -
  let ?s = "js_join [SLASH] segs"
  have plain: "plain_text ?s" using assms(2) by (rule plain_segs_text)
  have units: "\<forall>u \<in> set (c # ?s). 32 < u \<and> u < 128" using assms(3) plain_text_facts(1,2) [OF plain] by auto
  then have clean: "url_clean (to_well_formed (c # ?s)) = c # ?s" by (simp add: to_well_formed_id url_clean_plain)
  have "58 \<notin> set (c # ?s)" using assms(3) plain_text_facts(5) [OF plain] by auto
  then have scheme: "url_scheme (c # ?s) = None" by (rule url_scheme_no_colon)
  obtain x rest where segs: "segs = x # rest" using assms(1) by (cases segs) auto
  obtain u r where ur: "?s = u # r"
    using assms(2) segs by (cases x; cases "rest = []") (auto simp: js_join_Cons kept_seg_def)
  have "\<not> is_slash u" using kept_not_empty_prefix [of x rest u r] assms(2) segs ur by (auto simp: is_slash_def)
  then have "relative_url hp site base (c # ?s) = SiteURL (pathname_of (url_path False [] ?s))"
    using assms(3) ur by (auto simp: relative_url_def is_slash_def)
  then show ?thesis
    using url_path_kept [OF assms(1,2), of "[]"] by (simp add: resolve_url_def clean scheme trail_def norm_parts_def)
qed

lemma scratchResolution_rooted:
  assumes "\<forall>s \<in> set xs. kept_seg s \<and> \<not> dot_like s" and "xs @ trail t \<noteq> []"
  shows "map_option rs_root (scratchResolution (pathname_of (xs @ trail t)) True) =
    find (\<lambda>p. p \<in> set SCRATCH_ROOT_NAMES) (map js_lower xs)"
proof -
  let ?p = "pathname_of (xs @ trail t)"
  have kept: "\<forall>s \<in> set xs. kept_seg s" and plain: "\<forall>s \<in> set xs. plain_seg s" using assms(1) plain_seg_kept by auto
  have p: "?p = SLASH # js_join [SLASH] (xs @ trail t)" by (rule pathname_of_join [OF assms(2)])
  have ptext: "plain_text ?p"
    using kept unfolding p by (auto simp: plain_text_def kept_seg_def trail_def intro!: plain_text_join [unfolded plain_text_def])
  have decoded: "replace_unit 92 [SLASH] (decodeASCIITriplets ?p) = ?p"
    using plain_text_facts(3) [OF ptext] by (metis decode_no_percent replace_backslash_plain ptext)
  have parts: "path_parts ?p = xs" using path_parts_trail [OF kept, of t] unfolding p by simp
  have ne: "?p \<noteq> []" and absolute: "is_absolute ?p" unfolding p by (simp_all add: is_absolute_def)
  have "path_parts (path_normalize ?p) = xs"
    unfolding path_normalize_parts [OF ne] parts norm_parts_plain [OF plain] using absolute by auto
  then show ?thesis unfolding scratchResolution_def Let_def decoded by (simp add: option.map_comp comp_def option.map_ident)
qed

text \<open>
  A destination from the root, after a slash or after one backslash. The URL is the same, but a root is reported only
  after a slash: the last test of \<open>resolveURLDestination\<close> asks how the raw destination starts.
\<close>

lemma resolveURLDestination_rooted:
  assumes "\<forall>s \<in> set ds. kept_seg s" and "kept_seg f" and "\<not> dot_like f"
    and "segs \<noteq> []" and "\<forall>s \<in> set segs. kept_seg s" and "c = SLASH \<or> c = 92"
    and outside: "SYNTHETIC_SEGMENT \<notin> set (take 1 (norm_parts False segs))"
  shows "map_option rs_root (resolveURLDestination hp (js_join [SLASH] (ds @ [f])) (c # js_join [SLASH] segs)) =
    (if c = SLASH then find (\<lambda>p. p \<in> set SCRATCH_ROOT_NAMES) (map js_lower (norm_parts False segs)) else None)"
proof -
  let ?s = "c # js_join [SLASH] segs" and ?N = "norm_parts False segs"
  define t where "t = dot_like (last segs)"
  let ?P = "pathname_of (?N @ trail t)"
  have plain: "plain_text (js_join [SLASH] segs)" using assms(5) by (rule plain_segs_text)
  note facts = plain_text_facts [OF plain]
  have pre: "preprocessURLInput ?s = ?s" using facts(1) assms(6) by (intro preprocess_plain) auto
  have keptN: "\<forall>s \<in> set ?N. kept_seg s \<and> \<not> dot_like s" using assms(5) by (rule norm_parts_kept)
  then have keptN': "\<forall>s \<in> set ?N. kept_seg s" by auto
  have nonempty: "?N @ trail t \<noteq> []"
    using fold_norm_nonempty [OF assms(4), of "[]"] by (auto simp: trail_def t_def norm_parts_def)
  have ptext: "plain_text ?P"
  proof -
    have "\<forall>s \<in> set (?N @ trail t). list_all component_kept s" using keptN by (auto simp: trail_def kept_seg_def)
    from plain_text_join [OF this] show ?thesis by (simp add: pathname_of_join [OF nonempty] plain_text_def)
  qed
  have decoded: "replace_unit 92 [SLASH] (decodeASCIITriplets ?P) = ?P"
    using plain_text_facts(3) [OF ptext] by (metis decode_no_percent replace_backslash_plain ptext)
  have "\<not> js_starts ?P SYNTHETIC_REPOSITORY_PATH"
    using outside unfolding starts_synthetic [OF keptN' nonempty] by auto
  moreover have "\<not> js_starts ?s [92, 92]"
  proof -
    obtain x rest where "segs = x # rest" using assms(4) by (cases segs) auto
    then have "js_join [SLASH] segs \<noteq> 92 # r" for r using facts(4) [of 92] by auto
    then show ?thesis by (auto simp: js_starts_iff)
  qed
  moreover have "\<not> drive_path ?s" using assms(6) by (auto simp: drive_path_def is_alpha_def split: list.splits)
  ultimately have "resolveURLDestination hp (js_join [SLASH] (ds @ [f])) ?s =
      (if c = SLASH then scratchResolution ?P True else None)"
    using resolve_url_rooted [OF assms(4-6), of hp SYNTHETIC_HOST]
    by (auto simp: resolveURLDestination_def Let_def pre sourceURL_kept [OF assms(1-3)] decoded t_def [symmetric] js_starts_iff)
  then show ?thesis using scratchResolution_rooted [OF keptN nonempty] by simp
qed

section \<open>Links into a scratch directory\<close>

text \<open>
  What the rule is about, without URLs: a destination of plain segments, dot segments included, that is written
  relative to the directory \<open>ds\<close> of the source and normalizes to a path below a scratch directory of the repository, or
  is written from the root and normalizes to a path with a scratch directory in it. A directory is a scratch directory
  in any letter case. A path that leaves the repository has no place in it; the synthetic segment that stands for the
  repository is no name of a file.
\<close>

definition scratch_name :: "jsstr \<Rightarrow> bool" where
  "scratch_name part \<longleftrightarrow> js_lower part = js ''.workingdir'' \<or> js_lower part = js ''.workingdir2''"

definition scratch_link :: "jsstr list \<Rightarrow> jsstr \<Rightarrow> bool" where
  "scratch_link ds url \<longleftrightarrow>
     (\<exists>segs. segs \<noteq> [] \<and> (\<forall>s \<in> set segs. kept_seg s) \<and>
        (url = js_join [SLASH] segs \<and>
           (\<exists>part rest. norm_parts False (SYNTHETIC_SEGMENT # ds @ segs) = SYNTHETIC_SEGMENT # part # rest \<and> scratch_name part) \<or>
         url = SLASH # js_join [SLASH] segs \<and> SYNTHETIC_SEGMENT \<notin> set (take 1 (norm_parts False segs)) \<and>
           (\<exists>part \<in> set (norm_parts False segs). scratch_name part)))"

lemma scratch_name_iff: "scratch_name part \<longleftrightarrow> js_lower part \<in> set SCRATCH_ROOT_NAMES"
  by (simp add: scratch_name_def SCRATCH_ROOT_NAMES_def)

lemma scratch_link_reported:
  assumes "\<forall>s \<in> set ds. kept_seg s" and "kept_seg f" and "\<not> dot_like f" and "scratch_link ds url"
  shows "resolveURLDestination hp (js_join [SLASH] (ds @ [f])) url \<noteq> None"
proof -
  from assms(4) obtain segs where segs: "segs \<noteq> []" "\<forall>s \<in> set segs. kept_seg s"
    and cases: "(url = js_join [SLASH] segs \<and>
        (\<exists>part rest. norm_parts False (SYNTHETIC_SEGMENT # ds @ segs) = SYNTHETIC_SEGMENT # part # rest \<and> scratch_name part)) \<or>
      (url = SLASH # js_join [SLASH] segs \<and> SYNTHETIC_SEGMENT \<notin> set (take 1 (norm_parts False segs)) \<and>
        (\<exists>part \<in> set (norm_parts False segs). scratch_name part))"
    unfolding scratch_link_def by blast
  from cases show ?thesis
  proof
    assume rel: "url = js_join [SLASH] segs \<and>
        (\<exists>part rest. norm_parts False (SYNTHETIC_SEGMENT # ds @ segs) = SYNTHETIC_SEGMENT # part # rest \<and> scratch_name part)"
    then have "map_option rs_root (resolveURLDestination hp (js_join [SLASH] (ds @ [f])) url) \<noteq> None"
      using resolveURLDestination_plain [OF assms(1-3) segs refl, of hp] by (auto simp: scratch_name_iff)
    then show ?thesis by simp
  next
    assume rooted: "url = SLASH # js_join [SLASH] segs \<and> SYNTHETIC_SEGMENT \<notin> set (take 1 (norm_parts False segs)) \<and>
        (\<exists>part \<in> set (norm_parts False segs). scratch_name part)"
    then have "find (\<lambda>p. p \<in> set SCRATCH_ROOT_NAMES) (map js_lower (norm_parts False segs)) \<noteq> None"
      by (auto simp: find_None_iff scratch_name_iff)
    then have "map_option rs_root (resolveURLDestination hp (js_join [SLASH] (ds @ [f])) url) \<noteq> None"
      using resolveURLDestination_rooted [OF assms(1-3) segs, of SLASH hp] rooted by simp
    then show ?thesis by simp
  qed
qed

text \<open>
  The destinations \<open>/.workingdir/OPEN.md\<close> and \<open>\.workingdir/OPEN.md\<close> name the same URL; only the first is reported.
\<close>

lemma backslash_root_unreported:
  "resolve_url hp site base (92 # js ''.workingdir/OPEN.md'') = resolve_url hp site base (js ''/.workingdir/OPEN.md'') \<and>
   resolveURLDestination hp (js ''README.md'') (js ''/.workingdir/OPEN.md'') \<noteq> None \<and>
   resolveURLDestination hp (js ''README.md'') (92 # js ''.workingdir/OPEN.md'') = None"
proof -
  let ?segs = "[js ''.workingdir'', js ''OPEN.md'']"
  have kept: "\<forall>s \<in> set ?segs. kept_seg s" "kept_seg (js ''README.md'')" "\<not> dot_like (js ''README.md'')"
    by (simp_all add: kept_seg_def component_kept_def is_alpha_def dot_like_def dot_seg_def dotdot_seg_def)
  have norm: "norm_parts False ?segs = ?segs" by (simp add: norm_parts_def norm_step_def dot_seg_def dotdot_seg_def)
  then have outside: "SYNTHETIC_SEGMENT \<notin> set (take 1 (norm_parts False ?segs))" by (simp add: SYNTHETIC_SEGMENT_def)
  have texts: "js_join [SLASH] ?segs = js ''.workingdir/OPEN.md''" "js_join [SLASH] ([] @ [js ''README.md'']) = js ''README.md''" by simp_all
  have root_name: "find (\<lambda>p. p \<in> set SCRATCH_ROOT_NAMES) (map js_lower (norm_parts False ?segs)) \<noteq> None"
    unfolding norm by (simp add: SCRATCH_ROOT_NAMES_def lower_unit_def)
  note rooted = resolveURLDestination_rooted [of "[]" "js ''README.md''" ?segs _ hp, OF _ kept(2,3) _ kept(1) _ outside]
  have "map_option rs_root (resolveURLDestination hp (js ''README.md'') (SLASH # js ''.workingdir/OPEN.md'')) \<noteq> None"
    using rooted [of SLASH] root_name texts by simp
  moreover have "map_option rs_root (resolveURLDestination hp (js ''README.md'') (92 # js ''.workingdir/OPEN.md'')) = None"
    using rooted [of 92] texts by simp
  moreover have "resolve_url hp site base (92 # js ''.workingdir/OPEN.md'') = resolve_url hp site base (SLASH # js ''.workingdir/OPEN.md'')"
    using resolve_url_rooted [of ?segs 92 hp site base] resolve_url_rooted [of ?segs SLASH hp site base] kept(1) texts by simp
  ultimately show ?thesis by simp
qed

section \<open>Properties\<close>

text \<open>
  C18. A relative link is judged by where it leads: for a source file and a relative destination named by
  plain segments, dot segments included, the rule reports a scratch root exactly when the normalized path
  stays in the repository and its first part is a scratch directory in any letter case, and it reports
  that directory.
\<close>

theorem relative_link_exact:
  assumes "\<forall>s \<in> set ds. kept_seg s" and "kept_seg f" and "\<not> dot_like f"
    and "segs \<noteq> []" and "\<forall>s \<in> set segs. kept_seg s"
  shows "(\<exists>r. resolveURLDestination hp (js_join [SLASH] (ds @ [f])) (js_join [SLASH] segs) = Some r \<and> rs_root r = root) \<longleftrightarrow>
    (\<exists>part rest. norm_parts False (SYNTHETIC_SEGMENT # ds @ segs) = SYNTHETIC_SEGMENT # part # rest \<and>
       js_lower part = root \<and> root \<in> set SCRATCH_ROOT_NAMES)"
proof -
  let ?d = "resolveURLDestination hp (js_join [SLASH] (ds @ [f])) (js_join [SLASH] segs)"
  have "(\<exists>r. ?d = Some r \<and> rs_root r = root) \<longleftrightarrow> map_option rs_root ?d = Some root" by auto
  also have "\<dots> \<longleftrightarrow> (\<exists>part rest. norm_parts False (SYNTHETIC_SEGMENT # ds @ segs) = SYNTHETIC_SEGMENT # part # rest \<and>
       js_lower part = root \<and> root \<in> set SCRATCH_ROOT_NAMES)"
    unfolding resolveURLDestination_plain [OF assms refl] by (auto split: list.splits)
  finally show ?thesis .
qed

text \<open>The link \<open>../.WorkingDir/OPEN.md\<close> of \<open>docs/guide.md\<close>.\<close>

lemma relative_link_exact_witness:
  "\<exists>r. resolveURLDestination (\<lambda>_. None) (js_join [SLASH] ([js ''docs''] @ [js ''guide.md'']))
     (js_join [SLASH] [js ''..'', js ''.WorkingDir'', js ''OPEN.md'']) = Some r \<and> rs_root r = js ''.workingdir''"
  by (subst relative_link_exact)
     (simp_all add: kept_seg_def component_kept_def is_alpha_def is_dec_def dot_like_def dot_seg_def dotdot_seg_def
       norm_parts_def norm_step_def SYNTHETIC_SEGMENT_def SCRATCH_ROOT_NAMES_def lower_unit_def)

end
