(* ===== verification/ScratchCSS.thy ===== *)
theory ScratchCSS
  imports ScratchURL
begin

text \<open>
  The CSS scanner of the private-scratch-link rule
  (\<^verbatim>\<open>src/tools/markdownlint/no-private-scratch-links.mjs\<close>): escapes, names, comments, strings and
  \<open>url()\<close>, and \<open>cssStep\<close>, which reads one token and spends the token budget all embedded CSS of a file
  shares. Positions are indices into the text, as in the code.
\<close>

section \<open>Bounds and state\<close>

definition MAX_EVENTS :: nat where "MAX_EVENTS = 262144"
definition MAX_HTML_NODES :: nat where "MAX_HTML_NODES = 65536"
definition MAX_HTML_DEPTH :: nat where "MAX_HTML_DEPTH = 8"
definition MAX_SRCSET_CANDIDATES :: nat where "MAX_SRCSET_CANDIDATES = 4096"
definition MAX_CSS_TOKENS :: nat where "MAX_CSS_TOKENS = 65536"
definition MAX_CSS_DEPTH :: nat where "MAX_CSS_DEPTH = 64"

datatype scan_error =
    CssTokens nat
  | CssDepth nat
  | SrcsetCandidates
  | TooManyDestinations nat
  | JsxExpression jsstr
  | TooManyAttributes
  | TooManyStyleChildren
  | HtmlDepth nat
  | HtmlNodes nat
  | BadBound
  | MdxExpressions
  | JsxLiteral jsstr
  | EstreeMissing
  | EstreePending
  | EstreeDepth
  | EstreeProperties
  | EstreeArray
  | EstreeNodes
  | DynamicImport
  | SnippetLines nat
  | BadLimit
  | ParseEvents nat
  | LinkDestinations
  | JsxSpread
  | MdxUnparsed

record parser_bounds =
  pb_maxHTMLNodes :: nat
  pb_maxHTMLDepth :: nat
  pb_maxCSSTokens :: nat
  pb_maxCSSDepth :: nat

record html_state =
  hs_bounds :: parser_bounds
  hs_nodes :: nat
  hs_cssTokens :: nat

text \<open>\<open>parserBounds\<close>: an override replaces a bound; the counts must be at least one.\<close>

record bound_overrides =
  ov_maxHTMLNodes :: "nat option"
  ov_maxHTMLDepth :: "nat option"
  ov_maxCSSTokens :: "nat option"
  ov_maxCSSDepth :: "nat option"

definition or_default :: "'a option \<Rightarrow> 'a \<Rightarrow> 'a" where
  "or_default v d = (case v of None \<Rightarrow> d | Some x \<Rightarrow> x)"

definition parserBounds :: "bound_overrides \<Rightarrow> (scan_error, parser_bounds) res" where
  "parserBounds ov =
     (let b = \<lparr>pb_maxHTMLNodes = or_default (ov_maxHTMLNodes ov) MAX_HTML_NODES,
               pb_maxHTMLDepth = or_default (ov_maxHTMLDepth ov) MAX_HTML_DEPTH,
               pb_maxCSSTokens = or_default (ov_maxCSSTokens ov) MAX_CSS_TOKENS,
               pb_maxCSSDepth = or_default (ov_maxCSSDepth ov) MAX_CSS_DEPTH\<rparr> in
      throw_if (pb_maxHTMLNodes b < 1 \<or> pb_maxCSSTokens b < 1) BadBound (Inr b))"

definition createHTMLState :: "bound_overrides \<Rightarrow> (scan_error, html_state) res" where
  "createHTMLState ov =
     res_bind (parserBounds ov) (\<lambda>b. Inr \<lparr>hs_bounds = b, hs_nodes = 0, hs_cssTokens = 0\<rparr>)"

definition spendCSSToken :: "html_state \<Rightarrow> (scan_error, html_state) res" where
  "spendCSSToken st =
     throw_if (hs_cssTokens st \<ge> pb_maxCSSTokens (hs_bounds st)) (CssTokens (pb_maxCSSTokens (hs_bounds st)))
       (Inr (st\<lparr>hs_cssTokens := hs_cssTokens st + 1\<rparr>))"

section \<open>Lexical helpers\<close>

definition isHTMLSpace :: "nat option \<Rightarrow> bool" where
  "isHTMLSpace c \<longleftrightarrow> c \<in> {Some 9, Some 10, Some 12, Some 13, Some 32}"

definition isCSSHex :: "nat option \<Rightarrow> bool" where
  "isCSSHex c \<longleftrightarrow> (case c of None \<Rightarrow> False | Some u \<Rightarrow> is_hex u)"

definition isCSSName :: "nat option \<Rightarrow> bool" where
  "isCSSName c \<longleftrightarrow> (case c of None \<Rightarrow> False | Some u \<Rightarrow> is_alpha u \<or> is_dec u \<or> u = 95 \<or> u = 45 \<or> u \<ge> 128)"

definition isQuote :: "nat option \<Rightarrow> bool" where
  "isQuote c \<longleftrightarrow> c = Some 34 \<or> c = Some 39"

definition opens_comment :: "jsstr \<Rightarrow> nat \<Rightarrow> bool" where
  "opens_comment s i \<longleftrightarrow> js_at s i = Some 47 \<and> js_at s (i + 1) = Some 42"

fun hex_number :: "nat \<Rightarrow> jsstr \<Rightarrow> nat" where
  "hex_number n [] = n"
| "hex_number n (c # s) = hex_number (n * 16 + hex_value c) s"

definition consumeCSSEscape :: "jsstr \<Rightarrow> nat \<Rightarrow> jsstr \<times> nat" where
  "consumeCSSEscape s position =
     (let cursor = position + 1; c = js_at s cursor in
      case c of
        None \<Rightarrow> ([0xFFFD], cursor)
      | Some u \<Rightarrow>
          if u = 10 \<or> u = 12 then ([], cursor + 1)
          else if u = 13 then ([], cursor + (if js_at s (cursor + 1) = Some 10 then 2 else 1))
          else if \<not> is_hex u then ([u], cursor + 1)
          else
            (let digits = takeWhile is_hex (take 6 (drop cursor s)); code = hex_number 0 digits;
                 cur = cursor + length digits;
                 after = (if isHTMLSpace (js_at s cur) then cur + 1 else cur) in
             (if code = 0 \<or> code > 0x10FFFF \<or> (0xD800 \<le> code \<and> code \<le> 0xDFFF) then [0xFFFD] else from_code_point code,
              after)))"

lemma consumeCSSEscape_advances: "consumeCSSEscape s i = (d, j) \<Longrightarrow> i < j"
  by (auto simp: consumeCSSEscape_def Let_def split: option.splits if_splits)

function css_name_loop :: "jsstr \<Rightarrow> nat \<Rightarrow> jsstr \<Rightarrow> jsstr \<times> nat" where
  "css_name_loop s cursor decoded =
     (if cursor < length s then
        if s ! cursor = 92 then
          (case consumeCSSEscape s cursor of (d, p) \<Rightarrow> css_name_loop s p (decoded @ d))
        else if isCSSName (js_at s cursor) then css_name_loop s (cursor + 1) (decoded @ [s ! cursor])
        else (decoded, cursor)
      else (decoded, cursor))"
  by pat_completeness auto
termination
  by (relation "measure (\<lambda>(s, cursor, decoded). length s - cursor)")
     (auto dest!: consumeCSSEscape_advances [OF sym])

declare css_name_loop.simps [simp del]

definition consumeCSSName :: "jsstr \<Rightarrow> nat \<Rightarrow> jsstr \<times> nat" where
  "consumeCSSName s position = css_name_loop s position []"

definition consumeCSSComment :: "jsstr \<Rightarrow> nat \<Rightarrow> nat" where
  "consumeCSSComment s position =
     (case js_find [42, 47] s (position + 2) of
        Some k \<Rightarrow> k + 2
      | None \<Rightarrow> max (position + 2) (length s))"

lemma consumeCSSComment_advances: "i < consumeCSSComment s i"
  by (auto simp: consumeCSSComment_def js_find_def split: option.splits)

text \<open>A string: its text, the position after it, and whether its closing quote was found.\<close>

function css_string_loop :: "jsstr \<Rightarrow> nat \<Rightarrow> nat \<Rightarrow> jsstr \<Rightarrow> jsstr \<times> nat \<times> bool" where
  "css_string_loop s quote cursor decoded =
     (if cursor < length s \<and> s ! cursor \<noteq> quote then
        if s ! cursor \<in> {10, 13, 12} then (decoded, cursor, False)
        else if s ! cursor = 92 then
          (case consumeCSSEscape s cursor of (d, p) \<Rightarrow> css_string_loop s quote p (decoded @ d))
        else css_string_loop s quote (cursor + 1) (decoded @ [s ! cursor])
      else (decoded, if cursor < length s then cursor + 1 else cursor, cursor < length s))"
  by pat_completeness auto
termination
  by (relation "measure (\<lambda>(s, quote, cursor, decoded). length s - cursor)")
     (auto dest!: consumeCSSEscape_advances [OF sym])

declare css_string_loop.simps [simp del]

definition consumeCSSString :: "jsstr \<Rightarrow> nat \<Rightarrow> jsstr \<times> nat \<times> bool" where
  "consumeCSSString s position = css_string_loop s (s ! position) (position + 1) []"

function skipCSSSpaceAndComments :: "jsstr \<Rightarrow> nat \<Rightarrow> html_state \<Rightarrow> (scan_error, nat \<times> html_state) res" where
  "skipCSSSpaceAndComments s cursor st =
     (if cursor < length s then
        if isHTMLSpace (js_at s cursor) then skipCSSSpaceAndComments s (cursor + 1) st
        else if opens_comment s cursor then
          res_bind (spendCSSToken st) (\<lambda>st'. skipCSSSpaceAndComments s (consumeCSSComment s cursor) st')
        else Inr (cursor, st)
      else Inr (cursor, st))"
  by pat_completeness auto
termination
  by (relation "measure (\<lambda>(s, cursor, st). length s - cursor)")
     (auto simp: consumeCSSComment_advances diff_less_mono2)

declare skipCSSSpaceAndComments.simps [simp del]

text \<open>The unquoted text of a \<open>url()\<close>: \<open>None\<close> for a destination CSS refuses.\<close>

function css_url_loop ::
  "jsstr \<Rightarrow> nat \<Rightarrow> jsstr \<Rightarrow> html_state \<Rightarrow> (scan_error, jsstr option \<times> nat \<times> html_state) res" where
  "css_url_loop s cursor decoded st =
     (if cursor < length s \<and> s ! cursor \<noteq> 41 \<and> \<not> isHTMLSpace (js_at s cursor) then
        if s ! cursor \<in> {34, 39, 40} then Inr (None, cursor + 1, st)
        else if opens_comment s cursor then
          res_bind (spendCSSToken st) (\<lambda>st'. css_url_loop s (consumeCSSComment s cursor) decoded st')
        else if s ! cursor = 92 then
          (case consumeCSSEscape s cursor of (d, p) \<Rightarrow> css_url_loop s p (decoded @ d) st)
        else css_url_loop s (cursor + 1) (decoded @ [s ! cursor]) st
      else Inr (Some decoded, cursor, st))"
  by pat_completeness auto
termination
  by (relation "measure (\<lambda>(s, cursor, decoded, st). length s - cursor)")
     (auto simp: consumeCSSComment_advances diff_less_mono2 dest!: consumeCSSEscape_advances [OF sym])

declare css_url_loop.simps [simp del]

definition close_paren :: "jsstr \<Rightarrow> nat \<Rightarrow> nat" where
  "close_paren s cursor = (if js_at s cursor = Some 41 then cursor + 1 else cursor)"

definition consumeCSSURL ::
  "jsstr \<Rightarrow> nat \<Rightarrow> html_state \<Rightarrow> (scan_error, jsstr option \<times> nat \<times> html_state) res" where
  "consumeCSSURL s position st =
     res_bind (skipCSSSpaceAndComments s position st) (\<lambda>(cursor, st1).
       if isQuote (js_at s cursor) then
         (case consumeCSSString s cursor of (decoded, p, valid) \<Rightarrow>
            res_bind (skipCSSSpaceAndComments s p st1) (\<lambda>(cursor2, st2).
              Inr (if valid then Some decoded else None, close_paren s cursor2, st2)))
       else
         res_bind (css_url_loop s cursor [] st1) (\<lambda>(destination, p, st2).
           case destination of
             None \<Rightarrow> Inr (None, p, st2)
           | Some decoded \<Rightarrow>
               res_bind (skipCSSSpaceAndComments s p st2) (\<lambda>(cursor2, st3).
                 Inr (Some decoded, close_paren s cursor2, st3))))"

section \<open>Tokens\<close>

record destination =
  de_destination :: jsstr
  de_line :: nat
  de_context :: link_context

record css_scan =
  cs_state :: html_state
  cs_found :: "destination list"
  cs_imageSets :: "nat list"
  cs_depth :: nat

definition css_push :: "nat \<Rightarrow> jsstr \<Rightarrow> css_scan \<Rightarrow> css_scan" where
  "css_push line d scan =
     scan\<lparr>cs_found := cs_found scan @ [\<lparr>de_destination = d, de_line = line, de_context = HtmlLink\<rparr>]\<rparr>"

definition css_spend :: "css_scan \<Rightarrow> (scan_error, css_scan) res" where
  "css_spend scan = res_bind (spendCSSToken (cs_state scan)) (\<lambda>st. Inr (scan\<lparr>cs_state := st\<rparr>))"

definition cssQuotedDestination :: "jsstr \<Rightarrow> nat \<Rightarrow> css_scan \<Rightarrow> nat \<Rightarrow> (scan_error, css_scan \<times> nat) res" where
  "cssQuotedDestination s line scan position =
     res_bind (css_spend scan) (\<lambda>sc.
       case consumeCSSString s position of (decoded, p, valid) \<Rightarrow>
         Inr (if valid \<and> decoded \<noteq> [] \<and> cs_depth sc \<in> set (cs_imageSets sc) then css_push line decoded sc else sc, p))"

definition cssImportDestination :: "jsstr \<Rightarrow> nat \<Rightarrow> css_scan \<Rightarrow> nat \<Rightarrow> (scan_error, css_scan \<times> nat) res" where
  "cssImportDestination s line scan position =
     (case consumeCSSName s (position + 1) of (name, p) \<Rightarrow>
        res_bind (css_spend scan) (\<lambda>sc.
        res_bind (skipCSSSpaceAndComments s p (cs_state sc)) (\<lambda>(pos, st).
          let sc1 = sc\<lparr>cs_state := st\<rparr> in
          if js_lower name = js ''import'' \<and> isQuote (js_at s pos) then
            res_bind (css_spend sc1) (\<lambda>sc2.
              case consumeCSSString s pos of (decoded, p2, valid) \<Rightarrow>
                Inr (if valid \<and> decoded \<noteq> [] then css_push line decoded sc2 else sc2, p2))
          else Inr (sc1, pos))))"

function skip_comments :: "jsstr \<Rightarrow> nat \<Rightarrow> css_scan \<Rightarrow> (scan_error, css_scan \<times> nat) res" where
  "skip_comments s cursor scan =
     (if opens_comment s cursor then
        res_bind (css_spend scan) (\<lambda>sc. skip_comments s (consumeCSSComment s cursor) sc)
      else Inr (scan, cursor))"
  by pat_completeness auto
termination
  by (relation "measure (\<lambda>(s, cursor, scan). length s - cursor)")
     (auto simp: consumeCSSComment_advances opens_comment_def js_at_Some_iff intro!: diff_less_mono2)

declare skip_comments.simps [simp del]

definition cssNamedToken :: "jsstr \<Rightarrow> nat \<Rightarrow> css_scan \<Rightarrow> nat \<Rightarrow> (scan_error, css_scan \<times> nat) res" where
  "cssNamedToken s line scan position =
     (case consumeCSSName s position of (name, p) \<Rightarrow>
        res_bind (skip_comments s p scan) (\<lambda>(sc0, afterName).
        res_bind (css_spend sc0) (\<lambda>sc.
          if js_at s afterName \<noteq> Some 40 then Inr (sc, afterName)
          else
            throw_if (cs_depth sc + 1 > pb_maxCSSDepth (hs_bounds (cs_state sc))) (CssDepth (pb_maxCSSDepth (hs_bounds (cs_state sc))))
            (if js_lower name = js ''url'' then
               res_bind (consumeCSSURL s (afterName + 1) (cs_state sc)) (\<lambda>(destination, p2, st).
                 let sc1 = sc\<lparr>cs_state := st\<rparr> in
                 Inr (case destination of None \<Rightarrow> sc1 | Some d \<Rightarrow> if d = [] then sc1 else css_push line d sc1, p2))
             else
               (let sc1 = sc\<lparr>cs_depth := cs_depth sc + 1\<rparr> in
                Inr (if js_lower name = js ''image-set'' \<or> js_lower name = js ''-webkit-image-set''
                     then sc1\<lparr>cs_imageSets := List.insert (cs_depth sc1) (cs_imageSets sc1)\<rparr> else sc1,
                     afterName + 1))))))"

definition cssBracket :: "css_scan \<Rightarrow> nat \<Rightarrow> (scan_error, css_scan) res" where
  "cssBracket scan c =
     (if c \<in> {40, 91, 123} then
        throw_if (cs_depth scan + 1 > pb_maxCSSDepth (hs_bounds (cs_state scan))) (CssDepth (pb_maxCSSDepth (hs_bounds (cs_state scan))))
          (Inr (scan\<lparr>cs_depth := cs_depth scan + 1\<rparr>))
      else if c \<in> {41, 93, 125} \<and> cs_depth scan > 0 then
        Inr (scan\<lparr>cs_imageSets := (if c = 41 then removeAll (cs_depth scan) (cs_imageSets scan) else cs_imageSets scan),
                  cs_depth := cs_depth scan - 1\<rparr>)
      else Inr scan)"

definition cssStep :: "jsstr \<Rightarrow> nat \<Rightarrow> bool \<Rightarrow> css_scan \<Rightarrow> nat \<Rightarrow> (scan_error, css_scan \<times> nat) res" where
  "cssStep s line allowImport scan position =
     (let c = js_at s position; following = js_at s (position + 1) in
      if isHTMLSpace c then Inr (scan, position + 1)
      else if opens_comment s position then
        res_bind (css_spend scan) (\<lambda>sc. Inr (sc, consumeCSSComment s position))
      else if isQuote c then cssQuotedDestination s line scan position
      else if c = Some 64 \<and> allowImport \<and> cs_depth scan = 0 \<and> (isCSSName following \<or> following = Some 92)
      then cssImportDestination s line scan position
      else if isCSSName c \<or> c = Some 92 then cssNamedToken s line scan position
      else res_bind (css_spend scan) (\<lambda>sc. res_bind (cssBracket sc (s ! position)) (\<lambda>sc'. Inr (sc', position + 1))))"

section \<open>Every token advances\<close>

lemma css_name_loop_le: "css_name_loop s i d = (d', j) \<Longrightarrow> i \<le> j"
proof (induction s i d rule: css_name_loop.induct)
  case (1 s i d)
  then show ?case
    by (subst (asm) (3) css_name_loop.simps)
       (auto split: if_splits prod.splits dest: consumeCSSEscape_advances intro: less_imp_le order_trans Suc_leD)
qed

lemma css_string_loop_le: "css_string_loop s q i d = (d', j, v) \<Longrightarrow> i \<le> j"
proof (induction s q i d rule: css_string_loop.induct)
  case (1 s q i d)
  then show ?case
    by (subst (asm) (3) css_string_loop.simps)
       (auto split: if_splits prod.splits dest: consumeCSSEscape_advances intro: less_imp_le order_trans Suc_leD)
qed

lemma consumeCSSName_advances:
  assumes "consumeCSSName s i = (d, j)" and "isCSSName (js_at s i) \<or> js_at s i = Some 92"
  shows "i < j"
proof -
  have i: "i < length s" using assms(2) by (auto simp: isCSSName_def js_at_def split: if_splits)
  show ?thesis
  proof (cases "s ! i = 92")
    case True
    obtain e p where e: "consumeCSSEscape s i = (e, p)" by (cases "consumeCSSEscape s i") auto
    have "css_name_loop s p ([] @ e) = (d, j)"
      using assms(1) i True e unfolding consumeCSSName_def by (subst (asm) css_name_loop.simps) simp
    from css_name_loop_le [OF this] consumeCSSEscape_advances [OF e] show ?thesis by simp
  next
    case False
    with assms(2) i have "isCSSName (js_at s i)" by (simp add: js_at_def)
    with assms(1) i False have "css_name_loop s (i + 1) ([] @ [s ! i]) = (d, j)"
      unfolding consumeCSSName_def by (subst (asm) css_name_loop.simps) simp
    from css_name_loop_le [OF this] show ?thesis by simp
  qed
qed

lemma consumeCSSString_advances: "consumeCSSString s i = (d, j, v) \<Longrightarrow> i < j"
  unfolding consumeCSSString_def by (auto dest: css_string_loop_le)

text \<open>What a stretch of scanning does to the shared state: it only spends tokens, within the budget.\<close>

definition spends :: "html_state \<Rightarrow> html_state \<Rightarrow> bool" where
  "spends st st' \<longleftrightarrow>
     hs_bounds st' = hs_bounds st \<and> hs_nodes st' = hs_nodes st \<and> hs_cssTokens st \<le> hs_cssTokens st' \<and>
     (hs_cssTokens st \<le> pb_maxCSSTokens (hs_bounds st) \<longrightarrow> hs_cssTokens st' \<le> pb_maxCSSTokens (hs_bounds st))"

lemma spends_refl [simp]: "spends st st"
  by (simp add: spends_def)

lemma spends_trans [trans]: "spends a b \<Longrightarrow> spends b c \<Longrightarrow> spends a c"
  by (auto simp: spends_def)

lemma spendCSSToken_spends:
  "spendCSSToken st = Inr st' \<Longrightarrow> spends st st' \<and> hs_cssTokens st' = hs_cssTokens st + 1"
  by (auto simp: spendCSSToken_def throw_if_Inr_iff spends_def)

lemma skipCSS_facts: "skipCSSSpaceAndComments s i st = Inr (j, st') \<Longrightarrow> i \<le> j \<and> spends st st'"
proof (induction s i st rule: skipCSSSpaceAndComments.induct)
  case (1 s i st)
  show ?case
  proof (cases "i < length s \<and> \<not> isHTMLSpace (js_at s i) \<and> opens_comment s i")
    case True
    with "1.prems" obtain st1 where st1: "spendCSSToken st = Inr st1"
      and rest: "skipCSSSpaceAndComments s (consumeCSSComment s i) st1 = Inr (j, st')"
      by (subst (asm) skipCSSSpaceAndComments.simps) (auto simp: res_bind_Inr_iff)
    from "1.IH"(2) [of st1] st1 True rest have "consumeCSSComment s i \<le> j \<and> spends st1 st'" by auto
    with consumeCSSComment_advances [of i s] spendCSSToken_spends [OF st1] show ?thesis
      by (auto intro: spends_trans less_imp_le less_le_trans)
  next
    case False
    with "1.prems" "1.IH"(1) show ?thesis
      by (subst (asm) skipCSSSpaceAndComments.simps) (auto split: if_splits)
  qed
qed

lemma css_url_loop_facts: "css_url_loop s i d st = Inr (r, j, st') \<Longrightarrow> i \<le> j \<and> spends st st'"
proof (induction s i d st rule: css_url_loop.induct)
  case (1 s i d st)
  let ?go = "i < length s \<and> s ! i \<noteq> 41 \<and> \<not> isHTMLSpace (js_at s i)"
  consider (stop) "\<not> ?go \<or> s ! i \<in> {34, 39, 40}"
    | (comment) "?go" "s ! i \<notin> {34, 39, 40}" "opens_comment s i"
    | (escape) "?go" "s ! i \<notin> {34, 39, 40}" "\<not> opens_comment s i" "s ! i = 92"
    | (unit) "?go" "s ! i \<notin> {34, 39, 40}" "\<not> opens_comment s i" "s ! i \<noteq> 92"
    by blast
  then show ?case
  proof cases
    case stop
    with "1.prems" show ?thesis by (subst (asm) css_url_loop.simps) (auto split: if_splits)
  next
    case comment
    with "1.prems" obtain st1 where st1: "spendCSSToken st = Inr st1"
      and rest: "css_url_loop s (consumeCSSComment s i) d st1 = Inr (r, j, st')"
      by (subst (asm) css_url_loop.simps) (auto simp: res_bind_Inr_iff)
    from "1.IH"(1) [of st1] st1 comment rest have "consumeCSSComment s i \<le> j \<and> spends st1 st'" by auto
    with consumeCSSComment_advances [of i s] spendCSSToken_spends [OF st1] show ?thesis
      by (auto intro: spends_trans less_imp_le less_le_trans)
  next
    case escape
    obtain e p where e: "consumeCSSEscape s i = (e, p)" by (cases "consumeCSSEscape s i") auto
    with escape "1.prems" have "css_url_loop s p (d @ e) st = Inr (r, j, st')"
      by (subst (asm) css_url_loop.simps) auto
    with "1.IH"(2) escape e have "p \<le> j \<and> spends st st'" by auto
    with consumeCSSEscape_advances [OF e] show ?thesis by auto
  next
    case unit
    with "1.prems" have "css_url_loop s (i + 1) (d @ [s ! i]) st = Inr (r, j, st')"
      by (subst (asm) css_url_loop.simps) auto
    with "1.IH"(3) unit show ?thesis by auto
  qed
qed

lemma close_paren_le: "i \<le> close_paren s i"
  by (simp add: close_paren_def)

lemma consumeCSSURL_facts:
  assumes "consumeCSSURL s i st = Inr (r, j, st')"
  shows "i \<le> j \<and> spends st st'"
proof -
  from assms obtain c st1 where skip: "skipCSSSpaceAndComments s i st = Inr (c, st1)"
    by (auto simp: consumeCSSURL_def res_bind_Inr_iff)
  note first = skipCSS_facts [OF skip]
  have closed: "k \<le> j \<and> spends st1 st'"
    if "skipCSSSpaceAndComments s k st2 = Inr (c2, st')" "j = close_paren s c2" "spends st1 st2" for k c2 st2
    using skipCSS_facts [OF that(1)] that(2,3) close_paren_le [of c2 s] by (auto intro: spends_trans order_trans)
  have "c \<le> j \<and> spends st1 st'"
  proof (cases "isQuote (js_at s c)")
    case True
    obtain d p v where str: "consumeCSSString s c = (d, p, v)" by (cases "consumeCSSString s c") auto
    with assms skip True obtain c2 where "skipCSSSpaceAndComments s p st1 = Inr (c2, st')" "j = close_paren s c2"
      by (auto simp: consumeCSSURL_def res_bind_Inr_iff)
    with closed [of p st1 c2] consumeCSSString_advances [OF str] show ?thesis by auto
  next
    case False
    with assms skip obtain dest p st2 where loop: "css_url_loop s c [] st1 = Inr (dest, p, st2)"
      and rest: "(case dest of None \<Rightarrow> Inr (None, p, st2) | Some decoded \<Rightarrow>
        res_bind (skipCSSSpaceAndComments s p st2) (\<lambda>(cursor2, st3). Inr (Some decoded, close_paren s cursor2, st3))) =
        Inr (r, j, st')"
      by (auto simp: consumeCSSURL_def res_bind_Inr_iff)
    show ?thesis
    proof (cases dest)
      case None
      with rest css_url_loop_facts [OF loop] show ?thesis by simp
    next
      case (Some d)
      with rest obtain c2 where "skipCSSSpaceAndComments s p st2 = Inr (c2, st')" "j = close_paren s c2"
        by (auto simp: res_bind_Inr_iff)
      with closed [of p st2 c2] css_url_loop_facts [OF loop] show ?thesis by auto
    qed
  qed
  with first show ?thesis by (auto intro: spends_trans)
qed

text \<open>What a token does to a scan: it spends at least one token for each destination it adds.\<close>

definition scans :: "css_scan \<Rightarrow> css_scan \<Rightarrow> bool" where
  "scans sc sc' \<longleftrightarrow>
     spends (cs_state sc) (cs_state sc') \<and> prefix (cs_found sc) (cs_found sc') \<and>
     length (cs_found sc') + hs_cssTokens (cs_state sc) \<le> length (cs_found sc) + hs_cssTokens (cs_state sc')"

lemma scans_refl [simp]: "scans sc sc"
  by (simp add: scans_def)

lemma scans_trans [trans]: "scans a b \<Longrightarrow> scans b c \<Longrightarrow> scans a c"
  by (auto simp: scans_def intro: spends_trans prefix_order.trans)

lemma scans_state: "spends (cs_state sc) st \<Longrightarrow> scans sc (sc\<lparr>cs_state := st\<rparr>)"
  by (auto simp: scans_def spends_def)

lemma scans_other:
  "scans sc (sc\<lparr>cs_depth := d\<rparr>) = True" "scans sc (sc\<lparr>cs_imageSets := e\<rparr>) = True"
  "scans sc (sc\<lparr>cs_imageSets := e, cs_depth := d\<rparr>) = True"
  "scans sc (sc\<lparr>cs_depth := d, cs_imageSets := e\<rparr>) = True"
  by (simp_all add: scans_def)

lemma css_spend_push:
  assumes "css_spend sc = Inr sc1"
  shows "scans sc sc1" and "scans sc1 sc2 \<Longrightarrow> cs_found sc2 = cs_found sc1 \<Longrightarrow> scans sc (css_push line d sc2)"
proof -
  from assms obtain st where "spendCSSToken (cs_state sc) = Inr st" and sc1: "sc1 = sc\<lparr>cs_state := st\<rparr>"
    by (auto simp: css_spend_def res_bind_Inr_iff)
  from spendCSSToken_spends [OF this(1)] have st: "spends (cs_state sc) st" "hs_cssTokens st = hs_cssTokens (cs_state sc) + 1"
    by auto
  with sc1 show "scans sc sc1" by (auto simp: scans_def)
  assume "scans sc1 sc2" and "cs_found sc2 = cs_found sc1"
  with sc1 st show "scans sc (css_push line d sc2)" by (auto simp: scans_def css_push_def intro: spends_trans)
qed

lemma skip_comments_facts:
  "skip_comments s i sc = Inr (sc', j) \<Longrightarrow> i \<le> j \<and> scans sc sc' \<and> cs_found sc' = cs_found sc"
proof (induction s i sc rule: skip_comments.induct)
  case (1 s i sc)
  show ?case
  proof (cases "opens_comment s i")
    case True
    with "1.prems" obtain sc1 where sc1: "css_spend sc = Inr sc1"
      and rest: "skip_comments s (consumeCSSComment s i) sc1 = Inr (sc', j)"
      by (subst (asm) skip_comments.simps) (auto simp: res_bind_Inr_iff)
    have "cs_found sc1 = cs_found sc" using sc1 by (auto simp: css_spend_def res_bind_Inr_iff)
    moreover have "consumeCSSComment s i \<le> j \<and> scans sc1 sc' \<and> cs_found sc' = cs_found sc1"
      using "1.IH" [of sc1] True sc1 rest by auto
    ultimately show ?thesis
      using consumeCSSComment_advances [of i s] css_spend_push(1) [OF sc1] by (auto intro: scans_trans)
  next
    case False
    with "1.prems" show ?thesis by (subst (asm) skip_comments.simps) auto
  qed
qed

lemma cssQuoted_facts:
  assumes "cssQuotedDestination s line sc i = Inr (sc', j)"
  shows "i < j \<and> scans sc sc'"
proof -
  obtain d p v where str: "consumeCSSString s i = (d, p, v)" by (cases "consumeCSSString s i") auto
  with assms obtain sc1 where sc1: "css_spend sc = Inr sc1" and "p = j"
    and "sc' = (if v \<and> d \<noteq> [] \<and> cs_depth sc1 \<in> set (cs_imageSets sc1) then css_push line d sc1 else sc1)"
    by (auto simp: cssQuotedDestination_def res_bind_Inr_iff)
  with css_spend_push [OF sc1] consumeCSSString_advances [OF str] show ?thesis by auto
qed

lemma cssImport_facts:
  assumes "cssImportDestination s line sc i = Inr (sc', j)"
  shows "i < j \<and> scans sc sc'"
proof -
  obtain name p where name: "consumeCSSName s (i + 1) = (name, p)" by (cases "consumeCSSName s (i + 1)") auto
  then have ip: "i < p" unfolding consumeCSSName_def by (auto dest: css_name_loop_le)
  from assms name obtain sc1 pos st where sc1: "css_spend sc = Inr sc1"
    and skip: "skipCSSSpaceAndComments s p (cs_state sc1) = Inr (pos, st)"
    and rest: "(if js_lower name = js ''import'' \<and> isQuote (js_at s pos) then
        res_bind (css_spend (sc1\<lparr>cs_state := st\<rparr>)) (\<lambda>sc2. case consumeCSSString s pos of (decoded, p2, valid) \<Rightarrow>
          Inr (if valid \<and> decoded \<noteq> [] then css_push line decoded sc2 else sc2, p2))
        else Inr (sc1\<lparr>cs_state := st\<rparr>, pos)) = Inr (sc', j)"
    by (auto simp: cssImportDestination_def res_bind_Inr_iff Let_def split: prod.splits)
  have one: "scans sc (sc1\<lparr>cs_state := st\<rparr>)" and pos: "p \<le> pos"
    using css_spend_push(1) [OF sc1] skipCSS_facts [OF skip] by (auto intro: scans_trans scans_state)
  show ?thesis
  proof (cases "js_lower name = js ''import'' \<and> isQuote (js_at s pos)")
    case True
    obtain d p2 v where str: "consumeCSSString s pos = (d, p2, v)" by (cases "consumeCSSString s pos") auto
    with rest True obtain sc2 where sc2: "css_spend (sc1\<lparr>cs_state := st\<rparr>) = Inr sc2" and "p2 = j"
      and "sc' = (if v \<and> d \<noteq> [] then css_push line d sc2 else sc2)"
      by (auto simp: res_bind_Inr_iff)
    then have "scans (sc1\<lparr>cs_state := st\<rparr>) sc'" using css_spend_push [OF sc2] by auto
    with one pos ip consumeCSSString_advances [OF str] \<open>p2 = j\<close> show ?thesis by (auto intro: scans_trans)
  next
    case False
    then have "sc1\<lparr>cs_state := st\<rparr> = sc' \<and> pos = j" using rest by auto
    with one pos ip show ?thesis by auto
  qed
qed

lemma cssNamed_facts:
  assumes "cssNamedToken s line sc i = Inr (sc', j)" and "isCSSName (js_at s i) \<or> js_at s i = Some 92"
  shows "i < j \<and> scans sc sc'"
proof -
  obtain name p where name: "consumeCSSName s i = (name, p)" by (cases "consumeCSSName s i") auto
  from assms(1) name obtain sc0 after sc1 where com: "skip_comments s p sc = Inr (sc0, after)"
    and sc1: "css_spend sc0 = Inr sc1"
    by (auto simp: cssNamedToken_def res_bind_Inr_iff)
  note adv = consumeCSSName_advances [OF name assms(2)] and com' = skip_comments_facts [OF com]
  note rest = assms(1) [unfolded cssNamedToken_def name prod.case com sc1 res_bind_simps]
  have one: "scans sc sc1" using com' css_spend_push(1) [OF sc1] by (auto intro: scans_trans)
  show ?thesis
  proof (cases "js_at s after = Some 40 \<and> js_lower name = js ''url''")
    case True
    with rest obtain dest p2 st where url: "consumeCSSURL s (after + 1) (cs_state sc1) = Inr (dest, p2, st)" and "p2 = j"
      and sc': "sc' = (case dest of None \<Rightarrow> sc1\<lparr>cs_state := st\<rparr>
        | Some d \<Rightarrow> if d = [] then sc1\<lparr>cs_state := st\<rparr> else css_push line d (sc1\<lparr>cs_state := st\<rparr>))"
      by (auto simp: res_bind_Inr_iff throw_if_Inr_iff Let_def)
    note u = consumeCSSURL_facts [OF url]
    then have st: "scans sc1 (sc1\<lparr>cs_state := st\<rparr>)" by (auto intro: scans_state)
    have "scans sc0 sc'"
      using css_spend_push(1) [OF sc1] css_spend_push(2) [OF sc1 st] st
      by (auto simp: sc' split: option.splits intro: scans_trans)
    with adv com' u \<open>p2 = j\<close> show ?thesis by (auto intro: scans_trans)
  next
    case False
    then have "scans sc1 sc' \<and> after \<le> j"
      using rest by (auto simp: throw_if_Inr_iff Let_def scans_other split: if_splits)
    with one adv com' show ?thesis by (auto intro: scans_trans)
  qed
qed

lemma cssStep_facts:
  assumes "cssStep s line allow sc i = Inr (sc', j)"
  shows "i < j \<and> scans sc sc'"
proof -
  have plain: "i < j \<and> scans sc sc'"
    if "res_bind (css_spend sc) (\<lambda>sc. res_bind (cssBracket sc (s ! i)) (\<lambda>sc'. Inr (sc', Suc i))) = Inr (sc', j)"
  proof -
    from that obtain sc1 where sc1: "css_spend sc = Inr sc1" and br: "cssBracket sc1 (s ! i) = Inr sc'" and "j = i + 1"
      by (auto simp: res_bind_Inr_iff)
    from br have "scans sc1 sc'"
      by (auto simp: cssBracket_def throw_if_Inr_iff scans_other split: if_splits)
    with css_spend_push(1) [OF sc1] \<open>j = i + 1\<close> show ?thesis by (auto intro: scans_trans)
  qed
  have comment: "i < j \<and> scans sc sc'"
    if "res_bind (css_spend sc) (\<lambda>sc. Inr (sc, consumeCSSComment s i)) = Inr (sc', j)"
    using that css_spend_push(1) consumeCSSComment_advances [of i s] by (auto simp: res_bind_Inr_iff)
  show ?thesis
    using assms unfolding cssStep_def Let_def
    by (auto split: if_splits dest: cssQuoted_facts cssImport_facts cssNamed_facts plain comment)
qed

section \<open>The scan\<close>

function css_loop :: "jsstr \<Rightarrow> nat \<Rightarrow> bool \<Rightarrow> css_scan \<Rightarrow> nat \<Rightarrow> (scan_error, css_scan) res" where
  "css_loop s line allowImport scan position =
     (if position < length s then
        res_bind (cssStep s line allowImport scan position) (\<lambda>(sc, p). css_loop s line allowImport sc p)
      else Inr scan)"
  by pat_completeness auto
termination
  by (relation "measure (\<lambda>(s, line, allowImport, scan, position). length s - position)")
     (auto dest!: cssStep_facts intro: diff_less_mono2)

declare css_loop.simps [simp del]

definition cssDestinations ::
  "jsstr \<Rightarrow> nat \<Rightarrow> bool \<Rightarrow> html_state \<Rightarrow> (scan_error, destination list \<times> html_state) res" where
  "cssDestinations s line allowImport st =
     res_bind (css_loop s line allowImport \<lparr>cs_state = st, cs_found = [], cs_imageSets = [], cs_depth = 0\<rparr> 0)
       (\<lambda>sc. Inr (cs_found sc, cs_state sc))"

lemma css_loop_scans: "css_loop s line allow sc i = Inr sc' \<Longrightarrow> scans sc sc'"
proof (induction s line allow sc i rule: css_loop.induct)
  case (1 s line allow sc i)
  show ?case
  proof (cases "i < length s")
    case True
    with "1.prems" obtain sc1 p where step: "cssStep s line allow sc i = Inr (sc1, p)"
      and rest: "css_loop s line allow sc1 p = Inr sc'"
      by (subst (asm) css_loop.simps) (auto simp: res_bind_Inr_iff)
    with "1.IH" True have "scans sc1 sc'" by auto
    with cssStep_facts [OF step] show ?thesis by (auto intro: scans_trans)
  next
    case False
    with "1.prems" show ?thesis by (subst (asm) css_loop.simps) auto
  qed
qed

lemma cssDestinations_spends:
  assumes "cssDestinations s line allow st = Inr (found, st')"
  shows "spends st st' \<and> length found + hs_cssTokens st \<le> hs_cssTokens st'"
  using assms by (auto simp: cssDestinations_def res_bind_Inr_iff scans_def dest!: css_loop_scans)

section \<open>A plain url()\<close>

text \<open>Units that an unquoted \<open>url()\<close> takes as they are.\<close>

definition url_unit :: "nat \<Rightarrow> bool" where
  "url_unit c \<longleftrightarrow> c \<notin> {9, 10, 12, 13, 32, 34, 39, 40, 41, 92}"

lemma css_url_loop_plain:
  assumes "s = a @ path @ 41 # rest" and "\<forall>c \<in> set path. url_unit c" and "\<not> js_includes (path @ [41]) [47, 42]"
  shows "css_url_loop s (length a) d st = Inr (Some (d @ path), length a + length path, st)"
  using assms
proof (induction path arbitrary: a d)
  case Nil
  then show ?case by (subst css_url_loop.simps) simp
next
  case (Cons c path)
  have c: "url_unit c" using Cons.prems by simp
  have at: "s ! length a = c" "length a < length s" "js_at s (length a) = Some c"
    using Cons.prems(1) by (auto simp: js_at_def)
  have "js_at s (length a + 1) = js_at (path @ [41]) 0"
    using Cons.prems(1) by (cases path) (auto simp: js_at_def nth_append)
  then have comment: "\<not> opens_comment s (length a)"
    using Cons.prems(3) at by (cases path) (auto simp: opens_comment_def js_includes_def split: if_splits)
  have "css_url_loop s (length a) d st = css_url_loop s (length (a @ [c])) (d @ [c]) st"
    by (subst css_url_loop.simps) (use at c comment in \<open>simp add: url_unit_def isHTMLSpace_def\<close>)
  moreover have "\<not> js_includes (path @ [41]) [47, 42]"
    using Cons.prems(3) by (auto simp: js_includes_def split: if_splits)
  ultimately show ?case using Cons.IH [of "a @ [c]" "d @ [c]"] Cons.prems(1,2) by simp
qed

lemma skipCSS_stop:
  "\<not> isHTMLSpace (js_at s i) \<Longrightarrow> \<not> opens_comment s i \<Longrightarrow> skipCSSSpaceAndComments s i st = Inr (i, st)"
  by (subst skipCSSSpaceAndComments.simps) simp

lemma consumeCSSName_url: "consumeCSSName (117 # 114 # 108 # 40 # r) 0 = (js ''url'', 3)"
  unfolding consumeCSSName_def
  by (subst css_name_loop.simps, simp add: isCSSName_def is_alpha_def is_dec_def js_at_def numeral_eq_Suc)+

lemma consumeCSSURL_plain:
  assumes "path \<noteq> []" and "\<forall>c \<in> set path. url_unit c" and "\<not> js_includes (path @ [41]) [47, 42]"
  shows "consumeCSSURL (js ''url('' @ path @ [41]) 4 st = Inr (Some path, length path + 5, st)"
proof -
  let ?s = "js ''url('' @ path @ [41]"
  obtain c r where path: "path = c # r" using assms(1) by (cases path) auto
  have start: "\<not> isHTMLSpace (js_at ?s 4)" "\<not> opens_comment ?s 4" "\<not> isQuote (js_at ?s 4)"
  proof -
    have at: "js_at ?s 4 = Some c" by (simp add: path)
    show "\<not> isHTMLSpace (js_at ?s 4)" "\<not> isQuote (js_at ?s 4)"
      using at assms(2) path by (auto simp: isHTMLSpace_def isQuote_def url_unit_def)
    have "js_at ?s 5 = js_at (r @ [41]) 0" by (simp add: path numeral_eq_Suc)
    then show "\<not> opens_comment ?s 4"
      using at assms(3) path by (cases r) (auto simp: opens_comment_def js_includes_def split: if_splits)
  qed
  have fin: "js_at ?s (4 + length path) = Some 41" by (simp add: js_at_def numeral_eq_Suc nth_append)
  then have fin': "\<not> isHTMLSpace (js_at ?s (4 + length path))" "\<not> opens_comment ?s (4 + length path)"
    by (auto simp: isHTMLSpace_def opens_comment_def)
  have loop: "css_url_loop ?s 4 [] st = Inr (Some path, 4 + length path, st)"
    using css_url_loop_plain [of ?s "js ''url(''" path "[]" "[]" st] assms by (simp add: numeral_eq_Suc)
  show ?thesis
    unfolding consumeCSSURL_def skipCSS_stop [OF start(1,2)] res_bind_simps prod.case
    using start(3) fin by (simp only: loop res_bind_simps prod.case option.case skipCSS_stop [OF fin'] if_False close_paren_def) simp
qed

lemma cssDestinations_url:
  assumes "path \<noteq> []" and "\<forall>c \<in> set path. url_unit c" and "\<not> js_includes (path @ [41]) [47, 42]"
    and "hs_cssTokens st < pb_maxCSSTokens (hs_bounds st)" and "0 < pb_maxCSSDepth (hs_bounds st)"
  shows "cssDestinations (js ''url('' @ path @ [41]) line allow st =
    Inr ([\<lparr>de_destination = path, de_line = line, de_context = HtmlLink\<rparr>], st\<lparr>hs_cssTokens := hs_cssTokens st + 1\<rparr>)"
proof -
  let ?s = "js ''url('' @ path @ [41]" and ?st = "st\<lparr>hs_cssTokens := hs_cssTokens st + 1\<rparr>"
  have at: "js_at ?s 0 = Some 117" "js_at ?s (Suc 0) = Some 114" "js_at ?s 3 = Some 40" "js_at ?s 4 \<noteq> None"
    by (simp_all add: js_at_def numeral_eq_Suc)
  have name: "consumeCSSName ?s 0 = (js ''url'', 3)" using consumeCSSName_url [of "path @ [41]"] by simp
  have named: "cssNamedToken ?s line sc 0 =
      Inr (css_push line path (sc\<lparr>cs_state := ?st\<rparr>), length path + 5)"
    if "sc = \<lparr>cs_state = st, cs_found = [], cs_imageSets = [], cs_depth = 0\<rparr>" for sc
    unfolding cssNamedToken_def name prod.case
    using assms consumeCSSURL_plain [OF assms(1-3)] that at
    by (simp add: skip_comments.simps opens_comment_def css_spend_def spendCSSToken_def throw_if_def lower_unit_def)
  have step: "cssStep ?s line allow sc 0 = cssNamedToken ?s line sc 0" for sc
    using at by (simp add: cssStep_def Let_def isHTMLSpace_def opens_comment_def isQuote_def isCSSName_def is_alpha_def)
  have "css_loop ?s line allow sc 0 = css_loop ?s line allow (css_push line path (sc\<lparr>cs_state := ?st\<rparr>)) (length path + 5)"
    if "sc = \<lparr>cs_state = st, cs_found = [], cs_imageSets = [], cs_depth = 0\<rparr>" for sc
    using step [of sc] named [OF that] by (subst css_loop.simps) simp
  moreover have "css_loop ?s line allow sc (length path + 5) = Inr sc" for sc
    by (subst css_loop.simps) simp
  ultimately show ?thesis unfolding cssDestinations_def by (simp add: css_push_def)
qed

section \<open>Properties\<close>

text \<open>
  C21. Scanning embedded CSS stays within the budget the whole file shares: whatever the text, a scan that
  succeeds spends only tokens, never passes the maximum, leaves the bounds alone, and reports at most one
  destination per token spent; and a plain \<open>url(path)\<close> is reported as the path, for one token.
\<close>

theorem cssDestinations_bounded:
  "(cssDestinations s line allow st = Inr (found, st') \<longrightarrow>
     hs_bounds st' = hs_bounds st \<and> hs_nodes st' = hs_nodes st \<and>
     length found + hs_cssTokens st \<le> hs_cssTokens st' \<and>
     (hs_cssTokens st \<le> pb_maxCSSTokens (hs_bounds st) \<longrightarrow> hs_cssTokens st' \<le> pb_maxCSSTokens (hs_bounds st))) \<and>
   (path \<noteq> [] \<and> (\<forall>c \<in> set path. url_unit c) \<and> \<not> js_includes (path @ [41]) [47, 42] \<and>
    hs_cssTokens st < pb_maxCSSTokens (hs_bounds st) \<and> 0 < pb_maxCSSDepth (hs_bounds st) \<longrightarrow>
    cssDestinations (js ''url('' @ path @ [41]) line allow st =
      Inr ([\<lparr>de_destination = path, de_line = line, de_context = HtmlLink\<rparr>], st\<lparr>hs_cssTokens := hs_cssTokens st + 1\<rparr>))"
  using cssDestinations_spends [of s line allow st found st'] cssDestinations_url [of path st line allow]
  by (auto simp: spends_def)

definition sample_bounds :: parser_bounds where
  "sample_bounds = \<lparr>pb_maxHTMLNodes = 4, pb_maxHTMLDepth = 1, pb_maxCSSTokens = 3, pb_maxCSSDepth = 2\<rparr>"

definition sample_state :: html_state where
  "sample_state = \<lparr>hs_bounds = sample_bounds, hs_nodes = 0, hs_cssTokens = 0\<rparr>"

lemma cssDestinations_bounded_witness:
  "cssDestinations (js ''url(../.workingdir/x)'') 7 False sample_state =
     Inr ([\<lparr>de_destination = js ''../.workingdir/x'', de_line = 7, de_context = HtmlLink\<rparr>],
          sample_state\<lparr>hs_cssTokens := 1\<rparr>)"
  using cssDestinations_bounded [of "[]" 7 False sample_state "[]" sample_state "js ''../.workingdir/x''"]
  by (simp add: url_unit_def js_includes_def sample_state_def sample_bounds_def)

end
