(* ===== verification/ScratchHTML.thy ===== *)
theory ScratchHTML
  imports ScratchCSS
begin

text \<open>
  The HTML scanner of the private-scratch-link rule
  (\<^verbatim>\<open>src/tools/markdownlint/no-private-scratch-links.mjs\<close>): which attributes carry destinations, how a
  \<open>srcset\<close>, a space-separated list and a meta refresh are read, and \<open>collectHTML\<close>, which walks a fragment
  and every \<open>srcdoc\<close> document nested in it on an explicit stack. The parsed fragments come from the HTML parser.
\<close>

section \<open>Attribute values\<close>

definition HTML_URL_ATTRIBUTES :: "jsstr list" where
  "HTML_URL_ATTRIBUTES =
     [js ''action'', js ''archive'', js ''background'', js ''cite'', js ''codebase'', js ''data'', js ''formaction'', js ''href'',
      js ''icon'', js ''itemid'', js ''longdesc'', js ''manifest'', js ''ping'', js ''poster'', js ''profile'', js ''src'',
      js ''usemap'', js ''xlink:href'', js ''xlinkhref'']"

definition HTML_SRCSET_ATTRIBUTES :: "jsstr list" where
  "HTML_SRCSET_ATTRIBUTES = [js ''imagesrcset'', js ''srcset'']"

definition HTML_SPACE_SEPARATED_URL_ATTRIBUTES :: "jsstr list" where
  "HTML_SPACE_SEPARATED_URL_ATTRIBUTES = [js ''archive'', js ''ping'']"

definition HTML_CSS_URL_ATTRIBUTES :: "jsstr list" where
  "HTML_CSS_URL_ATTRIBUTES =
     [js ''clip-path'', js ''clippath'', js ''cursor'', js ''fill'', js ''filter'', js ''marker'', js ''marker-end'',
      js ''marker-mid'', js ''marker-start'', js ''markerend'', js ''markermid'', js ''markerstart'', js ''mask'', js ''stroke'']"

abbreviation html_space :: "nat \<Rightarrow> bool" where "html_space c \<equiv> isHTMLSpace (Some c)"

text \<open>The text still to read stands for the position in the value.\<close>

definition srcset_next :: "jsstr \<Rightarrow> jsstr \<times> jsstr" where
  "srcset_next rest =
     (let start = dropWhile (\<lambda>c. html_space c \<or> c = 44) rest;
          dataURL = (js_lower (take 5 start) = js ''data:'');
          candidate = (\<lambda>c. \<not> html_space c \<and> (dataURL \<or> c \<noteq> 44));
          after = dropWhile candidate start in
      (takeWhile candidate start,
       case after of
         c # r \<Rightarrow> if c = 44 then r else dropWhile (\<lambda>c. c \<noteq> 44) after
       | [] \<Rightarrow> []))"

lemma length_dropWhile_less: "xs \<noteq> [] \<Longrightarrow> P (hd xs) \<Longrightarrow> length (dropWhile P xs) < length xs"
  using length_dropWhile_le [of P "tl xs"] by (cases xs) auto

lemma srcset_next_consumes:
  assumes "rest \<noteq> []"
  shows "length (snd (srcset_next rest)) < length rest"
proof -
  define start where "start = dropWhile (\<lambda>c. html_space c \<or> c = 44) rest"
  define candidate where "candidate = (\<lambda>c. \<not> html_space c \<and> (js_lower (take 5 start) = js ''data:'' \<or> c \<noteq> 44))"
  define after where "after = dropWhile candidate start"
  have next_: "snd (srcset_next rest) = (case after of c # r \<Rightarrow> if c = 44 then r else dropWhile (\<lambda>c. c \<noteq> 44) after | [] \<Rightarrow> [])"
    unfolding srcset_next_def Let_def start_def candidate_def after_def by simp
  have start_le: "length start \<le> length rest" unfolding start_def by (rule length_dropWhile_le)
  show ?thesis
  proof (cases after)
    case Nil
    with next_ assms show ?thesis by simp
  next
    case (Cons c r)
    have "start \<noteq> []" using Cons by (auto simp: after_def)
    then have "candidate (hd start)"
      using hd_dropWhile [of "\<lambda>c. html_space c \<or> c = 44" rest] by (auto simp: start_def candidate_def)
    with \<open>start \<noteq> []\<close> have "length after < length start" unfolding after_def by (rule length_dropWhile_less)
    moreover have "length (snd (srcset_next rest)) \<le> length after"
      using next_ Cons length_dropWhile_le [of "\<lambda>c. c \<noteq> 44" after] by auto
    ultimately show ?thesis using start_le by simp
  qed
qed

function srcset_loop :: "jsstr \<Rightarrow> jsstr list \<Rightarrow> jsstr list" where
  "srcset_loop rest found =
     (if rest \<noteq> [] \<and> length found \<le> MAX_SRCSET_CANDIDATES then
        (let destination = fst (srcset_next rest) in
         srcset_loop (snd (srcset_next rest)) (if destination \<noteq> [] then found @ [destination] else found))
      else found)"
  by pat_completeness auto
termination
  by (relation "measure (\<lambda>(rest, found). length rest)") (auto intro: srcset_next_consumes)

declare srcset_loop.simps [simp del]

definition srcsetDestinations :: "jsstr \<Rightarrow> (scan_error, jsstr list) res" where
  "srcsetDestinations content =
     (let found = srcset_loop content [] in
      throw_if (length found > MAX_SRCSET_CANDIDATES) SrcsetCandidates (Inr found))"

function space_loop :: "nat \<Rightarrow> jsstr \<Rightarrow> jsstr list \<Rightarrow> jsstr list" where
  "space_loop limit rest found =
     (if rest \<noteq> [] \<and> length found \<le> limit then
        (let start = dropWhile html_space rest; word = takeWhile (\<lambda>c. \<not> html_space c) start in
         space_loop limit (dropWhile (\<lambda>c. \<not> html_space c) start) (if word \<noteq> [] then found @ [word] else found))
      else found)"
  by pat_completeness auto

lemma space_loop_consumes: "rest \<noteq> [] \<Longrightarrow> length (dropWhile (\<lambda>c. \<not> P c) (dropWhile P rest)) < length rest"
proof (cases "P (hd rest)")
  case True
  assume "rest \<noteq> []"
  with True length_dropWhile_less [of rest P] length_dropWhile_le [of "\<lambda>c. \<not> P c" "dropWhile P rest"] show ?thesis
    by linarith
next
  case False
  assume "rest \<noteq> []"
  with False have "dropWhile P rest = rest" by (cases rest) auto
  with False \<open>rest \<noteq> []\<close> length_dropWhile_less [of rest "\<lambda>c. \<not> P c"] show ?thesis by simp
qed

termination space_loop
  by (relation "measure (\<lambda>(limit, rest, found). length rest)") (auto intro: space_loop_consumes)

declare space_loop.simps [simp del]

definition spaceSeparatedDestinations :: "jsstr \<Rightarrow> nat \<Rightarrow> (scan_error, jsstr list) res" where
  "spaceSeparatedDestinations content limit =
     (let found = space_loop limit content [] in
      throw_if (length found > limit) (TooManyDestinations limit) (Inr found))"

definition htmlAttributeDestinations :: "jsstr \<Rightarrow> jsstr \<Rightarrow> nat \<Rightarrow> (scan_error, jsstr list) res" where
  "htmlAttributeDestinations name content limit =
     (if name \<in> set HTML_SRCSET_ATTRIBUTES then srcsetDestinations content
      else if name \<in> set HTML_SPACE_SEPARATED_URL_ATTRIBUTES then spaceSeparatedDestinations content limit
      else Inr [content])"

definition appendHTMLDestination ::
  "nat \<Rightarrow> nat \<Rightarrow> link_context \<Rightarrow> jsstr \<Rightarrow> destination list \<Rightarrow> (scan_error, destination list) res" where
  "appendHTMLDestination line limit cx d found =
     throw_if (length found \<ge> limit) (TooManyDestinations limit)
       (Inr (found @ [\<lparr>de_destination = d, de_line = line, de_context = cx\<rparr>]))"

definition jsx_expression :: "jsstr \<Rightarrow> bool" where
  "jsx_expression content \<longleftrightarrow> js_starts (js_trim_start content) [123]"

definition rejectJSXURLExpression :: "jsstr \<Rightarrow> jsstr \<Rightarrow> (scan_error, unit) res" where
  "rejectJSXURLExpression name content = throw_if (jsx_expression content) (JsxExpression name) (Inr ())"

definition nodeAttribute :: "html_node \<Rightarrow> jsstr \<Rightarrow> (scan_error, (jsstr \<times> jsstr) option) res" where
  "nodeAttribute node name =
     throw_if (length (nd_attrs node) > MAX_HTML_NODES) TooManyAttributes
       (Inr (find (\<lambda>(n, _). js_lower n = name) (nd_attrs node)))"

section \<open>Meta refresh\<close>

definition skipHTMLSpace :: "jsstr \<Rightarrow> jsstr" where "skipHTMLSpace s = dropWhile html_space s"

definition isASCIIDigit :: "nat \<Rightarrow> bool" where "isASCIIDigit c \<longleftrightarrow> 48 \<le> c \<and> c \<le> 57"

definition lower_head :: "jsstr \<Rightarrow> nat \<Rightarrow> bool" where
  "lower_head s c \<longleftrightarrow> (case s of [] \<Rightarrow> False | x # _ \<Rightarrow> js_lower [x] = [c])"

text \<open>The quoted or bare text at the end of a refresh.\<close>

definition refresh_target :: "jsstr \<Rightarrow> jsstr" where
  "refresh_target s =
     (case s of
        c # r \<Rightarrow> if c = 34 \<or> c = 39 then takeWhile (\<lambda>x. x \<noteq> c) r else s
      | [] \<Rightarrow> [])"

definition metaRefreshDestination :: "jsstr \<Rightarrow> jsstr option" where
  "metaRefreshDestination content =
     (let start = skipHTMLSpace content; p = dropWhile isASCIIDigit start;
          q = dropWhile (\<lambda>c. isASCIIDigit c \<or> c = 46) p in
      if length p = length start \<and> js_at p 0 \<noteq> Some 46 then None
      else
        (case q of
           [] \<Rightarrow> None
         | c # _ \<Rightarrow>
             if c \<noteq> 59 \<and> c \<noteq> 44 \<and> \<not> html_space c then None
             else
               (let r = skipHTMLSpace q;
                    fallback = skipHTMLSpace (case r of d # r' \<Rightarrow> if d = 59 \<or> d = 44 then r' else r | [] \<Rightarrow> r) in
                if fallback = [] then None
                else if lower_head fallback 117 then
                  (if \<not> lower_head (drop 1 fallback) 114 then Some fallback
                   else if \<not> lower_head (drop 2 fallback) 108 then Some fallback
                   else
                     (let eq = skipHTMLSpace (drop 3 fallback) in
                      if js_at eq 0 \<noteq> Some 61 then Some fallback
                      else Some (refresh_target (skipHTMLSpace (drop 1 eq)))))
                else Some (refresh_target fallback))))"

section \<open>Collecting a node\<close>

text \<open>The state all of a file's embedded HTML shares and the destinations found so far.\<close>

type_synonym html_scan = "html_state \<times> destination list"

definition attribute_line :: "html_node \<Rightarrow> nat \<Rightarrow> jsstr \<Rightarrow> jsstr \<Rightarrow> nat" where
  "attribute_line node startLine name fallback =
     startLine + (case map_of (nd_locations node) name of
        Some l \<Rightarrow> l
      | None \<Rightarrow> (case map_of (nd_locations node) fallback of Some l \<Rightarrow> l | None \<Rightarrow> 1)) - 1"

definition append_all ::
  "nat \<Rightarrow> nat \<Rightarrow> link_context \<Rightarrow> jsstr list \<Rightarrow> destination list \<Rightarrow> (scan_error, destination list) res" where
  "append_all line limit cx ds found = fold_res (appendHTMLDestination line limit cx) ds found"

definition html_attribute_step ::
  "html_node \<Rightarrow> nat \<Rightarrow> nat \<Rightarrow> bool \<Rightarrow> jsstr \<times> jsstr \<Rightarrow> html_scan \<Rightarrow> (scan_error, html_scan) res" where
  "html_attribute_step node startLine limit mdxJSX attribute scan =
     (let (raw, content) = attribute; (st, found) = scan; name = js_lower raw;
          line = attribute_line node startLine raw name in
      if name \<in> set HTML_URL_ATTRIBUTES \<or> name \<in> set HTML_SRCSET_ATTRIBUTES then
        (if mdxJSX \<and> jsx_expression content then Inr scan
         else
           res_bind (rejectJSXURLExpression name content) (\<lambda>_.
           res_bind (htmlAttributeDestinations name content (limit - length found)) (\<lambda>ds.
           res_bind (append_all line limit HtmlLink ds found) (\<lambda>found'. Inr (st, found')))))
      else if name = js ''style'' \<or> name \<in> set HTML_CSS_URL_ATTRIBUTES then
        (if mdxJSX \<and> jsx_expression content then Inr scan
         else
           res_bind (rejectJSXURLExpression name content) (\<lambda>_.
           res_bind (cssDestinations content line False st) (\<lambda>(css, st').
           res_bind (append_all line limit HtmlLink (map de_destination css) found) (\<lambda>found'. Inr (st', found')))))
      else Inr scan)"

definition collectHTMLAttributes ::
  "html_node \<Rightarrow> nat \<Rightarrow> nat \<Rightarrow> bool \<Rightarrow> html_scan \<Rightarrow> (scan_error, html_scan) res" where
  "collectHTMLAttributes node startLine limit mdxJSX scan =
     throw_if (length (nd_attrs node) > MAX_HTML_NODES) TooManyAttributes
       (fold_res (html_attribute_step node startLine limit mdxJSX) (nd_attrs node) scan)"

definition has_tag :: "html_node \<Rightarrow> jsstr \<Rightarrow> bool" where
  "has_tag node tag \<longleftrightarrow> (case nd_tag node of None \<Rightarrow> False | Some t \<Rightarrow> js_lower t = tag)"

text \<open>The name of the \<open>content\<close> attribute and the destination of a meta refresh.\<close>

definition refresh_destination :: "(jsstr \<times> jsstr) option \<Rightarrow> (jsstr \<times> jsstr) option \<Rightarrow> (jsstr \<times> jsstr) option" where
  "refresh_destination httpEquiv content =
     (case (httpEquiv, content) of
        (Some (_, v), Some (cname, cvalue)) \<Rightarrow>
          if js_lower (js_trim v) \<noteq> js ''refresh'' then None
          else
            (case metaRefreshDestination cvalue of
               None \<Rightarrow> None
             | Some d \<Rightarrow> if d = [] then None else Some (cname, d))
      | _ \<Rightarrow> None)"

definition collectMetaRefresh :: "html_node \<Rightarrow> nat \<Rightarrow> nat \<Rightarrow> html_scan \<Rightarrow> (scan_error, html_scan) res" where
  "collectMetaRefresh node startLine limit scan =
     (if \<not> has_tag node (js ''meta'') then Inr scan
      else
        res_bind (nodeAttribute node (js ''http-equiv'')) (\<lambda>first.
        res_bind (case first of Some a \<Rightarrow> Inr (Some a) | None \<Rightarrow> nodeAttribute node (js ''httpequiv'')) (\<lambda>httpEquiv.
        res_bind (nodeAttribute node (js ''content'')) (\<lambda>content.
          case refresh_destination httpEquiv content of
            None \<Rightarrow> Inr scan
          | Some (cname, d) \<Rightarrow>
              res_bind (appendHTMLDestination (attribute_line node startLine cname (js ''content'')) limit HtmlLink d (snd scan))
                (\<lambda>found. Inr (fst scan, found))))))"

definition style_step ::
  "nat \<Rightarrow> nat \<Rightarrow> html_node \<Rightarrow> html_scan \<Rightarrow> (scan_error, html_scan) res" where
  "style_step startLine limit child scan =
     (case nd_value child of
        Some content \<Rightarrow>
          if nd_name child \<noteq> js ''#text'' \<or> content = [] then Inr scan
          else
            (let line = startLine + or_default (nd_line child) 1 - 1 in
             res_bind (cssDestinations content line True (fst scan)) (\<lambda>(css, st').
             res_bind (append_all line limit HtmlLink (map de_destination css) (snd scan)) (\<lambda>found'. Inr (st', found'))))
      | None \<Rightarrow> Inr scan)"

definition collectStyleElement :: "html_node \<Rightarrow> nat \<Rightarrow> nat \<Rightarrow> html_scan \<Rightarrow> (scan_error, html_scan) res" where
  "collectStyleElement node startLine limit scan =
     (if \<not> has_tag node (js ''style'') then Inr scan
      else
        (let children = or_default (nd_children node) [] in
         throw_if (length children > MAX_HTML_NODES) TooManyStyleChildren
           (fold_res (style_step startLine limit) children scan)))"

section \<open>Walking fragments\<close>

text \<open>A frame: the nodes still to read with the next one first, the line and the nesting depth.\<close>

record html_frame =
  fr_pending :: "html_node list"
  fr_startLine :: nat
  fr_depth :: nat

definition htmlFrame :: "fragment_parser \<Rightarrow> jsstr \<Rightarrow> nat \<Rightarrow> nat \<Rightarrow> html_state \<Rightarrow> (scan_error, html_frame) res" where
  "htmlFrame pf fragment startLine depth st =
     throw_if (depth > pb_maxHTMLDepth (hs_bounds st)) (HtmlDepth (pb_maxHTMLDepth (hs_bounds st)))
       (Inr \<lparr>fr_pending = rev (pf fragment), fr_startLine = startLine, fr_depth = depth\<rparr>)"

definition collectHTMLNode ::
  "fragment_parser \<Rightarrow> nat \<Rightarrow> bool \<Rightarrow> html_frame \<Rightarrow> html_scan \<Rightarrow>
   (scan_error, html_frame \<times> html_frame option \<times> html_scan) res" where
  "collectHTMLNode pf limit mdxJSX frame scan =
     (let st = fst scan; node = hd (fr_pending frame); line = fr_startLine frame in
      throw_if (hs_nodes st \<ge> pb_maxHTMLNodes (hs_bounds st)) (HtmlNodes (pb_maxHTMLNodes (hs_bounds st)))
      (res_bind (collectHTMLAttributes node line limit mdxJSX (st\<lparr>hs_nodes := hs_nodes st + 1\<rparr>, snd scan)) (\<lambda>s1.
       res_bind (collectMetaRefresh node line limit s1) (\<lambda>s2.
       res_bind (collectStyleElement node line limit s2) (\<lambda>s3.
       res_bind (nodeAttribute node (js ''srcdoc'')) (\<lambda>srcdoc.
       res_bind (case srcdoc of
           None \<Rightarrow> Inr None
         | Some (name, content) \<Rightarrow>
             res_bind (htmlFrame pf content (attribute_line node line name (js ''srcdoc'')) (fr_depth frame + 1) (fst s3)) (\<lambda>f. Inr (Some f)))
         (\<lambda>nested.
         Inr (frame\<lparr>fr_pending := rev (nd_content node) @ rev (or_default (nd_children node) []) @ tl (fr_pending frame)\<rparr>,
              nested, s3))))))))"

section \<open>What collecting keeps\<close>

text \<open>Destinations are only added, never past the limit, and the shared state only spends tokens.\<close>

definition adds :: "nat \<Rightarrow> html_scan \<Rightarrow> html_scan \<Rightarrow> bool" where
  "adds limit scan scan' \<longleftrightarrow>
     spends (fst scan) (fst scan') \<and> prefix (snd scan) (snd scan') \<and>
     (length (snd scan) \<le> limit \<longrightarrow> length (snd scan') \<le> limit)"

lemma adds_refl [simp]: "adds limit scan scan"
  by (simp add: adds_def)

lemma adds_trans [trans]: "adds limit a b \<Longrightarrow> adds limit b c \<Longrightarrow> adds limit a c"
  by (auto simp: adds_def intro: spends_trans prefix_order.trans)

lemma append_all_Inr:
  "append_all line limit cx ds found = Inr found' \<Longrightarrow>
   found' = found @ map (\<lambda>d. \<lparr>de_destination = d, de_line = line, de_context = cx\<rparr>) ds \<and>
   (length found \<le> limit \<longrightarrow> length found' \<le> limit)"
  unfolding append_all_def
  by (induction ds arbitrary: found)
     (fastforce simp: res_bind_Inr_iff appendHTMLDestination_def throw_if_Inr_iff)+

lemma append_adds:
  assumes "append_all line limit cx ds found = Inr found'" and "spends st st'"
  shows "adds limit (st, found) (st', found')"
  using append_all_Inr [OF assms(1)] assms(2) by (auto simp: adds_def)

lemma html_attribute_adds:
  assumes "html_attribute_step node startLine limit mdxJSX attribute scan = Inr scan'"
  shows "adds limit scan scan'"
proof -
  obtain raw content st found where args: "attribute = (raw, content)" "scan = (st, found)"
    by (cases attribute; cases scan) auto
  show ?thesis
    using assms unfolding html_attribute_step_def args Let_def prod.case
    by (auto simp: res_bind_Inr_iff split: if_splits dest!: cssDestinations_spends intro: append_adds)
qed

lemma fold_adds:
  assumes "\<And>x s t. step x s = Inr t \<Longrightarrow> adds limit s t"
  shows "fold_res step xs scan = Inr scan' \<Longrightarrow> adds limit scan scan'"
  by (induction xs arbitrary: scan) (auto simp: res_bind_Inr_iff dest!: assms intro: adds_trans)

lemma collectHTMLAttributes_adds:
  "collectHTMLAttributes node startLine limit mdxJSX scan = Inr scan' \<Longrightarrow> adds limit scan scan'"
  unfolding collectHTMLAttributes_def throw_if_Inr_iff
  using fold_adds [of "html_attribute_step node startLine limit mdxJSX"] html_attribute_adds by blast

lemma append_one_adds:
  "appendHTMLDestination line limit cx d (snd scan) = Inr found \<Longrightarrow> adds limit scan (fst scan, found)"
  by (auto simp: appendHTMLDestination_def throw_if_Inr_iff adds_def)

lemma collectMetaRefresh_adds:
  assumes "collectMetaRefresh node startLine limit scan = Inr scan'"
  shows "adds limit scan scan'"
proof (cases "has_tag node (js ''meta'')")
  case True
  with assms obtain httpEquiv content where
    "(case refresh_destination httpEquiv content of None \<Rightarrow> Inr scan | Some (cname, d) \<Rightarrow>
        res_bind (appendHTMLDestination (attribute_line node startLine cname (js ''content'')) limit HtmlLink d (snd scan))
          (\<lambda>found. Inr (fst scan, found))) = Inr scan'"
    by (simp only: collectMetaRefresh_def not_True_eq_False if_False res_bind_Inr_iff) blast
  then show ?thesis
    by (auto simp: res_bind_Inr_iff split: option.splits dest!: append_one_adds)
next
  case False
  with assms show ?thesis by (simp add: collectMetaRefresh_def)
qed

lemma style_step_adds: "style_step startLine limit child scan = Inr scan' \<Longrightarrow> adds limit scan scan'"
  unfolding style_step_def Let_def
  by (cases scan)
     (auto simp: res_bind_Inr_iff split: if_splits option.splits dest!: cssDestinations_spends intro: append_adds)

lemma collectStyleElement_adds:
  assumes "collectStyleElement node startLine limit scan = Inr scan'"
  shows "adds limit scan scan'"
proof (cases "has_tag node (js ''style'')")
  case True
  with assms have "fold_res (style_step startLine limit) (or_default (nd_children node) []) scan = Inr scan'"
    by (simp add: collectStyleElement_def Let_def throw_if_Inr_iff)
  then show ?thesis using fold_adds [of "style_step startLine limit"] style_step_adds by blast
next
  case False
  with assms show ?thesis by (simp add: collectStyleElement_def)
qed

definition counts_node :: "nat \<Rightarrow> html_scan \<Rightarrow> html_scan \<Rightarrow> bool" where
  "counts_node limit scan scan' \<longleftrightarrow>
     hs_nodes (fst scan) < pb_maxHTMLNodes (hs_bounds (fst scan)) \<and>
     adds limit ((fst scan)\<lparr>hs_nodes := hs_nodes (fst scan) + 1\<rparr>, snd scan) scan'"

lemma collectHTMLNode_counts:
  assumes "collectHTMLNode pf limit mdxJSX frame scan = Inr (frame', nested, scan')"
  shows "counts_node limit scan scan'"
  using assms unfolding collectHTMLNode_def Let_def counts_node_def
  by (auto simp: throw_if_Inr_iff res_bind_Inr_iff
      dest!: collectHTMLAttributes_adds collectMetaRefresh_adds collectStyleElement_adds intro: adds_trans)

lemma counts_node_state:
  "counts_node limit scan scan' \<Longrightarrow> hs_bounds (fst scan') = hs_bounds (fst scan) \<and>
     hs_nodes (fst scan') = hs_nodes (fst scan) + 1 \<and> hs_nodes (fst scan) < pb_maxHTMLNodes (hs_bounds (fst scan))"
  by (auto simp: counts_node_def adds_def spends_def)

function collect_frames ::
  "fragment_parser \<Rightarrow> nat \<Rightarrow> bool \<Rightarrow> html_frame list \<Rightarrow> html_scan \<Rightarrow> (scan_error, html_scan) res" where
  "collect_frames pf limit mdxJSX [] scan = Inr scan"
| "collect_frames pf limit mdxJSX (frame # frames) scan =
     (if fr_pending frame = [] then collect_frames pf limit mdxJSX frames scan
      else
        res_bind (collectHTMLNode pf limit mdxJSX frame scan) (\<lambda>(frame', nested, scan').
          collect_frames pf limit mdxJSX (case nested of None \<Rightarrow> frame' # frames | Some n \<Rightarrow> n # frame' # frames) scan'))"
  by pat_completeness auto
termination
  by (relation "measures [\<lambda>(pf, limit, mdxJSX, frames, scan). pb_maxHTMLNodes (hs_bounds (fst scan)) - hs_nodes (fst scan),
      \<lambda>(pf, limit, mdxJSX, frames, scan). length frames]")
     (auto dest!: collectHTMLNode_counts counts_node_state)

declare collect_frames.simps(2) [simp del]

definition collectHTML ::
  "fragment_parser \<Rightarrow> jsstr \<Rightarrow> nat \<Rightarrow> nat \<Rightarrow> nat \<Rightarrow> bool \<Rightarrow> html_scan \<Rightarrow> (scan_error, html_scan) res" where
  "collectHTML pf fragment startLine depth limit mdxJSX scan =
     res_bind (htmlFrame pf fragment startLine depth (fst scan)) (\<lambda>frame.
       collect_frames pf limit mdxJSX [frame] scan)"

definition htmlDestinations ::
  "fragment_parser \<Rightarrow> jsstr \<Rightarrow> nat \<Rightarrow> nat \<Rightarrow> bool \<Rightarrow> html_state \<Rightarrow> (scan_error, html_scan) res" where
  "htmlDestinations pf fragment startLine limit mdxJSX st =
     collectHTML pf fragment startLine 0 limit mdxJSX (st, [])"

section \<open>What a walk covers\<close>

definition srcdoc_of :: "html_node \<Rightarrow> jsstr option" where
  "srcdoc_of node = map_option snd (find (\<lambda>(n, _). js_lower n = js ''srcdoc'') (nd_attrs node))"

definition node_kids :: "html_node \<Rightarrow> html_node list" where
  "node_kids node = nd_content node @ or_default (nd_children node) []"

text \<open>The nodes under a node: its children, the content of a template, and the nodes of its \<open>srcdoc\<close> document.\<close>

inductive subtree :: "fragment_parser \<Rightarrow> html_node \<Rightarrow> html_node \<Rightarrow> bool" for pf where
  subtree_refl: "subtree pf n n"
| subtree_kid: "k \<in> set (node_kids n) \<Longrightarrow> subtree pf k m \<Longrightarrow> subtree pf n m"
| subtree_srcdoc: "srcdoc_of n = Some doc \<Longrightarrow> k \<in> set (pf doc) \<Longrightarrow> subtree pf k m \<Longrightarrow> subtree pf n m"

inductive_cases subtreeE: "subtree pf n m"

text \<open>The attributes of HTML and SVG whose value is one URL, in any letter case.\<close>

definition names_url :: "jsstr \<Rightarrow> bool" where
  "names_url name \<longleftrightarrow> js_lower name \<in>
     {js ''action'', js ''background'', js ''cite'', js ''codebase'', js ''data'', js ''formaction'', js ''href'', js ''icon'',
      js ''itemid'', js ''longdesc'', js ''manifest'', js ''poster'', js ''profile'', js ''src'', js ''usemap'', js ''xlink:href'',
      js ''xlinkhref''}"

text \<open>The attribute carries one URL, and the rule does not leave it to the MDX pass.\<close>

definition url_attribute :: "bool \<Rightarrow> jsstr \<times> jsstr \<Rightarrow> bool" where
  "url_attribute mdxJSX a \<longleftrightarrow> names_url (fst a) \<and> \<not> (mdxJSX \<and> jsx_expression (snd a))"

lemma names_url_set: "names_url name \<Longrightarrow> js_lower name \<in> set HTML_URL_ATTRIBUTES \<and> js_lower name \<notin> set HTML_SPACE_SEPARATED_URL_ATTRIBUTES"
  unfolding names_url_def by (elim insertE) (simp_all add: HTML_URL_ATTRIBUTES_def HTML_SPACE_SEPARATED_URL_ATTRIBUTES_def)

definition covers :: "bool \<Rightarrow> destination list \<Rightarrow> html_node \<Rightarrow> bool" where
  "covers mdxJSX found node \<longleftrightarrow>
     (\<forall>a \<in> set (nd_attrs node). url_attribute mdxJSX a \<longrightarrow>
        (\<exists>d \<in> set found. de_destination d = snd a \<and> de_context d = HtmlLink))"

lemma covers_mono: "covers mdxJSX found n \<Longrightarrow> prefix found found' \<Longrightarrow> covers mdxJSX found' n"
  unfolding covers_def by (meson set_mono_prefix subsetD)

lemma url_not_srcset: "name \<in> set HTML_URL_ATTRIBUTES \<Longrightarrow> name \<notin> set HTML_SRCSET_ATTRIBUTES"
  by (auto simp: HTML_URL_ATTRIBUTES_def HTML_SRCSET_ATTRIBUTES_def)

lemma html_attribute_covers:
  assumes "html_attribute_step node startLine limit mdxJSX a scan = Inr scan'" and "url_attribute mdxJSX a"
  shows "\<exists>d \<in> set (snd scan'). de_destination d = snd a \<and> de_context d = HtmlLink"
proof -
  obtain raw content st found where args: "a = (raw, content)" "scan = (st, found)" by (cases a; cases scan) auto
  have url: "js_lower raw \<in> set HTML_URL_ATTRIBUTES" "js_lower raw \<notin> set HTML_SPACE_SEPARATED_URL_ATTRIBUTES"
    "\<not> (mdxJSX \<and> jsx_expression content)"
    using assms(2) args names_url_set [of raw] by (auto simp: url_attribute_def)
  have "htmlAttributeDestinations (js_lower raw) content n = Inr [content]" for n
    using url url_not_srcset by (auto simp: htmlAttributeDestinations_def)
  with assms(1) url obtain found' where "append_all (attribute_line node startLine raw (js_lower raw)) limit HtmlLink [content] found = Inr found'"
    and "scan' = (st, found')"
    unfolding html_attribute_step_def args Let_def prod.case by (auto simp: res_bind_Inr_iff)
  with append_all_Inr [OF this(1)] args show ?thesis by auto
qed

lemma attributes_cover:
  assumes "fold_res (html_attribute_step node startLine limit mdxJSX) xs scan = Inr scan'" and "a \<in> set xs" and "url_attribute mdxJSX a"
  shows "\<exists>d \<in> set (snd scan'). de_destination d = snd a \<and> de_context d = HtmlLink"
  using assms(1,2)
proof (induction xs arbitrary: scan)
  case (Cons x xs)
  then obtain mid where step: "html_attribute_step node startLine limit mdxJSX x scan = Inr mid"
    and rest: "fold_res (html_attribute_step node startLine limit mdxJSX) xs mid = Inr scan'"
    by (auto simp: res_bind_Inr_iff)
  have "adds limit mid scan'"
    using fold_adds [of "html_attribute_step node startLine limit mdxJSX"] html_attribute_adds rest by blast
  then have sub: "set (snd mid) \<subseteq> set (snd scan')" by (auto simp: adds_def dest: set_mono_prefix)
  show ?case
  proof (cases "a = x")
    case True
    with html_attribute_covers [OF step] assms(3) sub show ?thesis by blast
  next
    case False
    with Cons.IH [OF rest] Cons.prems(2) show ?thesis by simp
  qed
qed simp

lemma collectHTMLNode_facts:
  assumes "collectHTMLNode pf limit mdxJSX frame scan = Inr (frame', nested, scan')" and "fr_pending frame = n # rest"
  shows "covers mdxJSX (snd scan') n"
    and "set (fr_pending frame') = set (node_kids n) \<union> set rest"
    and "srcdoc_of n = Some doc \<Longrightarrow> \<exists>f. nested = Some f \<and> set (fr_pending f) = set (pf doc)"
proof -
  let ?start = "((fst scan)\<lparr>hs_nodes := hs_nodes (fst scan) + 1\<rparr>, snd scan)"
  have hd: "hd (fr_pending frame) = n" "tl (fr_pending frame) = rest" using assms(2) by simp_all
  obtain s1 s2 srcdoc where s1: "collectHTMLAttributes n (fr_startLine frame) limit mdxJSX ?start = Inr s1"
    and s2: "collectMetaRefresh n (fr_startLine frame) limit s1 = Inr s2"
    and s3: "collectStyleElement n (fr_startLine frame) limit s2 = Inr scan'"
    and src: "nodeAttribute n (js ''srcdoc'') = Inr srcdoc"
    and nest: "(case srcdoc of None \<Rightarrow> Inr None | Some (name, content) \<Rightarrow>
        res_bind (htmlFrame pf content (attribute_line n (fr_startLine frame) name (js ''srcdoc'')) (fr_depth frame + 1) (fst scan'))
          (\<lambda>f. Inr (Some f))) = Inr nested"
    and frame': "frame' = frame\<lparr>fr_pending := rev (nd_content n) @ rev (or_default (nd_children n) []) @ rest\<rparr>"
    using assms(1) unfolding collectHTMLNode_def Let_def hd
    by (simp only: throw_if_Inr_iff res_bind_Inr_iff) blast
  have "adds limit s1 scan'"
    using collectMetaRefresh_adds [OF s2] collectStyleElement_adds [OF s3] by (rule adds_trans)
  moreover have "covers mdxJSX (snd s1) n"
    unfolding covers_def using attributes_cover s1 [unfolded collectHTMLAttributes_def throw_if_Inr_iff] by blast
  ultimately show "covers mdxJSX (snd scan') n" by (auto simp: adds_def intro: covers_mono)
  show "set (fr_pending frame') = set (node_kids n) \<union> set rest" by (auto simp: frame' node_kids_def)
  assume "srcdoc_of n = Some doc"
  with src obtain name where "srcdoc = Some (name, doc)"
    by (auto simp: srcdoc_of_def nodeAttribute_def throw_if_Inr_iff)
  with nest show "\<exists>f. nested = Some f \<and> set (fr_pending f) = set (pf doc)"
    by (auto simp: res_bind_Inr_iff htmlFrame_def throw_if_Inr_iff)
qed

definition frames_covered :: "fragment_parser \<Rightarrow> bool \<Rightarrow> html_frame list \<Rightarrow> destination list \<Rightarrow> bool" where
  "frames_covered pf mdxJSX frames found \<longleftrightarrow>
     (\<forall>f \<in> set frames. \<forall>n \<in> set (fr_pending f). \<forall>m. subtree pf n m \<longrightarrow> covers mdxJSX found m)"

lemma collect_frames_covers:
  "collect_frames pf limit mdxJSX frames scan = Inr scan' \<Longrightarrow>
     prefix (snd scan) (snd scan') \<and> frames_covered pf mdxJSX frames (snd scan')"
proof (induction pf limit mdxJSX frames scan rule: collect_frames.induct)
  case (1 pf limit mdxJSX scan)
  then show ?case by (simp add: frames_covered_def)
next
  case (2 pf limit mdxJSX frame frames scan)
  show ?case
  proof (cases "fr_pending frame")
    case Nil
    with "2.prems" have "collect_frames pf limit mdxJSX frames scan = Inr scan'" by (simp add: collect_frames.simps(2))
    from "2.IH"(1) [OF Nil this] Nil show ?thesis by (auto simp: frames_covered_def)
  next
    case (Cons n rest)
    with "2.prems" obtain frame' nested mid where step: "collectHTMLNode pf limit mdxJSX frame scan = Inr (frame', nested, mid)"
      and go: "collect_frames pf limit mdxJSX (case nested of None \<Rightarrow> frame' # frames | Some f \<Rightarrow> f # frame' # frames) mid = Inr scan'"
      by (auto simp: collect_frames.simps(2) res_bind_Inr_iff)
    have ih: "prefix (snd mid) (snd scan')"
      "frames_covered pf mdxJSX (case nested of None \<Rightarrow> frame' # frames | Some f \<Rightarrow> f # frame' # frames) (snd scan')"
      using "2.IH"(2) [OF _ step refl refl go] Cons by auto
    note facts = collectHTMLNode_facts [OF step Cons]
    have top: "covers mdxJSX (snd scan') n" using covers_mono [OF facts(1) ih(1)] .
    have lower: "covers mdxJSX (snd scan') m" if "subtree pf k m" "k \<in> set (node_kids n) \<union> set rest" for k m
      using ih(2) that facts(2) by (cases nested) (auto simp: frames_covered_def)
    have below: "covers mdxJSX (snd scan') m" if "subtree pf n m" for m
      using that
    proof (cases rule: subtree.cases)
      case subtree_refl
      with top show ?thesis by simp
    next
      case (subtree_kid k)
      with lower show ?thesis by auto
    next
      case (subtree_srcdoc doc k)
      with facts(3) obtain f where "nested = Some f" "set (fr_pending f) = set (pf doc)" by blast
      with ih(2) subtree_srcdoc show ?thesis by (auto simp: frames_covered_def)
    qed
    have others: "frames_covered pf mdxJSX frames (snd scan')"
      using ih(2) by (cases nested) (auto simp: frames_covered_def)
    have "prefix (snd scan) (snd mid)"
      using collectHTMLNode_counts [OF step] by (auto simp: counts_node_def adds_def)
    then have "prefix (snd scan) (snd scan')" using ih(1) by (rule prefix_order.trans)
    moreover have "frames_covered pf mdxJSX (frame # frames) (snd scan')"
      using others lower below Cons by (auto simp: frames_covered_def)
    ultimately show ?thesis by simp
  qed
qed

lemma collect_frames_bounds:
  "collect_frames pf limit mdxJSX frames scan = Inr scan' \<Longrightarrow>
     hs_bounds (fst scan') = hs_bounds (fst scan) \<and>
     (hs_nodes (fst scan) \<le> pb_maxHTMLNodes (hs_bounds (fst scan)) \<longrightarrow> hs_nodes (fst scan') \<le> pb_maxHTMLNodes (hs_bounds (fst scan))) \<and>
     (length (snd scan) \<le> limit \<longrightarrow> length (snd scan') \<le> limit)"
proof (induction pf limit mdxJSX frames scan rule: collect_frames.induct)
  case (2 pf limit mdxJSX frame frames scan)
  show ?case
  proof (cases "fr_pending frame = []")
    case True
    with "2.prems" have "collect_frames pf limit mdxJSX frames scan = Inr scan'" by (simp add: collect_frames.simps(2))
    from "2.IH"(1) [OF True this] show ?thesis .
  next
    case False
    with "2.prems" obtain frame' nested mid where step: "collectHTMLNode pf limit mdxJSX frame scan = Inr (frame', nested, mid)"
      and go: "collect_frames pf limit mdxJSX (case nested of None \<Rightarrow> frame' # frames | Some f \<Rightarrow> f # frame' # frames) mid = Inr scan'"
      by (auto simp: collect_frames.simps(2) res_bind_Inr_iff)
    note counts = collectHTMLNode_counts [OF step]
    have "length (snd scan) \<le> limit \<longrightarrow> length (snd mid) \<le> limit" using counts by (auto simp: counts_node_def adds_def)
    with counts_node_state [OF counts] "2.IH"(2) [OF False step refl refl go] show ?thesis by auto
  qed
qed simp

text \<open>The words of a text.\<close>

fun words :: "jsstr \<Rightarrow> jsstr \<Rightarrow> jsstr list" where
  "words w [] = (if w = [] then [] else [w])"
| "words w (c # s) = (if html_space c then (if w = [] then words [] s else w # words [] s) else words (w @ [c]) s)"

lemma words_skip: "words [] s = words [] (dropWhile html_space s)"
  by (induction s) auto

lemma words_take:
  "words w s = (let v = w @ takeWhile (\<lambda>c. \<not> html_space c) s; r = dropWhile (\<lambda>c. \<not> html_space c) s in
     if v = [] then words [] r else v # words [] r)"
proof (induction s arbitrary: w)
  case (Cons c s)
  then show ?case by (auto simp: Let_def)
qed (simp add: Let_def)

lemma space_loop_words:
  "length found \<le> limit \<Longrightarrow>
   (if length (found @ words [] rest) \<le> limit then space_loop limit rest found = found @ words [] rest
    else length (space_loop limit rest found) > limit)"
proof (induction limit rest found rule: space_loop.induct)
  case (1 limit rest found)
  show ?case
  proof (cases "rest = []")
    case True
    then show ?thesis using "1.prems" by (simp add: space_loop.simps)
  next
    case False
    let ?start = "dropWhile html_space rest"
    let ?word = "takeWhile (\<lambda>c. \<not> html_space c) ?start" and ?r = "dropWhile (\<lambda>c. \<not> html_space c) ?start"
    let ?found = "if ?word \<noteq> [] then found @ [?word] else found"
    have unfold: "space_loop limit rest found = space_loop limit ?r ?found"
      using False "1.prems" by (subst space_loop.simps) (simp add: Let_def)
    have words: "found @ words [] rest = ?found @ words [] ?r"
      using words_skip [of rest] words_take [of "[]" ?start] by (auto simp: Let_def)
    show ?thesis
    proof (cases "length ?found \<le> limit")
      case True
      with "1.IH" [OF _ refl refl] False "1.prems" show ?thesis unfolding unfold words by auto
    next
      case over: False
      then have "space_loop limit ?r ?found = ?found" by (subst space_loop.simps) simp
      with over show ?thesis unfolding unfold words by auto
    qed
  qed
qed

lemma spaceSeparated_words:
  "spaceSeparatedDestinations content limit =
     (if length (words [] content) \<le> limit then Inr (words [] content) else Inl (TooManyDestinations limit))"
  using space_loop_words [of "[]" limit content]
  by (auto simp: spaceSeparatedDestinations_def Let_def throw_if_def split: if_splits)

section \<open>Properties\<close>

text \<open>
  C19. No link of embedded HTML is skipped, and the walk is bounded: when a fragment is read without an error,
  every node of it, of its template contents and of every \<open>srcdoc\<close> document nested in it was visited, the value
  of each of its single-URL attributes is among the destinations, and the destinations, the nodes read and the
  CSS tokens are within their limits.
\<close>

theorem htmlDestinations_complete:
  assumes "htmlDestinations pf fragment line limit mdxJSX st = Inr (st', found)"
  shows "(\<forall>n \<in> set (pf fragment). \<forall>m. subtree pf n m \<longrightarrow> covers mdxJSX found m) \<and> length found \<le> limit \<and>
    (hs_nodes st \<le> pb_maxHTMLNodes (hs_bounds st) \<longrightarrow> hs_nodes st' \<le> pb_maxHTMLNodes (hs_bounds st)) \<and>
    hs_bounds st' = hs_bounds st"
proof -
  from assms obtain frame where frame: "htmlFrame pf fragment line 0 st = Inr frame"
    and run: "collect_frames pf limit mdxJSX [frame] (st, []) = Inr (st', found)"
    by (auto simp: htmlDestinations_def collectHTML_def res_bind_Inr_iff)
  from frame have "set (fr_pending frame) = set (pf fragment)" by (auto simp: htmlFrame_def throw_if_Inr_iff)
  with collect_frames_covers [OF run] collect_frames_bounds [OF run] show ?thesis
    by (auto simp: frames_covered_def)
qed

text \<open>A frame whose \<open>srcdoc\<close> holds a link.\<close>

definition sample_anchor :: html_node where
  "sample_anchor = HtmlNode (js ''a'') (Some (js ''a'')) None [(js ''HREF'', js ''x'')] [] None (Some []) []"

definition sample_page :: html_node where
  "sample_page = HtmlNode (js ''iframe'') (Some (js ''iframe'')) None [(js ''srcdoc'', js ''b'')] [] None (Some []) []"

definition sample_parser :: fragment_parser where
  "sample_parser s = (if s = js ''b'' then [sample_anchor] else [sample_page])"

lemma sample_html:
  "htmlDestinations sample_parser (js ''a'') 3 5 False sample_state =
     Inr (sample_state\<lparr>hs_nodes := 2\<rparr>, [\<lparr>de_destination = js ''x'', de_line = 3, de_context = HtmlLink\<rparr>])"
  unfolding htmlDestinations_def collectHTML_def
  by (simp add: htmlFrame_def sample_parser_def sample_state_def sample_bounds_def collect_frames.simps collectHTMLNode_def
      sample_page_def sample_anchor_def collectHTMLAttributes_def html_attribute_step_def collectMetaRefresh_def
      collectStyleElement_def nodeAttribute_def has_tag_def MAX_HTML_NODES_def lower_unit_def HTML_URL_ATTRIBUTES_def
      HTML_SRCSET_ATTRIBUTES_def HTML_SPACE_SEPARATED_URL_ATTRIBUTES_def HTML_CSS_URL_ATTRIBUTES_def attribute_line_def
      or_default_def rejectJSXURLExpression_def jsx_expression_def js_trim_start_def js_space_def htmlAttributeDestinations_def
      append_all_def appendHTMLDestination_def)

lemma htmlDestinations_complete_witness:
  "covers False [\<lparr>de_destination = js ''x'', de_line = 3, de_context = HtmlLink\<rparr>] sample_anchor \<and>
   url_attribute False (js ''HREF'', js ''x'')"
proof -
  have "subtree sample_parser sample_page sample_anchor"
    by (rule subtree_srcdoc [where doc = "js ''b''" and k = sample_anchor])
       (simp_all add: srcdoc_of_def sample_page_def lower_unit_def sample_parser_def subtree_refl)
  moreover have "sample_page \<in> set (sample_parser (js ''a''))" by (simp add: sample_parser_def)
  ultimately show ?thesis
    using htmlDestinations_complete [OF sample_html]
    by (auto simp: url_attribute_def names_url_def lower_unit_def)
qed

end
