(* ===== verification/ScratchMDX.thy ===== *)
theory ScratchMDX
  imports ScratchHTML "HOL-Library.AList"
begin

text \<open>
  The rest of what the private-scratch-link rule reads in a Markdown file
  (\<^verbatim>\<open>src/tools/markdownlint/no-private-scratch-links.mjs\<close>): MDX attributes and expressions, the
  syntax tree of MDX code (an object graph, read from a heap of objects), attribute lists in braces,
  and snippet includes.
\<close>

definition MAX_ESTREE_NODES :: nat where "MAX_ESTREE_NODES = 65536"
definition MAX_ESTREE_DEPTH :: nat where "MAX_ESTREE_DEPTH = 128"
definition MAX_ESTREE_PROPERTIES :: nat where "MAX_ESTREE_PROPERTIES = 32"

definition MDX_STATIC_SOURCE_TYPES :: "jsstr list" where
  "MDX_STATIC_SOURCE_TYPES = [js ''ImportDeclaration'', js ''ExportNamedDeclaration'', js ''ExportAllDeclaration'']"

definition MDX_EXPRESSION_URL_PROPERTIES :: "jsstr list" where
  "MDX_EXPRESSION_URL_PROPERTIES = [js ''path'', js ''to'', js ''url'']"

section \<open>Objects of a syntax tree\<close>

datatype es_value =
    EUndef
  | ENull
  | EStr jsstr
  | ENum nat
  | EOther
  | ERef nat

text \<open>An object: whether it is an array, and its own properties in order.\<close>

record es_object =
  eo_array :: bool
  eo_fields :: "(jsstr \<times> es_value) list"

type_synonym es_heap = "nat \<Rightarrow> es_object"

fun es_get :: "es_heap \<Rightarrow> es_value \<Rightarrow> jsstr \<Rightarrow> es_value" where
  "es_get h (ERef r) key = (case map_of (eo_fields (h r)) key of None \<Rightarrow> EUndef | Some v \<Rightarrow> v)"
| "es_get h _ key = EUndef"

text \<open>\<open>Array.isArray(v)\<close> with the elements.\<close>

fun es_elements :: "es_heap \<Rightarrow> es_value \<Rightarrow> es_value list option" where
  "es_elements h (ERef r) = (if eo_array (h r) then Some (map snd (eo_fields (h r))) else None)"
| "es_elements h _ = None"

fun es_length :: "es_heap \<Rightarrow> es_value \<Rightarrow> nat option" where
  "es_length h (EStr s) = Some (length s)"
| "es_length h v = map_option length (es_elements h v)"

definition es_type :: "es_heap \<Rightarrow> es_value \<Rightarrow> jsstr \<Rightarrow> bool" where
  "es_type h v name \<longleftrightarrow> es_get h v (js ''type'') = EStr name"

fun es_string :: "es_value \<Rightarrow> jsstr option" where
  "es_string (EStr s) = Some s"
| "es_string _ = None"

datatype estree = EsUndefined | EsNull | EsTree es_heap nat

text \<open>A token of the Markdown parser: its type, its span, its line, and its syntax tree.\<close>

record md_token =
  tk_type :: jsstr
  tk_start :: nat
  tk_end :: nat
  tk_line :: nat
  tk_estree :: estree

section \<open>MDX attributes\<close>

definition isMDXSource :: "jsstr \<Rightarrow> bool" where
  "isMDXSource source \<longleftrightarrow> js_ends (js_lower source) (js ''.mdx'') \<or> js_ends (js_lower source) (js ''.mdx.tmpl'')"

definition isURLAttributeName :: "jsstr \<Rightarrow> bool" where
  "isURLAttributeName name \<longleftrightarrow>
     name \<in> set HTML_URL_ATTRIBUTES \<or> name \<in> set HTML_SRCSET_ATTRIBUTES \<or> name \<in> set HTML_CSS_URL_ATTRIBUTES \<or>
     name = js ''style''"

definition isMDXExpressionURLProperty :: "jsstr \<Rightarrow> bool" where
  "isMDXExpressionURLProperty name \<longleftrightarrow>
     isURLAttributeName name \<or> name \<in> set MDX_EXPRESSION_URL_PROPERTIES \<or> js_ends name (js ''href'') \<or>
     js_ends name (js ''src'') \<or> js_ends name (js ''url'') \<or> js_ends name (js ''path'')"

text \<open>The expressions still to be read, by the offset where their value starts.\<close>

type_synonym mdx_expressions = "(nat \<times> jsstr \<times> nat) list"

definition collectMDXJSXAttribute ::
  "fragment_parser \<Rightarrow> jsstr \<Rightarrow> md_token \<Rightarrow> nat \<Rightarrow> destination list \<times> mdx_expressions \<Rightarrow>
   (scan_error, destination list \<times> mdx_expressions) res" where
  "collectMDXJSXAttribute pf markdown tk limit acc =
     (let attribute = js_slice markdown (tk_start tk) (tk_end tk); (found, expressions) = acc in
      case find_unit 61 attribute of
        None \<Rightarrow> Inr acc
      | Some equals \<Rightarrow>
          (let name = js_lower (js_trim (take equals attribute));
               gap = length (takeWhile html_space (drop (equals + 1) attribute));
               valueStart = equals + 1 + gap;
               rawValue = js_trim_end (drop valueStart attribute) in
           if js_starts rawValue [123] then
             throw_if (length expressions \<ge> MAX_EVENTS) MdxExpressions
               (Inr (found, AList.update (tk_start tk + valueStart) (name, tk_line tk) expressions))
           else if isURLAttributeName name \<or> length rawValue < 2 then Inr acc
           else
             (let quote = hd rawValue in
              throw_if ((quote \<noteq> 34 \<and> quote \<noteq> 39) \<or> last rawValue \<noteq> quote) (JsxLiteral name)
                (let content = markdownDestinationString pf (butlast (tl rawValue)) False in
                 if content = [] then Inr acc
                 else res_bind (appendHTMLDestination (tk_line tk) limit MdxProperty content found)
                   (\<lambda>found'. Inr (found', expressions))))))"

definition staticMDXString :: "estree \<Rightarrow> jsstr option" where
  "staticMDXString tree =
     (case tree of
        EsTree h r \<Rightarrow>
          (if \<not> es_type h (ERef r) (js ''Program'') then None
           else
             (case es_elements h (es_get h (ERef r) (js ''body'')) of
                Some [statement] \<Rightarrow>
                  if \<not> es_type h statement (js ''ExpressionStatement'') then None
                  else
                    (let expression = es_get h statement (js ''expression'');
                         quasis = es_get h expression (js ''quasis'') in
                     if es_type h expression (js ''Literal'') \<and> es_string (es_get h expression (js ''value'')) \<noteq> None
                     then es_string (es_get h expression (js ''value''))
                     else if es_type h expression (js ''TemplateLiteral'') \<and>
                       es_length h (es_get h expression (js ''expressions'')) = Some 0
                     then (case es_elements h quasis of
                             Some [q] \<Rightarrow> es_string (es_get h (es_get h q (js ''value'')) (js ''cooked''))
                           | _ \<Rightarrow> None)
                     else None)
              | _ \<Rightarrow> None))
      | _ \<Rightarrow> None)"

text \<open>A value under a property name, as an MDX expression and an attribute list append it.\<close>

definition append_named_value ::
  "jsstr \<Rightarrow> jsstr \<Rightarrow> nat \<Rightarrow> nat \<Rightarrow> html_scan \<Rightarrow> (scan_error, html_scan) res" where
  "append_named_value name content line limit scan =
     (let (st, found) = scan in
      if name \<in> set HTML_URL_ATTRIBUTES \<or> name \<in> set HTML_SRCSET_ATTRIBUTES then
        res_bind (htmlAttributeDestinations name content (limit - length found)) (\<lambda>ds.
        res_bind (append_all line limit HtmlLink ds found) (\<lambda>found'. Inr (st, found')))
      else if name = js ''style'' \<or> name \<in> set HTML_CSS_URL_ATTRIBUTES then
        res_bind (cssDestinations content line False st) (\<lambda>(css, st').
        res_bind (append_all line limit HtmlLink (map de_destination css) found) (\<lambda>found'. Inr (st', found')))
      else Inr scan)"

definition appendMDXPropertyValue ::
  "jsstr \<Rightarrow> jsstr \<Rightarrow> nat \<Rightarrow> nat \<Rightarrow> html_scan \<Rightarrow> (scan_error, html_scan) res" where
  "appendMDXPropertyValue name content line limit scan =
     (if isURLAttributeName name then append_named_value name content line limit scan
      else if content \<noteq> [] then
        res_bind (appendHTMLDestination line limit MdxProperty content (snd scan)) (\<lambda>found. Inr (fst scan, found))
      else Inr scan)"

definition collectMDXPropertyExpression ::
  "md_token \<Rightarrow> jsstr \<times> nat \<Rightarrow> nat \<Rightarrow> html_scan \<Rightarrow> (scan_error, html_scan) res" where
  "collectMDXPropertyExpression tk property limit scan =
     (case staticMDXString (tk_estree tk) of
        Some content \<Rightarrow> appendMDXPropertyValue (fst property) content (snd property) limit scan
      | None \<Rightarrow> throw_if (isMDXExpressionURLProperty (fst property)) (JsxExpression (fst property)) (Inr scan))"

section \<open>The syntax tree\<close>

text \<open>The pending stack with the next entry first.\<close>

definition appendESTreeNode ::
  "nat \<Rightarrow> es_value \<Rightarrow> (nat \<times> nat) list \<Rightarrow> (scan_error, (nat \<times> nat) list) res" where
  "appendESTreeNode depth v pending =
     (case v of
        ERef r \<Rightarrow> throw_if (length pending \<ge> MAX_ESTREE_NODES) EstreePending (Inr ((r, depth) # pending))
      | _ \<Rightarrow> Inr pending)"

definition skipped_key :: "jsstr \<Rightarrow> bool" where
  "skipped_key key \<longleftrightarrow> key \<in> set [js ''loc'', js ''range'', js ''comments'']"

definition es_child_step ::
  "es_heap \<Rightarrow> nat \<Rightarrow> jsstr \<times> es_value \<Rightarrow> (nat \<times> nat) list \<Rightarrow> (scan_error, (nat \<times> nat) list) res" where
  "es_child_step h depth kv pending =
     (if skipped_key (fst kv) then Inr pending
      else
        (case es_elements h (snd kv) of
           Some xs \<Rightarrow>
             throw_if (length xs > MAX_ESTREE_NODES) EstreeArray (fold_res (appendESTreeNode (depth + 1)) xs pending)
         | None \<Rightarrow> appendESTreeNode (depth + 1) (snd kv) pending))"

definition source_line :: "es_heap \<Rightarrow> md_token \<Rightarrow> es_value \<Rightarrow> nat" where
  "source_line h tk source =
     (case es_get h (es_get h (es_get h source (js ''loc'')) (js ''start'')) (js ''line'') of
        ENum n \<Rightarrow> n
      | _ \<Rightarrow> tk_line tk)"

text \<open>The destination an import or an export names.\<close>

definition es_source_step ::
  "es_heap \<Rightarrow> md_token \<Rightarrow> nat \<Rightarrow> nat \<Rightarrow> destination list \<Rightarrow> (scan_error, destination list) res" where
  "es_source_step h tk limit r found =
     (let node = ERef r; source = es_get h node (js ''source''); content = es_get h source (js ''value'') in
      if (\<exists>t \<in> set MDX_STATIC_SOURCE_TYPES. es_type h node t) \<and> es_string content \<noteq> None
      then appendHTMLDestination (source_line h tk source) limit HtmlLink (the (es_string content)) found
      else if es_type h node (js ''ImportExpression'') then
        throw_if (\<not> es_type h source (js ''Literal'') \<or> es_string content = None) DynamicImport
          (appendHTMLDestination (source_line h tk source) limit HtmlLink (the (es_string content)) found)
      else Inr found)"

text \<open>At most \<open>MAX_ESTREE_NODES\<close> entries are popped; the fuel is that bound of the loop.\<close>

fun es_loop ::
  "es_heap \<Rightarrow> md_token \<Rightarrow> nat \<Rightarrow> nat \<Rightarrow> (nat \<times> nat) list \<Rightarrow> nat list \<Rightarrow> destination list \<Rightarrow>
   (scan_error, destination list) res" where
  "es_loop h tk limit visits [] seen found = Inr found"
| "es_loop h tk limit 0 (p # pending) seen found = Inl EstreeNodes"
| "es_loop h tk limit (Suc visits) ((r, depth) # pending) seen found =
     (if r \<in> set seen then es_loop h tk limit visits pending seen found
      else
        throw_if (depth > MAX_ESTREE_DEPTH) EstreeDepth
        (res_bind (es_source_step h tk limit r found) (\<lambda>found'.
         throw_if (length (eo_fields (h r)) > MAX_ESTREE_PROPERTIES) EstreeProperties
         (res_bind (fold_res (es_child_step h depth) (eo_fields (h r)) pending) (\<lambda>pending'.
           es_loop h tk limit visits pending' (r # seen) found')))))"

definition collectMDXESTree :: "md_token \<Rightarrow> nat \<Rightarrow> destination list \<Rightarrow> (scan_error, destination list) res" where
  "collectMDXESTree tk limit found =
     (case tk_estree tk of
        EsTree h r \<Rightarrow> es_loop h tk limit MAX_ESTREE_NODES [(r, 0)] [] found
      | _ \<Rightarrow> Inl EstreeMissing)"

section \<open>Attribute lists\<close>

definition isEscaped :: "jsstr \<Rightarrow> nat \<Rightarrow> bool" where
  "isEscaped s position \<longleftrightarrow> odd (length (takeWhile (\<lambda>c. c = 92) (rev (take position s))))"

function attributeListEnd :: "jsstr \<Rightarrow> nat \<Rightarrow> nat \<Rightarrow> nat option \<Rightarrow> nat option" where
  "attributeListEnd s cursor stop quote =
     (if cursor < stop then
        (case quote of
           Some q \<Rightarrow>
             attributeListEnd s (cursor + 1) stop (if js_at s cursor = Some q \<and> \<not> isEscaped s cursor then None else quote)
         | None \<Rightarrow>
             if isQuote (js_at s cursor) then attributeListEnd s (cursor + 1) stop (js_at s cursor)
             else if js_at s cursor = Some 125 then Some cursor
             else attributeListEnd s (cursor + 1) stop None)
      else None)"
  by pat_completeness auto
termination
  by (relation "measure (\<lambda>(s, cursor, stop, quote). stop - cursor)") auto

declare attributeListEnd.simps [simp del]

lemma attributeListEnd_range: "attributeListEnd s cursor stop quote = Some k \<Longrightarrow> cursor \<le> k \<and> k < stop"
proof (induction s cursor stop quote rule: attributeListEnd.induct)
  case (1 s cursor stop quote)
  show ?case
  proof (cases "cursor < stop")
    case True
    with 1 show ?thesis
      by (cases quote) (force simp: attributeListEnd.simps [of s cursor stop] split: if_splits)+
  next
    case False
    with "1.prems" show ?thesis by (simp add: attributeListEnd.simps [of s cursor stop])
  qed
qed

definition appendAttributeValue ::
  "fragment_parser \<Rightarrow> jsstr \<Rightarrow> jsstr \<Rightarrow> nat \<Rightarrow> nat \<Rightarrow> html_scan \<Rightarrow> (scan_error, html_scan) res" where
  "appendAttributeValue pf name content line limit scan =
     append_named_value name (markdownDestinationString pf content True) line limit scan"

text \<open>\<open>while (position < end && P(value[position])) position += 1\<close>.\<close>

definition skip_while :: "(nat \<Rightarrow> bool) \<Rightarrow> jsstr \<Rightarrow> nat \<Rightarrow> nat \<Rightarrow> nat" where
  "skip_while P s stop position = position + length (takeWhile P (take (stop - position) (drop position s)))"

text \<open>The value after an equals sign: the position after it and its text.\<close>

definition attribute_value :: "jsstr \<Rightarrow> nat \<Rightarrow> nat \<Rightarrow> nat \<times> jsstr" where
  "attribute_value s stop equals =
     (let v = skip_while html_space s stop (equals + 1); quote = (if isQuote (js_at s v) then js_at s v else None);
          start = (if quote = None then v else v + 1);
          fin = skip_while (\<lambda>c. if quote = None then \<not> html_space c else Some c \<noteq> quote) s stop start in
      (if quote \<noteq> None \<and> fin < stop then fin + 1 else fin, js_slice s start fin))"

text \<open>One entry of a list: the position after it, and the name and the value where it has one.\<close>

definition attribute_entry :: "jsstr \<Rightarrow> nat \<Rightarrow> nat \<Rightarrow> nat \<times> (jsstr \<times> jsstr) option" where
  "attribute_entry s stop position =
     (let p = skip_while html_space s stop position;
          q = skip_while (\<lambda>c. \<not> html_space c \<and> c \<noteq> 61) s stop p;
          r = skip_while html_space s stop q in
      if js_at s p = Some 35 \<or> js_at s p = Some 46 then (skip_while (\<lambda>c. \<not> html_space c) s stop p, None)
      else if js_at s r \<noteq> Some 61 then (skip_while (\<lambda>c. \<not> html_space c) s stop r, None)
      else (fst (attribute_value s stop r), Some (js_lower (js_slice s p q), snd (attribute_value s stop r))))"

lemma skip_while_le: "position \<le> skip_while P s stop position"
  by (simp add: skip_while_def)

lemma skip_while_stays:
  assumes "skip_while P s stop position = position" and "position < stop" and "position < length s"
  shows "\<not> P (s ! position)"
proof -
  have "take (stop - position) (drop position s) \<noteq> []" "hd (take (stop - position) (drop position s)) = s ! position"
    using assms(2,3) by (auto simp: hd_drop_conv_nth)
  with assms(1) show ?thesis
    by (cases "take (stop - position) (drop position s)") (auto simp: skip_while_def split: if_splits)
qed

lemma attribute_value_advances: "equals < fst (attribute_value s stop equals)"
proof -
  define v where "v = skip_while html_space s stop (equals + 1)"
  define quote where "quote = (if isQuote (js_at s v) then js_at s v else None)"
  define start where "start = (if quote = None then v else v + 1)"
  define fin where "fin = skip_while (\<lambda>c. if quote = None then \<not> html_space c else Some c \<noteq> quote) s stop start"
  have "fst (attribute_value s stop equals) = (if quote \<noteq> None \<and> fin < stop then fin + 1 else fin)"
    unfolding attribute_value_def Let_def fin_def start_def quote_def v_def by simp
  moreover have "equals < v" using skip_while_le [of "equals + 1" html_space s stop] by (simp add: v_def)
  moreover have "v \<le> start" by (simp add: start_def)
  moreover have "start \<le> fin" unfolding fin_def by (rule skip_while_le)
  ultimately show ?thesis by auto
qed

lemma attribute_entry_le:
  fixes s :: jsstr and stop position :: nat
  defines "p \<equiv> skip_while html_space s stop position"
  defines "r \<equiv> skip_while html_space s stop (skip_while (\<lambda>c. \<not> html_space c \<and> c \<noteq> 61) s stop p)"
  shows "p \<le> fst (attribute_entry s stop position)"
    and "\<not> (js_at s p = Some 35 \<or> js_at s p = Some 46) \<Longrightarrow>
      r \<le> fst (attribute_entry s stop position) \<and> (js_at s r = Some 61 \<longrightarrow> r < fst (attribute_entry s stop position))"
proof -
  have pr: "p \<le> r" unfolding r_def by (rule order_trans [OF skip_while_le skip_while_le])
  have entry: "attribute_entry s stop position =
      (if js_at s p = Some 35 \<or> js_at s p = Some 46 then (skip_while (\<lambda>c. \<not> html_space c) s stop p, None)
       else if js_at s r \<noteq> Some 61 then (skip_while (\<lambda>c. \<not> html_space c) s stop r, None)
       else (fst (attribute_value s stop r),
         Some (js_lower (js_slice s p (skip_while (\<lambda>c. \<not> html_space c \<and> c \<noteq> 61) s stop p)), snd (attribute_value s stop r))))"
    unfolding attribute_entry_def Let_def p_def r_def by simp
  show "p \<le> fst (attribute_entry s stop position)"
    using pr skip_while_le [of p "\<lambda>c. \<not> html_space c" s stop] skip_while_le [of r "\<lambda>c. \<not> html_space c" s stop]
      attribute_value_advances [of r s stop] by (simp add: entry)
  assume "\<not> (js_at s p = Some 35 \<or> js_at s p = Some 46)"
  then show "r \<le> fst (attribute_entry s stop position) \<and> (js_at s r = Some 61 \<longrightarrow> r < fst (attribute_entry s stop position))"
    using skip_while_le [of r "\<lambda>c. \<not> html_space c" s stop] attribute_value_advances [of r s stop] by (simp add: entry)
qed

lemma attribute_entry_advances:
  assumes "position < stop" and "stop \<le> length s"
  shows "position < fst (attribute_entry s stop position)"
proof (cases "skip_while html_space s stop position = position")
  case False
  then have "position < skip_while html_space s stop position" using skip_while_le [of position] by (metis le_neq_implies_less)
  with attribute_entry_le(1) [of s stop position] show ?thesis by simp
next
  case True
  have in_range: "position < length s" using assms by simp
  have space: "\<not> html_space (s ! position)" using skip_while_stays [OF True assms(1) in_range] .
  have at: "js_at s position = Some (s ! position)" using in_range by (simp add: js_at_def)
  have moves: "position < skip_while P s stop position" if "P (s ! position)" for P
    using skip_while_stays [OF _ assms(1) in_range, of P] that skip_while_le [of position P s stop] by (metis le_neq_implies_less)
  show ?thesis
  proof (cases "s ! position = 35 \<or> s ! position = 46")
    case hash: True
    with True at moves [of "\<lambda>c. \<not> html_space c"] space show ?thesis by (simp add: attribute_entry_def Let_def)
  next
    case hash: False
    let ?q = "skip_while (\<lambda>c. \<not> html_space c \<and> c \<noteq> 61) s stop position"
    let ?r = "skip_while html_space s stop ?q"
    have result: "?r \<le> fst (attribute_entry s stop position) \<and> (js_at s ?r = Some 61 \<longrightarrow> ?r < fst (attribute_entry s stop position))"
      using attribute_entry_le(2) [of s stop position] hash at by (simp add: True)
    show ?thesis
    proof (cases "s ! position = 61")
      case True
      show ?thesis
      proof (cases "?r = position")
        case True
        with result at \<open>s ! position = 61\<close> show ?thesis by auto
      next
        case False
        moreover have "position \<le> ?r" by (rule order_trans [OF skip_while_le skip_while_le])
        ultimately show ?thesis using result by linarith
      qed
    next
      case False
      then have "position < ?q" using moves space by simp
      with skip_while_le [of ?q html_space s stop] result show ?thesis by simp
    qed
  qed
qed

text \<open>The list ends at a closing brace of the text, so its end is within the text.\<close>

function attribute_list_loop ::
  "fragment_parser \<Rightarrow> jsstr \<Rightarrow> nat \<Rightarrow> nat \<Rightarrow> nat \<Rightarrow> nat \<Rightarrow> html_scan \<Rightarrow> (scan_error, html_scan) res" where
  "attribute_list_loop pf s stop line limit position scan =
     (if position < stop \<and> stop \<le> length s then
        res_bind (case snd (attribute_entry s stop position) of
            None \<Rightarrow> Inr scan
          | Some (name, content) \<Rightarrow> appendAttributeValue pf name content line limit scan)
          (\<lambda>scan'. attribute_list_loop pf s stop line limit (fst (attribute_entry s stop position)) scan')
      else Inr scan)"
  by pat_completeness auto
termination
  by (relation "measure (\<lambda>(pf, s, stop, line, limit, position, scan). stop - position)")
     (auto simp: attribute_entry_advances diff_less_mono2)

declare attribute_list_loop.simps [simp del]

definition collectAttributeListBody ::
  "fragment_parser \<Rightarrow> jsstr \<Rightarrow> nat \<Rightarrow> nat \<Rightarrow> nat \<Rightarrow> nat \<Rightarrow> html_scan \<Rightarrow> (scan_error, html_scan) res" where
  "collectAttributeListBody pf s start stop line limit scan =
     attribute_list_loop pf s stop line limit (if js_at s start = Some 58 then start + 1 else start) scan"

definition line_feeds :: "jsstr \<Rightarrow> nat" where "line_feeds s = length (filter (\<lambda>c. c = 10) s)"

function collectAttributeLists ::
  "fragment_parser \<Rightarrow> jsstr \<Rightarrow> nat \<Rightarrow> nat \<Rightarrow> nat \<Rightarrow> nat \<Rightarrow> html_scan \<Rightarrow> (scan_error, html_scan) res" where
  "collectAttributeLists pf markdown position stop line limit scan =
     (if position < stop then
        (case js_index 123 markdown position of
           None \<Rightarrow> Inr scan
         | Some open \<Rightarrow>
             if open \<ge> stop then Inr scan
             else
               (let line' = line + line_feeds (js_slice markdown position open);
                    close = (if isEscaped markdown open then None else attributeListEnd markdown (open + 1) stop None) in
                case close of
                  Some k \<Rightarrow>
                    res_bind (collectAttributeListBody pf markdown (open + 1) k line' limit scan) (\<lambda>scan'.
                      collectAttributeLists pf markdown (k + 1) stop (line' + line_feeds (js_slice markdown open (k + 1))) limit scan')
                | None \<Rightarrow> collectAttributeLists pf markdown (open + 1) stop line' limit scan))
      else Inr scan)"
  by pat_completeness auto
termination
  by (relation "measure (\<lambda>(pf, markdown, position, stop, line, limit, scan). stop - position)")
     (auto dest!: js_index_SomeD(1) attributeListEnd_range [OF sym] split: if_splits)

declare collectAttributeLists.simps [simp del]

section \<open>Snippets\<close>

definition line_terminator :: "nat \<Rightarrow> bool" where
  "line_terminator c \<longleftrightarrow> c = 10 \<or> c = 13 \<or> c = 0x2028 \<or> c = 0x2029"

text \<open>\<open>/^-+8<-+\s*(.*)$/\<close>: what follows the marker.\<close>

definition snippet_marker :: "jsstr \<Rightarrow> jsstr option" where
  "snippet_marker s =
     (let a = dropWhile (\<lambda>c. c = 45) s; b = drop 2 a; rest = dropWhile js_space (dropWhile (\<lambda>c. c = 45) b) in
      if js_starts s [45] \<and> js_starts a (js ''8<'') \<and> js_starts b [45] \<and> \<not> list_ex line_terminator rest
      then Some rest else None)"

definition quoted_text :: "jsstr \<Rightarrow> jsstr option" where
  "quoted_text s =
     (if length s \<ge> 2 \<and> isQuote (js_at s 0) \<and> last s = hd s \<and> \<not> list_ex line_terminator (butlast (tl s))
      then Some (butlast (tl s)) else None)"

definition snippet_step ::
  "nat \<Rightarrow> nat \<times> jsstr \<Rightarrow> bool \<times> destination list \<Rightarrow> (scan_error, bool \<times> destination list) res" where
  "snippet_step limit numbered st =
     (let (index, line) = numbered; (inBlock, found) = st; trimmed = js_trim line; marker = snippet_marker trimmed in
      if js_starts trimmed [59] then Inr st
      else if inBlock then
        (if marker = Some [] then Inr (False, found)
         else if trimmed \<noteq> [] then
           res_bind (appendHTMLDestination (index + 1) limit SnippetPath (or_default (quoted_text trimmed) trimmed) found)
             (\<lambda>found'. Inr (inBlock, found'))
         else Inr st)
      else
        (case marker of
           None \<Rightarrow> Inr st
         | Some rest \<Rightarrow>
             if rest = [] then Inr (True, found)
             else
               (case quoted_text rest of
                  None \<Rightarrow> Inr st
                | Some q \<Rightarrow>
                    res_bind (appendHTMLDestination (index + 1) limit SnippetPath q found) (\<lambda>found'. Inr (inBlock, found')))))"

definition snippetDestinations :: "jsstr \<Rightarrow> nat \<Rightarrow> nat \<Rightarrow> (scan_error, destination list) res" where
  "snippetDestinations markdown limit maxLines =
     (let lines = js_split 10 markdown in
      throw_if (length lines > maxLines) (SnippetLines maxLines)
        (res_bind (fold_res (snippet_step limit) (zip [0..<length lines] lines) (False, [])) (\<lambda>(_, found). Inr found)))"

definition parseEventLimit :: "jsstr \<Rightarrow> nat" where
  "parseEventLimit markdown = max MAX_EVENTS (byte_length markdown)"

section \<open>What the syntax tree walk covers\<close>

definition value_refs :: "es_heap \<Rightarrow> es_value \<Rightarrow> nat set" where
  "value_refs h v = {r. ERef r \<in> set (or_default (es_elements h v) [v])}"

definition field_refs :: "es_heap \<Rightarrow> (jsstr \<times> es_value) list \<Rightarrow> nat set" where
  "field_refs h props =
     (\<Union>kv \<in> {kv \<in> set props. fst kv \<noteq> js ''loc'' \<and> fst kv \<noteq> js ''range'' \<and> fst kv \<noteq> js ''comments''}. value_refs h (snd kv))"

text \<open>
  The objects of a syntax tree: those met from the root through properties other than locations and comments, and
  through arrays.
\<close>

inductive es_reach :: "es_heap \<Rightarrow> nat \<Rightarrow> nat \<Rightarrow> bool" for h r where
  es_reach_root: "es_reach h r r"
| es_reach_step: "es_reach h r x \<Longrightarrow> y \<in> field_refs h (eo_fields (h x)) \<Longrightarrow> es_reach h r y"

text \<open>An import or an export that names the module \<open>s\<close>, and a dynamic import of a string literal.\<close>

definition module_source :: "es_heap \<Rightarrow> nat \<Rightarrow> jsstr \<Rightarrow> bool" where
  "module_source h x s \<longleftrightarrow>
     es_get h (es_get h (ERef x) (js ''source'')) (js ''value'') = EStr s \<and>
     (es_type h (ERef x) (js ''ImportDeclaration'') \<or> es_type h (ERef x) (js ''ExportNamedDeclaration'') \<or>
      es_type h (ERef x) (js ''ExportAllDeclaration'') \<or> es_type h (ERef x) (js ''ImportExpression''))"

definition literal_import :: "es_heap \<Rightarrow> nat \<Rightarrow> bool" where
  "literal_import h x \<longleftrightarrow>
     es_type h (es_get h (ERef x) (js ''source'')) (js ''Literal'') \<and>
     (\<exists>s. es_get h (es_get h (ERef x) (js ''source'')) (js ''value'') = EStr s)"

text \<open>An object is settled when the module it names is among the destinations and a dynamic import names a literal.\<close>

definition settled :: "es_heap \<Rightarrow> destination list \<Rightarrow> nat \<Rightarrow> bool" where
  "settled h found x \<longleftrightarrow>
     (\<forall>s. module_source h x s \<longrightarrow> (\<exists>d \<in> set found. de_destination d = s \<and> de_context d = HtmlLink)) \<and>
     (es_type h (ERef x) (js ''ImportExpression'') \<longrightarrow> literal_import h x)"

lemma settled_mono: "settled h found x \<Longrightarrow> set found \<subseteq> set found' \<Longrightarrow> settled h found' x"
  unfolding settled_def subset_iff by blast

lemma append_destination_Inr:
  "appendHTMLDestination line limit cx d found = Inr found' \<longleftrightarrow>
     length found < limit \<and> found' = found @ [\<lparr>de_destination = d, de_line = line, de_context = cx\<rparr>]"
  by (auto simp: appendHTMLDestination_def throw_if_Inr_iff)

lemma es_string_iff: "es_string v = Some s \<longleftrightarrow> v = EStr s" "es_string v = None \<longleftrightarrow> (\<forall>s. v \<noteq> EStr s)"
  by (cases v; simp)+

lemma es_type_unique: "es_type h v a \<Longrightarrow> es_type h v b \<Longrightarrow> a = b"
  by (simp add: es_type_def)

text \<open>One object adds the module it names, if any, and nothing else.\<close>

lemma es_source_step_adds:
  assumes "es_source_step h tk limit r found = Inr found'"
  shows "\<exists>extra. found' = found @ extra \<and> de_destination ` set extra = {s. module_source h r s} \<and> (\<forall>d \<in> set extra. de_context d = HtmlLink) \<and>
    (es_type h (ERef r) (js ''ImportExpression'') \<longrightarrow> literal_import h r)"
proof (cases "es_string (es_get h (es_get h (ERef r) (js ''source'')) (js ''value''))")
  case None
  then have "\<not> module_source h r s" for s by (simp add: es_string_iff module_source_def)
  moreover from None assms have "found' = found" "\<not> es_type h (ERef r) (js ''ImportExpression'')"
    by (auto simp: es_source_step_def Let_def throw_if_def split: if_splits)
  ultimately show ?thesis by auto
next
  case (Some s)
  then have source: "es_get h (es_get h (ERef r) (js ''source'')) (js ''value'') = EStr s" by (simp add: es_string_iff)
  let ?kinds = "map js [''ImportDeclaration'', ''ExportNamedDeclaration'', ''ExportAllDeclaration'']"
  have kinds: "set MDX_STATIC_SOURCE_TYPES = set ?kinds" by (simp add: MDX_STATIC_SOURCE_TYPES_def)
  have apart: "\<not> es_type h (ERef r) (js ''ImportExpression'')" if "\<exists>t \<in> set ?kinds. es_type h (ERef r) t"
    using that es_type_unique [of h "ERef r"] by fastforce
  consider (static) "\<exists>t \<in> set ?kinds. es_type h (ERef r) t" | (dynamic) "es_type h (ERef r) (js ''ImportExpression'')"
      "\<not> (\<exists>t \<in> set ?kinds. es_type h (ERef r) t)"
    | (none) "\<not> es_type h (ERef r) (js ''ImportExpression'')" "\<not> (\<exists>t \<in> set ?kinds. es_type h (ERef r) t)" by blast
  then show ?thesis
  proof cases
    case static
    then have "{t. module_source h r t} = {s}" using source by (auto simp: module_source_def)
    moreover obtain line where "found' = found @ [\<lparr>de_destination = s, de_line = line, de_context = HtmlLink\<rparr>]"
      using assms static Some unfolding es_source_step_def kinds Let_def by (auto simp: append_destination_Inr)
    ultimately show ?thesis using apart [OF static] by auto
  next
    case dynamic
    then have "{t. module_source h r t} = {s}" using source by (auto simp: module_source_def)
    moreover obtain line where "found' = found @ [\<lparr>de_destination = s, de_line = line, de_context = HtmlLink\<rparr>]"
      and "literal_import h r"
      using assms dynamic Some source unfolding es_source_step_def kinds Let_def
      by (auto simp: append_destination_Inr throw_if_Inr_iff literal_import_def)
    ultimately show ?thesis by auto
  next
    case none
    then have "\<not> module_source h r t" for t by (auto simp: module_source_def)
    moreover have "found' = found" using assms none Some unfolding es_source_step_def kinds Let_def by auto
    ultimately show ?thesis using none by auto
  qed
qed

lemma es_source_settles:
  assumes "es_source_step h tk limit r found = Inr found'"
  shows "set found \<subseteq> set found' \<and> settled h found' r"
  using es_source_step_adds [OF assms] by (force simp: settled_def)

lemma append_node_refs:
  "appendESTreeNode depth v pending = Inr pending' \<Longrightarrow> fst ` set pending' = fst ` set pending \<union> {r. ERef r = v}"
  by (cases v) (auto simp: appendESTreeNode_def throw_if_Inr_iff)

lemma append_nodes_refs:
  "fold_res (appendESTreeNode depth) vs pending = Inr pending' \<Longrightarrow>
     fst ` set pending' = fst ` set pending \<union> {r. ERef r \<in> set vs}"
proof (induction vs arbitrary: pending)
  case (Cons v vs)
  then obtain mid where step: "appendESTreeNode depth v pending = Inr mid"
    and rest: "fold_res (appendESTreeNode depth) vs mid = Inr pending'"
    by (auto simp: res_bind_Inr_iff)
  from Cons.IH [OF rest] append_node_refs [OF step] show ?case by auto
qed simp

lemma es_child_refs:
  assumes "es_child_step h depth kv pending = Inr pending'"
  shows "fst ` set pending' = fst ` set pending \<union> field_refs h [kv]"
proof (cases "skipped_key (fst kv)")
  case True
  with assms show ?thesis by (auto simp: es_child_step_def field_refs_def skipped_key_def)
next
  case False
  then have refs: "field_refs h [kv] = value_refs h (snd kv)" by (auto simp: field_refs_def skipped_key_def)
  show ?thesis
  proof (cases "es_elements h (snd kv)")
    case None
    with False assms have "appendESTreeNode (depth + 1) (snd kv) pending = Inr pending'" by (simp add: es_child_step_def)
    from append_node_refs [OF this] None refs show ?thesis by (simp add: value_refs_def or_default_def)
  next
    case (Some vs)
    with False assms have "fold_res (appendESTreeNode (depth + 1)) vs pending = Inr pending'"
      by (simp add: es_child_step_def throw_if_Inr_iff)
    from append_nodes_refs [OF this] Some refs show ?thesis by (simp add: value_refs_def or_default_def)
  qed
qed

lemma es_children_refs:
  "fold_res (es_child_step h depth) props pending = Inr pending' \<Longrightarrow>
     fst ` set pending' = fst ` set pending \<union> field_refs h props"
proof (induction props arbitrary: pending)
  case (Cons kv props)
  then obtain mid where step: "es_child_step h depth kv pending = Inr mid"
    and rest: "fold_res (es_child_step h depth) props mid = Inr pending'"
    by (auto simp: res_bind_Inr_iff)
  have "field_refs h (kv # props) = field_refs h [kv] \<union> field_refs h props" by (auto simp: field_refs_def)
  with Cons.IH [OF rest] es_child_refs [OF step] show ?case by auto
qed (simp add: field_refs_def)

text \<open>The walk ends with a set of settled objects closed under the walk.\<close>

definition es_closed :: "es_heap \<Rightarrow> nat set \<Rightarrow> nat set \<Rightarrow> bool" where
  "es_closed h S T \<longleftrightarrow> (\<forall>x \<in> S. field_refs h (eo_fields (h x)) \<subseteq> T)"

lemma es_loop_closes:
  assumes "es_loop h tk limit visits pending seen found = Inr found'"
    and "es_closed h (set seen) (set seen \<union> fst ` set pending)" and "\<forall>x \<in> set seen. settled h found x"
  shows "set found \<subseteq> set found' \<and>
    (\<exists>S. set seen \<union> fst ` set pending \<subseteq> S \<and> es_closed h S S \<and> (\<forall>x \<in> S. settled h found' x))"
  using assms
proof (induction h tk limit visits pending seen found rule: es_loop.induct)
  case (1 h tk limit visits seen found)
  then show ?case by (intro conjI exI [of _ "set seen"]) auto
next
  case (3 h tk limit visits r depth pending seen found)
  show ?case
  proof (cases "r \<in> set seen")
    case True
    then have "set seen \<union> fst ` set ((r, depth) # pending) = set seen \<union> fst ` set pending" by auto
    with 3 True show ?thesis by simp
  next
    case False
    with "3.prems"(1) obtain mid pending' where src: "es_source_step h tk limit r found = Inr mid"
      and kids: "fold_res (es_child_step h depth) (eo_fields (h r)) pending = Inr pending'"
      and guards: "\<not> MAX_ESTREE_DEPTH < depth" "\<not> MAX_ESTREE_PROPERTIES < length (eo_fields (h r))"
      and go: "es_loop h tk limit visits pending' (r # seen) mid = Inr found'"
      by (auto simp: throw_if_Inr_iff res_bind_Inr_iff)
    note set_kids = es_children_refs [OF kids] and mid = es_source_settles [OF src]
    have "es_closed h (set (r # seen)) (set (r # seen) \<union> fst ` set pending')"
      using "3.prems"(2) set_kids by (auto simp: es_closed_def)
    moreover have "\<forall>x \<in> set (r # seen). settled h mid x"
      using "3.prems"(3) mid settled_mono by auto
    ultimately have "set mid \<subseteq> set found' \<and>
        (\<exists>S. set (r # seen) \<union> fst ` set pending' \<subseteq> S \<and> es_closed h S S \<and> (\<forall>x \<in> S. settled h found' x))"
      using "3.IH"(2) False src kids go guards by (auto simp: throw_if_def)
    then obtain S where S: "set mid \<subseteq> set found'" "set (r # seen) \<union> fst ` set pending' \<subseteq> S" "es_closed h S S"
      "\<forall>x \<in> S. settled h found' x" by blast
    then have "set seen \<union> fst ` set ((r, depth) # pending) \<subseteq> S" using set_kids by auto
    with S mid show ?thesis by (intro conjI exI [of _ S]) auto
  qed
qed simp

text \<open>Every destination it adds is the module some reachable object names.\<close>

lemma es_loop_sound:
  assumes "es_loop h tk limit visits pending seen found = Inr found'" and "\<forall>p \<in> set pending. es_reach h root_obj (fst p)"
  shows "\<exists>extra. found' = found @ extra \<and> (\<forall>d \<in> set extra. \<exists>x. es_reach h root_obj x \<and> module_source h x (de_destination d))"
  using assms
proof (induction h tk limit visits pending seen found rule: es_loop.induct)
  case (3 h tk limit visits r depth pending seen found)
  show ?case
  proof (cases "r \<in> set seen")
    case True
    with 3 show ?thesis by simp
  next
    case False
    with "3.prems"(1) obtain mid pending' where src: "es_source_step h tk limit r found = Inr mid"
      and kids: "fold_res (es_child_step h depth) (eo_fields (h r)) pending = Inr pending'"
      and guards: "\<not> MAX_ESTREE_DEPTH < depth" "\<not> MAX_ESTREE_PROPERTIES < length (eo_fields (h r))"
      and go: "es_loop h tk limit visits pending' (r # seen) mid = Inr found'"
      by (auto simp: throw_if_Inr_iff res_bind_Inr_iff)
    have reach: "es_reach h root_obj r" using "3.prems"(2) by simp
    have "\<forall>p \<in> set pending'. es_reach h root_obj (fst p)"
    proof
      fix p assume "p \<in> set pending'"
      then have "fst p \<in> fst ` set pending \<union> field_refs h (eo_fields (h r))" using es_children_refs [OF kids] by auto
      then show "es_reach h root_obj (fst p)" using "3.prems"(2) es_reach_step [OF reach] by auto
    qed
    then have "\<exists>rest. found' = mid @ rest \<and> (\<forall>d \<in> set rest. \<exists>x. es_reach h root_obj x \<and> module_source h x (de_destination d))"
      using "3.IH"(2) False src kids go guards by (simp add: throw_if_def)
    then obtain rest where "found' = mid @ rest" "\<forall>d \<in> set rest. \<exists>x. es_reach h root_obj x \<and> module_source h x (de_destination d)"
      by blast
    moreover obtain extra where "mid = found @ extra" "de_destination ` set extra = {s. module_source h r s}"
      using es_source_step_adds [OF src] by blast
    ultimately show ?thesis using reach by (intro exI [of _ "extra @ rest"]) auto
  qed
qed simp_all

lemma es_closed_reach: "es_reach h r x \<Longrightarrow> r \<in> S \<Longrightarrow> es_closed h S S \<Longrightarrow> x \<in> S"
  by (induction rule: es_reach.induct) (auto simp: es_closed_def)

lemma collectMDXESTree_settled:
  assumes "collectMDXESTree tk limit found = Inr found'" and "tk_estree tk = EsTree h r" and "es_reach h r x"
  shows "settled h found' x"
proof -
  from assms have run: "es_loop h tk limit MAX_ESTREE_NODES [(r, 0)] [] found = Inr found'" by (simp add: collectMDXESTree_def)
  have "es_closed h (set []) (set [] \<union> fst ` set [(r, 0)])" by (simp add: es_closed_def)
  from es_loop_closes [OF run this] obtain S where "r \<in> S" "es_closed h S S" "\<forall>y \<in> S. settled h found' y" by auto
  with es_closed_reach [OF assms(3)] show ?thesis by blast
qed

lemma es_loop_numeral:
  "es_loop h tk limit (numeral k) ((r, depth) # pending) seen found =
     (if r \<in> set seen then es_loop h tk limit (pred_numeral k) pending seen found
      else
        throw_if (depth > MAX_ESTREE_DEPTH) EstreeDepth
        (res_bind (es_source_step h tk limit r found) (\<lambda>found'.
         throw_if (length (eo_fields (h r)) > MAX_ESTREE_PROPERTIES) EstreeProperties
         (res_bind (fold_res (es_child_step h depth) (eo_fields (h r)) pending) (\<lambda>pending'.
           es_loop h tk limit (pred_numeral k) pending' (r # seen) found')))))"
  by (simp only: numeral_eq_Suc es_loop.simps)

section \<open>Properties\<close>

text \<open>
  C20. The walk of MDX code finds exactly the modules it names: when it ends without an error, the destinations it
  added are the sources of the import declarations, of both kinds of export with a source and of the dynamic imports
  among all objects of the tree, no one missing and none besides, and every dynamic import among them has a string
  literal as its target. The object graph may share objects and may be cyclic.
\<close>

theorem collectMDXESTree_complete:
  assumes "collectMDXESTree tk limit found = Inr found'" and "tk_estree tk = EsTree h r"
  shows "prefix found found' \<and>
    de_destination ` set found' = de_destination ` set found \<union> {s. \<exists>x. es_reach h r x \<and> module_source h x s} \<and>
    (\<forall>x. es_reach h r x \<and> es_type h (ERef x) (js ''ImportExpression'') \<longrightarrow> literal_import h x)"
proof -
  from assms have run: "es_loop h tk limit MAX_ESTREE_NODES [(r, 0)] [] found = Inr found'"
    by (simp add: collectMDXESTree_def)
  note all = collectMDXESTree_settled [OF assms]
  obtain extra where extra: "found' = found @ extra" "\<forall>d \<in> set extra. \<exists>x. es_reach h r x \<and> module_source h x (de_destination d)"
    using es_loop_sound [OF run, of r] es_reach_root by auto
  have "{s. \<exists>x. es_reach h r x \<and> module_source h x s} \<subseteq> de_destination ` set found'"
    using all unfolding settled_def by blast
  moreover have "de_destination ` set extra \<subseteq> {s. \<exists>x. es_reach h r x \<and> module_source h x s}" using extra(2) by auto
  ultimately have "de_destination ` set found' = de_destination ` set found \<union> {s. \<exists>x. es_reach h r x \<and> module_source h x s}"
    unfolding extra(1) set_append image_Un by blast
  moreover have "prefix found found'" using extra(1) by simp
  moreover have "literal_import h x" if "es_reach h r x \<and> es_type h (ERef x) (js ''ImportExpression'')" for x
    using all that unfolding settled_def by blast
  ultimately show ?thesis by blast
qed

text \<open>\<open>import x from "a"\<close>, with a cycle back to the program, \<open>export * from "b"\<close> and \<open>import("c")\<close>.\<close>

definition sample_heap :: es_heap where
  "sample_heap r =
     (if r = 0 then \<lparr>eo_array = False, eo_fields = [(js ''type'', EStr (js ''Program'')), (js ''body'', ERef 1)]\<rparr>
      else if r = 1 then \<lparr>eo_array = True, eo_fields = [(js ''0'', ERef 2), (js ''1'', ERef 4), (js ''2'', ERef 6)]\<rparr>
      else if r = 2 then \<lparr>eo_array = False,
        eo_fields = [(js ''type'', EStr (js ''ImportDeclaration'')), (js ''source'', ERef 3), (js ''parent'', ERef 0)]\<rparr>
      else if r = 4 then \<lparr>eo_array = False, eo_fields = [(js ''type'', EStr (js ''ExportAllDeclaration'')), (js ''source'', ERef 5)]\<rparr>
      else if r = 6 then \<lparr>eo_array = False, eo_fields = [(js ''type'', EStr (js ''ImportExpression'')), (js ''source'', ERef 7)]\<rparr>
      else \<lparr>eo_array = False, eo_fields = [(js ''type'', EStr (js ''Literal'')),
        (js ''value'', EStr (if r = 3 then js ''a'' else if r = 5 then js ''b'' else js ''c''))]\<rparr>)"

definition sample_token :: md_token where
  "sample_token = \<lparr>tk_type = js ''mdxjsEsm'', tk_start = 0, tk_end = 17, tk_line = 4, tk_estree = EsTree sample_heap 0\<rparr>"

definition sample_destination :: "jsstr \<Rightarrow> destination" where
  "sample_destination s = \<lparr>de_destination = s, de_line = 4, de_context = HtmlLink\<rparr>"

lemma sample_estree:
  "collectMDXESTree sample_token 9 [] =
     Inr [sample_destination (js ''c''), sample_destination (js ''b''), sample_destination (js ''a'')]"
  by (simp add: collectMDXESTree_def sample_token_def MAX_ESTREE_NODES_def MAX_ESTREE_DEPTH_def MAX_ESTREE_PROPERTIES_def
      es_loop_numeral sample_heap_def es_source_step_def es_type_def MDX_STATIC_SOURCE_TYPES_def appendHTMLDestination_def
      source_line_def es_child_step_def skipped_key_def appendESTreeNode_def sample_destination_def)

lemma collectMDXESTree_complete_witness:
  "(\<exists>x. es_reach sample_heap 0 x \<and> module_source sample_heap x (js ''b'')) \<and> literal_import sample_heap 6"
proof -
  have tree: "tk_estree sample_token = EsTree sample_heap 0" by (simp add: sample_token_def)
  have "es_reach sample_heap 0 6"
    by (rule es_reach_step [OF es_reach_root], unfold field_refs_def, rule UN_I [where a = "(js ''body'', ERef 1)"])
       (simp_all add: sample_heap_def value_refs_def or_default_def)
  moreover have "es_type sample_heap (ERef 6) (js ''ImportExpression'')" by (simp add: es_type_def sample_heap_def)
  ultimately have "literal_import sample_heap 6" using collectMDXESTree_complete [OF sample_estree tree] by blast
  moreover have "js ''b'' \<in> de_destination ` set ([] :: destination list) \<union> {s. \<exists>x. es_reach sample_heap 0 x \<and> module_source sample_heap x s}"
    unfolding conjunct1 [OF conjunct2 [OF collectMDXESTree_complete [OF sample_estree tree]], symmetric]
    by (simp add: sample_destination_def)
  ultimately show ?thesis by simp
qed

end
