(* ===== verification/ScratchScan.thy ===== *)
theory ScratchScan
  imports ScratchMDX
begin

text \<open>
  The scan of one Markdown file for links into the private scratch directories, the report over an
  inventory of files, and the worker that runs the scans
  (\<^verbatim>\<open>src/tools/markdownlint/no-private-scratch-links.mjs\<close>). The Markdown parser (\<open>micromark\<close>), the HTML
  parser and the collation order of \<open>localeCompare\<close> are parameters; a scan worker is a state machine whose
  events are the messages, errors, exits and deadlines of one thread.
\<close>

definition MAX_FINDINGS :: nat where "MAX_FINDINGS = 64"
definition MAX_SCAN_FILES :: nat where "MAX_SCAN_FILES = 16384"
definition MAX_SCAN_FILE_BYTES :: nat where "MAX_SCAN_FILE_BYTES = 4194304"
definition MAX_SOURCE_PATH_BYTES :: nat where "MAX_SOURCE_PATH_BYTES = 4096"
definition MAX_DIAGNOSTIC_FIELD_CHARS :: nat where "MAX_DIAGNOSTIC_FIELD_CHARS = 256"

definition DESTINATION_TYPES :: "jsstr list" where
  "DESTINATION_TYPES = [js ''resourceDestinationString'', js ''definitionDestinationString'', js ''autolinkProtocol'']"

definition HTML_TYPES :: "jsstr list" where "HTML_TYPES = [js ''htmlFlow'', js ''htmlText'']"

definition MDX_JSX_TAG_TYPES :: "jsstr list" where
  "MDX_JSX_TAG_TYPES = [js ''mdxJsxFlowTag'', js ''mdxJsxTextTag'']"

definition MDX_JSX_ATTRIBUTE_TYPES :: "jsstr list" where
  "MDX_JSX_ATTRIBUTE_TYPES = [js ''mdxJsxFlowTagAttribute'', js ''mdxJsxTextTagAttribute'']"

definition MDX_JSX_SPREAD_TYPES :: "jsstr list" where
  "MDX_JSX_SPREAD_TYPES = [js ''mdxJsxFlowTagExpressionAttribute'', js ''mdxJsxTextTagExpressionAttribute'']"

section \<open>One file\<close>

text \<open>
  The parsers: \<open>parseFragment\<close>, the host parser of \<open>URL\<close>, and the events of a Markdown text (entered or
  left, with the token), with the MDX extensions or without; \<open>None\<close> is a syntax error.
\<close>

record parsers =
  pa_fragment :: fragment_parser
  pa_host :: "jsstr \<Rightarrow> jsstr option"
  pa_events :: "bool \<Rightarrow> jsstr \<Rightarrow> (bool \<times> md_token) list option"

record scan =
  sn_destinations :: "destination list"
  sn_html :: html_state
  sn_expressions :: mdx_expressions

definition with_scan :: "scan \<Rightarrow> html_scan \<Rightarrow> scan" where
  "with_scan sn hs = sn\<lparr>sn_html := fst hs, sn_destinations := snd hs\<rparr>"

definition token_text :: "jsstr \<Rightarrow> md_token \<Rightarrow> jsstr" where
  "token_text markdown tk = js_slice markdown (tk_start tk) (tk_end tk)"

definition collectEmbeddedHTML ::
  "parsers \<Rightarrow> jsstr \<Rightarrow> bool \<Rightarrow> md_token \<Rightarrow> scan \<Rightarrow> (scan_error, scan) res" where
  "collectEmbeddedHTML pa markdown mdxJSX tk sn =
     res_bind (htmlDestinations (pa_fragment pa) (token_text markdown tk) (tk_line tk)
         (MAX_EVENTS - length (sn_destinations sn)) mdxJSX (sn_html sn)) (\<lambda>(st, embedded).
       Inr (sn\<lparr>sn_html := st, sn_destinations := sn_destinations sn @ embedded\<rparr>))"

definition collectTokenDestinations :: "parsers \<Rightarrow> jsstr \<Rightarrow> md_token \<Rightarrow> scan \<Rightarrow> (scan_error, scan) res" where
  "collectTokenDestinations pa markdown tk sn =
     (if tk_type tk \<in> set DESTINATION_TYPES then
        throw_if (length (sn_destinations sn) \<ge> MAX_EVENTS) LinkDestinations
          (Inr (sn\<lparr>sn_destinations := sn_destinations sn @
             [\<lparr>de_destination = token_text markdown tk, de_line = tk_line tk, de_context = MarkdownLink\<rparr>]\<rparr>))
      else if tk_type tk \<in> set HTML_TYPES then collectEmbeddedHTML pa markdown False tk sn
      else if tk_type tk \<in> set MDX_JSX_TAG_TYPES then collectEmbeddedHTML pa markdown True tk sn
      else if tk_type tk \<in> set MDX_JSX_ATTRIBUTE_TYPES then
        res_bind (collectMDXJSXAttribute (pa_fragment pa) markdown tk MAX_EVENTS (sn_destinations sn, sn_expressions sn))
          (\<lambda>(found, expressions). Inr (sn\<lparr>sn_destinations := found, sn_expressions := expressions\<rparr>))
      else if tk_type tk \<in> set MDX_JSX_SPREAD_TYPES then Inl JsxSpread
      else if tk_estree tk \<noteq> EsUndefined then
        res_bind (case map_of (sn_expressions sn) (tk_start tk) of
            None \<Rightarrow> Inr sn
          | Some property \<Rightarrow>
              res_bind (collectMDXPropertyExpression tk property MAX_EVENTS (sn_html sn, sn_destinations sn)) (\<lambda>hs.
                Inr ((with_scan sn hs)\<lparr>sn_expressions := filter (\<lambda>e. fst e \<noteq> tk_start tk) (sn_expressions sn)\<rparr>))) (\<lambda>sn'.
        res_bind (collectMDXESTree tk MAX_EVENTS (sn_destinations sn')) (\<lambda>found.
          Inr (sn'\<lparr>sn_destinations := found\<rparr>)))
      else if tk_type tk = js ''data'' then
        res_bind (collectAttributeLists (pa_fragment pa) markdown (tk_start tk) (tk_end tk) (tk_line tk) MAX_EVENTS
            (sn_html sn, sn_destinations sn)) (\<lambda>hs. Inr (with_scan sn hs))
      else Inr sn)"

record link_finding =
  fd_source :: jsstr
  fd_line :: nat
  fd_original :: jsstr
  fd_resolution :: resolution

text \<open>The finding of one destination.\<close>

definition finding_of :: "parsers \<Rightarrow> jsstr \<Rightarrow> destination \<Rightarrow> link_finding option" where
  "finding_of pa source d =
     map_option (\<lambda>r. \<lparr>fd_source = source, fd_line = de_line d, fd_original = de_destination d, fd_resolution = r\<rparr>)
       (forbiddenResolution (pa_fragment pa) (pa_host pa) source (de_destination d) (de_context d))"

fun findings_loop :: "parsers \<Rightarrow> jsstr \<Rightarrow> nat \<Rightarrow> destination list \<Rightarrow> link_finding list \<Rightarrow> link_finding list" where
  "findings_loop pa source limit [] findings = findings"
| "findings_loop pa source limit (d # ds) findings =
     (case finding_of pa source d of
        None \<Rightarrow> findings_loop pa source limit ds findings
      | Some f \<Rightarrow>
          (if length (findings @ [f]) = limit then findings @ [f]
           else findings_loop pa source limit ds (findings @ [f])))"

definition forbiddenFindings :: "parsers \<Rightarrow> jsstr \<Rightarrow> destination list \<Rightarrow> nat \<Rightarrow> link_finding list" where
  "forbiddenFindings pa source destinations limit = findings_loop pa source limit (take MAX_EVENTS destinations) []"

definition default_bounds :: bound_overrides where
  "default_bounds = \<lparr>ov_maxHTMLNodes = None, ov_maxHTMLDepth = None, ov_maxCSSTokens = None, ov_maxCSSDepth = None\<rparr>"

datatype file_error =
    ScanFailed scan_error
  | SyntaxFailed
  | Unreadable
  | FileTooLarge nat

definition lift_scan :: "(scan_error, 'a) res \<Rightarrow> (file_error, 'a) res" where
  "lift_scan r = (case r of Inl e \<Rightarrow> Inl (ScanFailed e) | Inr x \<Rightarrow> Inr x)"

text \<open>Every destination of a file, in the order the scan adds them.\<close>

definition file_destinations ::
  "parsers \<Rightarrow> jsstr \<Rightarrow> (bool \<times> md_token) list \<Rightarrow> (scan_error, destination list) res" where
  "file_destinations pa markdown events =
     throw_if (length events > parseEventLimit markdown) (ParseEvents (parseEventLimit markdown))
     (res_bind (snippetDestinations markdown MAX_EVENTS (parseEventLimit markdown)) (\<lambda>snippets.
      res_bind (createHTMLState default_bounds) (\<lambda>st.
      res_bind (fold_res (\<lambda>(entered, tk) sn. if entered then collectTokenDestinations pa markdown tk sn else Inr sn) events
          \<lparr>sn_destinations = snippets, sn_html = st, sn_expressions = []\<rparr>) (\<lambda>sn.
        throw_if (sn_expressions sn \<noteq> []) MdxUnparsed (Inr (sn_destinations sn))))))"

definition findPrivateScratchLinks ::
  "parsers \<Rightarrow> jsstr \<Rightarrow> jsstr \<Rightarrow> nat \<Rightarrow> (file_error, link_finding list) res" where
  "findPrivateScratchLinks pa source markdown limit =
     throw_if (limit < 1 \<or> limit > MAX_FINDINGS + 1) (ScanFailed BadLimit)
     (case pa_events pa (isMDXSource source) markdown of
        None \<Rightarrow> Inl SyntaxFailed
      | Some events \<Rightarrow>
          res_bind (lift_scan (file_destinations pa markdown events)) (\<lambda>destinations.
            Inr (forbiddenFindings pa source destinations limit)))"

section \<open>Diagnostics and the inventory\<close>

definition ellipsis :: jsstr where "ellipsis = [0x2026]"

definition boundedField :: "jsstr \<Rightarrow> jsstr" where
  "boundedField content =
     (if length content \<le> MAX_DIAGNOSTIC_FIELD_CHARS then content
      else take MAX_DIAGNOSTIC_FIELD_CHARS content @ ellipsis @ js ''('' @ nat_digits (length content) @ js '' chars)'')"

definition diagnostic :: "link_finding \<Rightarrow> jsstr" where
  "diagnostic f =
     fd_source f @ js '':'' @ nat_digits (fd_line f) @ js '': error PRAETOR-MD001 private scratch link destination='' @
     json_string (boundedField (fd_original f)) @ js '' resolved='' @ json_string (boundedField (rs_resolved (fd_resolution f))) @
     js '' forbidden_root='' @ json_string (rs_root (fd_resolution f))"

definition limit_diagnostic :: "link_finding \<Rightarrow> jsstr" where
  "limit_diagnostic f =
     fd_source f @ js '':'' @ nat_digits (fd_line f) @
     js '': error PRAETOR-MD002 private scratch-link diagnostic limit exceeded maximum='' @ nat_digits MAX_FINDINGS"

definition capFindings :: "link_finding list \<Rightarrow> nat \<Rightarrow> link_finding list \<times> link_finding option" where
  "capFindings findings remaining = (take remaining findings, js_at findings remaining)"

text \<open>An entry of the inventory is a string or some other JSON value (\<open>None\<close>).\<close>

datatype inventory_error = NotAnArray | TooManyFiles nat | BadEntry nat | UnsafePath nat

definition unsafe_unit :: "nat \<Rightarrow> bool" where "unsafe_unit c \<longleftrightarrow> c = 0 \<or> c = 13 \<or> c = 10"

definition entry_error :: "nat \<times> jsstr option \<Rightarrow> inventory_error option" where
  "entry_error e =
     (case snd e of
        None \<Rightarrow> Some (BadEntry (fst e))
      | Some p \<Rightarrow>
          if p = [] then Some (BadEntry (fst e))
          else if byte_length p > MAX_SOURCE_PATH_BYTES \<or> list_ex unsafe_unit p then Some (UnsafePath (fst e)) else None)"

definition validateFileList :: "jsstr option list option \<Rightarrow> (inventory_error, jsstr list) res" where
  "validateFileList files =
     (case files of
        None \<Rightarrow> Inl NotAnArray
      | Some xs \<Rightarrow>
          throw_if (length xs > MAX_SCAN_FILES) (TooManyFiles (length xs))
            (case first_resolution entry_error (zip [0..<length xs] xs) of
               Some e \<Rightarrow> Inl e
             | None \<Rightarrow> Inr (map the xs)))"

text \<open>The worker's reply to one request: it opens the file, refuses one past the ceiling, and scans it.\<close>

record source_file = sf_size :: nat sf_content :: jsstr

definition readBoundedSource :: "(jsstr \<Rightarrow> source_file option) \<Rightarrow> jsstr \<Rightarrow> jsstr \<Rightarrow> (file_error, jsstr) res" where
  "readBoundedSource read repo source =
     (case read (path_join [repo, source]) of
        None \<Rightarrow> Inl Unreadable
      | Some f \<Rightarrow> throw_if (sf_size f > MAX_SCAN_FILE_BYTES) (FileTooLarge (sf_size f)) (Inr (sf_content f)))"

definition serveScans ::
  "parsers \<Rightarrow> (jsstr \<Rightarrow> source_file option) \<Rightarrow> jsstr \<Rightarrow> jsstr \<Rightarrow> nat \<Rightarrow> (file_error, link_finding list) res" where
  "serveScans pa read repo source limit =
     res_bind (readBoundedSource read repo source) (\<lambda>markdown. findPrivateScratchLinks pa source markdown limit)"

section \<open>The report\<close>

text \<open>\<open>left.line - right.line || left.original.localeCompare(right.original)\<close>, at most zero.\<close>

definition finding_le :: "(jsstr \<Rightarrow> jsstr \<Rightarrow> bool) \<Rightarrow> link_finding \<Rightarrow> link_finding \<Rightarrow> bool" where
  "finding_le locale_le l r \<longleftrightarrow>
     fd_line l < fd_line r \<or> fd_line l = fd_line r \<and> locale_le (fd_original l) (fd_original r)"

text \<open>
  The lines written to standard error and the exit status, for the files still to scan and the number of
  findings emitted so far. A scan that fails ends the report with its error.
\<close>

fun report_loop ::
  "(jsstr \<Rightarrow> jsstr \<Rightarrow> bool) \<Rightarrow> (jsstr \<Rightarrow> nat \<Rightarrow> ('e, link_finding list) res) \<Rightarrow> jsstr list \<Rightarrow> nat \<Rightarrow>
   jsstr list \<times> ('e, nat) res" where
  "report_loop locale_le scan [] emitted = ([], Inr (if emitted = 0 then 0 else 1))"
| "report_loop locale_le scan (file # files) emitted =
     (let remaining = MAX_FINDINGS - emitted in
      case scan file (remaining + 1) of
        Inl e \<Rightarrow> ([], Inl e)
      | Inr found \<Rightarrow>
          (let (shown, firstOmitted) = capFindings (sort_by (finding_le locale_le) found) remaining;
               lines = map diagnostic (take MAX_FINDINGS shown) in
           case firstOmitted of
             Some f \<Rightarrow> (lines @ [limit_diagnostic f], Inr 2)
           | None \<Rightarrow>
               (let (rest, status) = report_loop locale_le scan files (emitted + length lines) in (lines @ rest, status))))"

definition reportFindings ::
  "(jsstr \<Rightarrow> jsstr \<Rightarrow> bool) \<Rightarrow> (jsstr \<Rightarrow> nat \<Rightarrow> ('e, link_finding list) res) \<Rightarrow> jsstr list \<Rightarrow> jsstr list \<times> ('e, nat) res" where
  "reportFindings locale_le scan files = report_loop locale_le scan (take MAX_SCAN_FILES files) 0"

section \<open>The scan worker\<close>

datatype scan_failure =
    ReplyError file_error
  | OutOfMemory
  | WorkerFailed
  | WorkerExited int
  | DeadlineExceeded
  | WorkerStopped
  | StillScanning jsstr
  | StopFailed

text \<open>How a request ended: resolved with the findings of the reply, which answers a request, or rejected.\<close>

datatype scan_outcome = Resolved jsstr "link_finding list" | Rejected scan_failure

text \<open>
  The fields of \<open>ScanWorker\<close>, and the other side: whether the thread is alive, the requests posted to it and
  not answered, and the history of the requests accepted and settled. The timer of a request exists exactly
  while the request is pending.
\<close>

record scan_worker =
  sw_retired :: bool
  sw_pending :: "jsstr option"
  sw_alive :: bool
  sw_inbox :: "jsstr list"
  sw_accepted :: "jsstr list"
  sw_settled :: "(jsstr \<times> scan_outcome) list"

definition new_worker :: scan_worker where
  "new_worker = \<lparr>sw_retired = False, sw_pending = None, sw_alive = True, sw_inbox = [], sw_accepted = [], sw_settled = []\<rparr>"

definition settle :: "scan_outcome \<Rightarrow> scan_worker \<Rightarrow> scan_worker" where
  "settle outcome w =
     (case sw_pending w of
        None \<Rightarrow> w
      | Some source \<Rightarrow> w\<lparr>sw_pending := None, sw_settled := sw_settled w @ [(source, outcome)]\<rparr>)"

definition worker_scan :: "jsstr \<Rightarrow> scan_worker \<Rightarrow> (scan_failure, scan_worker) res" where
  "worker_scan source w =
     (if sw_retired w then Inl WorkerStopped
      else
        (case sw_pending w of
           Some other \<Rightarrow> Inl (StillScanning other)
         | None \<Rightarrow>
             Inr (w\<lparr>sw_pending := Some source, sw_inbox := sw_inbox w @ [source], sw_accepted := sw_accepted w @ [source]\<rparr>)))"

definition workerFailure :: "bool \<Rightarrow> scan_failure" where
  "workerFailure outOfMemory = (if outOfMemory then OutOfMemory else WorkerFailed)"

definition on_message :: "jsstr \<Rightarrow> (file_error, link_finding list) res \<Rightarrow> scan_worker \<Rightarrow> scan_worker" where
  "on_message request reply w =
     settle (case reply of Inl e \<Rightarrow> Rejected (ReplyError e) | Inr findings \<Rightarrow> Resolved request findings) w"

definition on_error :: "bool \<Rightarrow> scan_worker \<Rightarrow> scan_worker" where
  "on_error outOfMemory w = settle (Rejected (workerFailure outOfMemory)) w"

definition on_exit :: "int \<Rightarrow> scan_worker \<Rightarrow> scan_worker" where
  "on_exit code w = settle (Rejected (WorkerExited code)) (w\<lparr>sw_retired := True\<rparr>)"

definition expire :: "scan_worker \<Rightarrow> scan_worker" where
  "expire w = settle (Rejected DeadlineExceeded) (w\<lparr>sw_retired := True\<rparr>)"

text \<open>
  \<open>close\<close> waits for the stop a deadline began, stops the thread, and throws when that first stop failed;
  \<open>withScanWorker\<close> closes in its \<open>finally\<close> clause, so that error replaces the result of the action.
\<close>

definition close_worker :: "bool \<Rightarrow> scan_worker \<Rightarrow> (scan_failure, scan_worker) res" where
  "close_worker stopFailed w = throw_if stopFailed StopFailed (Inr (w\<lparr>sw_alive := False\<rparr>))"

definition withScanWorker :: "bool \<Rightarrow> (scan_failure, 'a) res \<Rightarrow> (scan_failure, 'a) res" where
  "withScanWorker stopFailed action = res_bind (close_worker stopFailed new_worker) (\<lambda>_. action)"

datatype worker_event = Scan jsstr | Message | Error bool | Exit int | Deadline

text \<open>
  What can happen to a worker: a request, the reply to the oldest unanswered request of a live thread, an
  error or an exit, and the deadline of the pending request. A thread whose deadline passed may still
  reply until it has stopped.
\<close>

inductive worker_step :: "scan_worker \<Rightarrow> worker_event \<Rightarrow> scan_worker \<Rightarrow> bool" where
  step_scan: "worker_scan source w = Inr w' \<Longrightarrow> worker_step w (Scan source) w'"
| step_message: "sw_alive w \<Longrightarrow> sw_inbox w = request # rest \<Longrightarrow>
    worker_step w Message (on_message request reply (w\<lparr>sw_inbox := rest\<rparr>))"
| step_error: "sw_alive w \<Longrightarrow> worker_step w (Error oom) (on_error oom (w\<lparr>sw_alive := False\<rparr>))"
| step_exit: "worker_step w (Exit code) (on_exit code (w\<lparr>sw_alive := False\<rparr>))"
| step_deadline: "sw_pending w = Some source \<Longrightarrow> worker_step w Deadline (expire w)"

inductive_cases scan_stepE: "worker_step w (Scan source) w'"

inductive worker_reachable :: "scan_worker \<Rightarrow> bool" where
  reach_new: "worker_reachable new_worker"
| reach_step: "worker_reachable w \<Longrightarrow> worker_step w e w' \<Longrightarrow> worker_reachable w'"

section \<open>The command\<close>

datatype scan_main = ScanNotMain | ScanSelfTest | ScanUsage | ScanFiles jsstr jsstr

text \<open>\<open>fs.realpathSync\<close> answers \<open>None\<close> where it throws.\<close>

definition invokedAsScript :: "(jsstr \<Rightarrow> jsstr option) \<Rightarrow> jsstr option \<Rightarrow> jsstr \<Rightarrow> bool" where
  "invokedAsScript real scriptPath modulePath =
     (case scriptPath of
        None \<Rightarrow> False
      | Some p \<Rightarrow> p \<noteq> [] \<and> real p \<noteq> None \<and> real p = real modulePath)"

text \<open>What \<open>main\<close> of the main thread does with \<open>process.argv\<close>.\<close>

definition scan_mode :: "(jsstr \<Rightarrow> jsstr option) \<Rightarrow> jsstr \<Rightarrow> jsstr \<Rightarrow> jsstr list \<Rightarrow> scan_main" where
  "scan_mode real cwd modulePath argv =
     (if \<not> invokedAsScript real (js_at argv 1) modulePath then ScanNotMain
      else if js_at argv 2 = Some (js ''--self-test'') \<and> length argv = 3 then ScanSelfTest
      else if length argv \<noteq> 4 then ScanUsage
      else ScanFiles (path_resolve cwd [argv ! 2]) (path_resolve cwd [argv ! 3]))"

text \<open>\<open>runFileList\<close>: the lines and the status; \<open>main().catch\<close> makes a failure status 2.\<close>

datatype run_failure = InventoryUnreadable | BadInventory inventory_error | ScanStopped scan_failure

definition runFileList ::
  "(jsstr \<Rightarrow> jsstr \<Rightarrow> bool) \<Rightarrow> (jsstr \<Rightarrow> jsstr option list option option) \<Rightarrow> (jsstr \<Rightarrow> nat \<Rightarrow> (scan_failure, link_finding list) res) \<Rightarrow>
   bool \<Rightarrow> jsstr \<Rightarrow> jsstr list \<times> (run_failure, nat) res" where
  "runFileList locale_le parse_inventory scan stopFailed inventoryPath =
     (case parse_inventory inventoryPath of
        None \<Rightarrow> ([], Inl InventoryUnreadable)
      | Some files \<Rightarrow>
          (case validateFileList files of
             Inl e \<Rightarrow> ([], Inl (BadInventory e))
           | Inr names \<Rightarrow>
               (let (lines, status) = reportFindings locale_le scan names in
                (lines, case withScanWorker stopFailed status of Inl e \<Rightarrow> Inl (ScanStopped e) | Inr n \<Rightarrow> Inr n))))"

definition exit_code :: "(run_failure, nat) res \<Rightarrow> nat" where
  "exit_code status = (case status of Inl _ \<Rightarrow> 2 | Inr n \<Rightarrow> n)"

section \<open>Lemmas: every collector only adds\<close>

definition grows :: "nat \<Rightarrow> destination list \<Rightarrow> destination list \<Rightarrow> bool" where
  "grows limit found found' \<longleftrightarrow> set found \<subseteq> set found' \<and> (length found \<le> limit \<longrightarrow> length found' \<le> limit)"

lemma grows_refl [simp]: "grows limit found found"
  by (simp add: grows_def)












section \<open>Lemmas: what a scan covers\<close>





















section \<open>Lemmas: the report\<close>

lemma report_status:
  assumes "report_loop locale_le scan files emitted = (lines, Inr status)" and "emitted \<le> MAX_FINDINGS"
  shows "status \<le> 2 \<and> length lines \<le> MAX_FINDINGS - emitted + 1 \<and>
    (status < 2 \<longrightarrow> length lines \<le> MAX_FINDINGS - emitted \<and>
       (\<exists>found. list_all2 (\<lambda>f fs. \<exists>n. 0 < n \<and> length fs < n \<and> scan f n = Inr fs) files found \<and>
          lines = concat (map (\<lambda>fs. map diagnostic (sort_by (finding_le locale_le) fs)) found) \<and>
          (status = 0 \<longleftrightarrow> emitted = 0 \<and> lines = [])))"
  using assms
proof (induction files arbitrary: emitted lines)
  case Nil
  then show ?case by (auto split: if_splits)
next
  case (Cons name files)
  let ?rem = "MAX_FINDINGS - emitted"
  obtain found where found: "scan name (?rem + 1) = Inr found"
    using Cons.prems(1) by (cases "scan name (?rem + 1)") (auto simp: Let_def)
  let ?sorted = "sort_by (finding_le locale_le) found"
  show ?case
  proof (cases "length found \<le> ?rem")
    case False
    then have omitted: "js_at ?sorted ?rem = Some (?sorted ! ?rem)" by (simp add: js_at_def)
    with Cons.prems(1) found have "status = 2"
      and "lines = map diagnostic (take MAX_FINDINGS (take ?rem ?sorted)) @ [limit_diagnostic (?sorted ! ?rem)]"
      by (auto simp: Let_def capFindings_def)
    then show ?thesis by simp
  next
    case True
    then have none: "js_at ?sorted ?rem = None" and shown: "take MAX_FINDINGS (take ?rem ?sorted) = ?sorted"
      by (auto simp: js_at_def)
    obtain rest where rest: "report_loop locale_le scan files (emitted + length found) = (rest, Inr status)"
      and lines: "lines = map diagnostic ?sorted @ rest"
      using Cons.prems(1) found none shown
      by (cases "report_loop locale_le scan files (emitted + length found)") (auto simp: Let_def capFindings_def)
    have bound: "emitted + length found \<le> MAX_FINDINGS" using True Cons.prems(2) by simp
    note ih = Cons.IH [OF rest bound]
    show ?thesis
    proof (intro conjI impI)
      show "status \<le> 2" using ih by blast
      have "length rest \<le> MAX_FINDINGS - (emitted + length found) + 1" using ih by blast
      with True lines show "length lines \<le> ?rem + 1" by simp
      assume "status < 2"
      with ih obtain fss where fss: "list_all2 (\<lambda>f fs. \<exists>n. 0 < n \<and> length fs < n \<and> scan f n = Inr fs) files fss"
        "rest = concat (map (\<lambda>fs. map diagnostic (sort_by (finding_le locale_le) fs)) fss)"
        "status = 0 \<longleftrightarrow> emitted + length found = 0 \<and> rest = []"
        "length rest \<le> MAX_FINDINGS - (emitted + length found)"
        by blast
      show "length lines \<le> ?rem" using fss(4) lines True by auto
      have "\<exists>n. 0 < n \<and> length found < n \<and> scan name n = Inr found" using found True by (intro exI [of _ "?rem + 1"]) auto
      moreover have "?sorted = [] \<longleftrightarrow> found = []" by (metis length_0_conv length_sort_by)
      ultimately show "\<exists>found. list_all2 (\<lambda>f fs. \<exists>n. 0 < n \<and> length fs < n \<and> scan f n = Inr fs) (name # files) found \<and>
          lines = concat (map (\<lambda>fs. map diagnostic (sort_by (finding_le locale_le) fs)) found) \<and>
          (status = 0 \<longleftrightarrow> emitted = 0 \<and> lines = [])"
        using fss lines by (intro exI [of _ "found # fss"]) auto
    qed
  qed
qed

section \<open>Lemmas: the worker\<close>

definition pending_list :: "scan_worker \<Rightarrow> jsstr list" where
  "pending_list w = (case sw_pending w of None \<Rightarrow> [] | Some s \<Rightarrow> [s])"

text \<open>A resolved request was answered by the reply to itself.\<close>

definition answers_itself :: "jsstr \<times> scan_outcome \<Rightarrow> bool" where
  "answers_itself p = (case snd p of Resolved r _ \<Rightarrow> r = fst p | Rejected _ \<Rightarrow> True)"

definition worker_inv :: "scan_worker \<Rightarrow> bool" where
  "worker_inv w \<longleftrightarrow>
     map fst (sw_settled w) @ pending_list w = sw_accepted w \<and>
     list_all answers_itself (sw_settled w) \<and>
     (sw_retired w \<longrightarrow> sw_pending w = None) \<and>
     (sw_alive w \<and> \<not> sw_retired w \<longrightarrow> sw_inbox w = pending_list w)"

lemma worker_inv_step:
  assumes "worker_inv w" and "worker_step w e w'"
  shows "worker_inv w'"
  using assms(2,1)
proof cases
  case (step_scan source)
  with assms(1) show ?thesis
    by (auto simp: worker_inv_def worker_scan_def pending_list_def answers_itself_def split: if_splits option.splits)
next
  case (step_message request rest reply)
  with assms(1) show ?thesis
    by (cases "sw_pending w"; cases "sw_retired w"; cases reply)
       (auto simp: worker_inv_def on_message_def settle_def pending_list_def answers_itself_def)
next
  case (step_error oom)
  with assms(1) show ?thesis
    by (auto simp: worker_inv_def on_error_def settle_def pending_list_def answers_itself_def split: option.splits)
next
  case (step_exit code)
  with assms(1) show ?thesis
    by (auto simp: worker_inv_def on_exit_def settle_def pending_list_def answers_itself_def split: option.splits)
next
  case (step_deadline source)
  with assms(1) show ?thesis
    by (auto simp: worker_inv_def expire_def settle_def pending_list_def answers_itself_def split: option.splits)
qed

lemma worker_inv_reachable: "worker_reachable w \<Longrightarrow> worker_inv w"
proof (induction rule: worker_reachable.induct)
  case reach_new
  then show ?case by (simp add: worker_inv_def new_worker_def pending_list_def)
next
  case (reach_step w e w')
  then show ?case by (blast intro: worker_inv_step)
qed

section \<open>Properties\<close>




text \<open>
  C16. The exit status of the report tells what was found: with status 0 or 1 every file was scanned to its end
  and every finding of every file was printed, at most the maximum; status 0 means no finding at all and nothing
  printed, and status 1 at least one; no run prints more than the maximum and one closing line.
\<close>

theorem reportFindings_status:
  assumes "reportFindings locale_le scan files = (lines, Inr status)" and "length files \<le> MAX_SCAN_FILES"
  shows "status \<le> 2 \<and> length lines \<le> MAX_FINDINGS + 1 \<and>
    (status < 2 \<longrightarrow> length lines \<le> MAX_FINDINGS \<and>
       (\<exists>found. list_all2 (\<lambda>f fs. \<exists>n. 0 < n \<and> length fs < n \<and> scan f n = Inr fs) files found \<and>
          lines = concat (map (\<lambda>fs. map diagnostic (sort_by (finding_le locale_le) fs)) found) \<and>
          (status = 0 \<longleftrightarrow> lines = [])))"
  using report_status [of locale_le scan files 0 lines status] assms by (simp add: reportFindings_def)

text \<open>
  C17. The scan worker attributes every result to the file it belongs to: in every reachable state the requests
  accepted are exactly the requests settled, in order, and the one pending; a request is resolved only by the
  reply to itself, however replies, errors, exits and deadlines interleave; a retired worker has no pending
  request and accepts none; and a pending request can always be settled by its deadline.
\<close>

theorem worker_attributes:
  assumes "worker_reachable w"
  shows "map fst (sw_settled w) @ pending_list w = sw_accepted w \<and>
    (\<forall>source request findings. (source, Resolved request findings) \<in> set (sw_settled w) \<longrightarrow> request = source) \<and>
    (sw_retired w \<longrightarrow> sw_pending w = None \<and> (\<forall>source w'. \<not> worker_step w (Scan source) w')) \<and>
    (\<forall>source. sw_pending w = Some source \<longrightarrow>
       (\<exists>w'. worker_step w Deadline w' \<and> sw_pending w' = None \<and>
          sw_settled w' = sw_settled w @ [(source, Rejected DeadlineExceeded)]))"
proof (intro conjI allI impI)
  note inv = worker_inv_reachable [OF assms, unfolded worker_inv_def]
  show "map fst (sw_settled w) @ pending_list w = sw_accepted w" using inv by blast
  show "request = source" if "(source, Resolved request findings) \<in> set (sw_settled w)" for source request findings
    using inv that by (auto simp: list_all_iff answers_itself_def)
  show "sw_pending w = None" if "sw_retired w" using inv that by blast
  show "\<not> worker_step w (Scan source) w'" if "sw_retired w" for source w'
    using that by (auto simp: worker_scan_def elim: scan_stepE)
  show "\<exists>w'. worker_step w Deadline w' \<and> sw_pending w' = None \<and>
      sw_settled w' = sw_settled w @ [(source, Rejected DeadlineExceeded)]" if "sw_pending w = Some source" for source
    using that step_deadline [OF that] by (intro exI [of _ "expire w"]) (simp add: expire_def settle_def)
qed












definition sample_finding :: link_finding where
  "sample_finding = \<lparr>fd_source = js ''b'', fd_line = 2, fd_original = js ''x'',
     fd_resolution = \<lparr>rs_root = js ''.workingdir'', rs_resolved = js ''.workingdir/x''\<rparr>\<rparr>"

lemma sample_report:
  "reportFindings (\<lambda>_ _. True) (\<lambda>f n. Inr (if f = js ''b'' then [sample_finding] else []) :: (unit, link_finding list) res) [js ''a'', js ''b''] =
     ([diagnostic sample_finding], Inr 1)"
  by (simp add: reportFindings_def MAX_SCAN_FILES_def MAX_FINDINGS_def capFindings_def numeral_eq_Suc)

lemma reportFindings_status_witness:
  "\<exists>found. list_all2 (\<lambda>f fs. \<exists>n. 0 < n \<and> length fs < n \<and>
       Inr (if f = js ''b'' then [sample_finding] else []) = (Inr fs :: (unit, link_finding list) res)) [js ''a'', js ''b''] found \<and>
     [diagnostic sample_finding] = concat (map (\<lambda>fs. map diagnostic (sort_by (finding_le (\<lambda>_ _. True)) fs)) found)"
  using reportFindings_status [OF sample_report] by (simp only: MAX_SCAN_FILES_def) auto

lemma worker_attributes_witness:
  "\<exists>w. worker_reachable w \<and> sw_pending w = Some (js ''a'') \<and> sw_accepted w = [js ''a''] \<and>
     (\<exists>w'. worker_step w Deadline w' \<and> sw_pending w' = None)"
proof -
  obtain w where scan: "worker_scan (js ''a'') new_worker = Inr w" by (auto simp: worker_scan_def new_worker_def)
  then have pending: "sw_pending w = Some (js ''a'')" and acc: "sw_accepted w = [js ''a'']"
    by (auto simp: worker_scan_def new_worker_def)
  have "worker_reachable w" by (rule reach_step [OF reach_new step_scan [OF scan]])
  with worker_attributes [OF this] pending acc show ?thesis by blast
qed

end
