(* ===== verification/FigureCore.thy ===== *)
theory FigureCore
  imports JSPrelude
begin

text \<open>
  The render core of the figure engine (\<^verbatim>\<open>src/tools/figures/core.mjs\<close>): validation of a figure
  specification, the derived text description, the escaping and the markup. A specification is a JavaScript
  value (\<open>jsv\<close>): a number is its printed form, an object its own enumerable properties in order. The
  vendored renderer (\<open>toSvg\<close>) and the digest are parameters.
\<close>

datatype jsv =
    JUndef
  | JNull
  | JBool bool
  | JNum jsstr
  | JStr jsstr
  | JArr "jsv list"
  | JObj "(jsstr \<times> jsv) list"

fun isStr :: "jsv \<Rightarrow> bool" where
  "isStr (JStr _) = True"
| "isStr _ = False"

fun isObj :: "jsv \<Rightarrow> bool" where
  "isObj (JObj _) = True"
| "isObj _ = False"

fun is_array :: "jsv \<Rightarrow> bool" where
  "is_array (JArr _) = True"
| "is_array _ = False"

definition optStr :: "jsv \<Rightarrow> bool" where
  "optStr v \<longleftrightarrow> v = JUndef \<or> isStr v"

definition nullish :: "jsv \<Rightarrow> bool" where
  "nullish v \<longleftrightarrow> v = JUndef \<or> v = JNull"

fun truthy :: "jsv \<Rightarrow> bool" where
  "truthy JUndef = False"
| "truthy JNull = False"
| "truthy (JBool b) = b"
| "truthy (JNum s) = (s \<noteq> js ''0'' \<and> s \<noteq> js ''NaN'')"
| "truthy (JStr s) = (s \<noteq> [])"
| "truthy _ = True"

fun has_key :: "jsv \<Rightarrow> jsstr \<Rightarrow> bool" where
  "has_key (JObj es) k = (k \<in> fst ` set es)"
| "has_key _ k = False"

fun field :: "jsv \<Rightarrow> jsstr \<Rightarrow> jsv" where
  "field (JObj es) k = (case map_of es k of None \<Rightarrow> JUndef | Some v \<Rightarrow> v)"
| "field _ k = JUndef"

fun elems :: "jsv \<Rightarrow> jsv list" where
  "elems (JArr xs) = xs"
| "elems _ = []"

text \<open>\<open>for (const x of v ?? [])\<close>: an array, the code points of a string, or a \<open>TypeError\<close> (\<open>None\<close>).\<close>

fun iterate :: "jsv \<Rightarrow> jsv list option" where
  "iterate JUndef = Some []"
| "iterate JNull = Some []"
| "iterate (JArr xs) = Some xs"
| "iterate (JStr s) = Some (map (\<lambda>p. JStr (from_code_point p)) (code_points s))"
| "iterate _ = None"

text \<open>\<open>Object.entries(v ?? {})\<close>.\<close>

fun entries :: "jsv \<Rightarrow> (jsstr \<times> jsv) list" where
  "entries (JObj es) = es"
| "entries (JArr xs) = map (\<lambda>(i, x). (nat_digits i, x)) (enumerate 0 xs)"
| "entries (JStr s) = map (\<lambda>(i, c). (nat_digits i, JStr [c])) (enumerate 0 s)"
| "entries _ = []"

fun str_of :: "jsv \<Rightarrow> jsstr" where
  "str_of (JStr s) = s"
| "str_of _ = []"

text \<open>\<open>String(v)\<close>, as a template literal writes it.\<close>

fun to_text :: "jsv \<Rightarrow> jsstr" where
  "to_text JUndef = js ''undefined''"
| "to_text JNull = js ''null''"
| "to_text (JBool b) = (if b then js ''true'' else js ''false'')"
| "to_text (JNum s) = s"
| "to_text (JStr s) = s"
| "to_text (JArr xs) = js_join (js '','') (map (\<lambda>x. if nullish x then [] else to_text x) xs)"
| "to_text (JObj _) = js ''[object Object]''"

section \<open>Limits\<close>

record limits =
  lm_alt :: nat
  lm_boxes :: nat
  lm_groups :: nat
  lm_steps :: nat
  lm_edges :: nat
  lm_beats :: nat
  lm_hops :: nat
  lm_rows :: nat
  lm_text :: nat
  lm_specs :: nat
  lm_depth :: nat

definition LIMITS :: limits where
  "LIMITS = \<lparr>lm_alt = 125, lm_boxes = 40, lm_groups = 40, lm_steps = 12, lm_edges = 80, lm_beats = 32, lm_hops = 8,
     lm_rows = 16, lm_text = 2500, lm_specs = 256, lm_depth = 8\<rparr>"

definition TONES :: "jsstr list" where
  "TONES = [js ''blue'', js ''purple'', js ''green'', js ''orange'', js ''gray'']"

definition SHAPES :: "jsstr list" where
  "SHAPES = [js ''box'', js ''decision'', js ''store'']"

definition SPEC_OPEN :: jsstr where "SPEC_OPEN = js ''<metadata id='' @ [34] @ js ''figure-spec'' @ [34] @ js ''><![CDATA[''"
definition SPEC_CLOSE :: jsstr where "SPEC_CLOSE = js '']]></metadata>''"

definition word_unit :: "nat \<Rightarrow> bool" where
  "word_unit c \<longleftrightarrow> 48 \<le> c \<and> c \<le> 57 \<or> 65 \<le> c \<and> c \<le> 90 \<or> 97 \<le> c \<and> c \<le> 122 \<or> c = 95"

text \<open>\<open>EVIDENCE\<close>: a path without white space or colon, a colon, and a symbol.\<close>

definition EVIDENCE :: "jsstr \<Rightarrow> bool" where
  "EVIDENCE e =
     (case find_unit 58 e of
        None \<Rightarrow> False
      | Some k \<Rightarrow>
          k > 0 \<and> (\<forall>c \<in> set (take k e). \<not> js_space c) \<and>
          (case drop (k + 1) e of
             [] \<Rightarrow> False
           | c # cs \<Rightarrow> word_unit c \<and> \<not> (48 \<le> c \<and> c \<le> 57) \<and> (\<forall>d \<in> set cs. word_unit d \<or> d = 46)))"

section \<open>The layout walk\<close>

datatype spec_error =
    NotAFigure
  | BadTitle
  | BadAlt
  | AltTooLong nat
  | NoEvidence
  | BadEvidence
  | BadDescribe
  | NoLayout
  | TooManyItems nat
  | EntryNotObject
  | NestsTooDeep nat
  | NeedsId bool
  | DuplicateId jsstr
  | TooManyBoxes nat
  | TooManyGroups nat
  | BadBoxLabel jsv
  | BadBoxSub jsv
  | BadBoxShape jsv
  | BadGroupLabel jsv
  | EdgesNotList
  | TooManyEdges nat
  | EdgeNotObject
  | DuplicateEdge jsv
  | EdgeFrom jsv
  | EdgeTo jsv
  | BadEdgeLabel jsv
  | BadContent
  | TooManyRows nat
  | BadRow
  | BadTone jsv
  | TooManyHops nat
  | HopNoEdge jsv
  | BadHopData
  | BadSay
  | ShowNotBox jsstr
  | LightNotBox jsv
  | StepsNotList
  | TooManySteps nat
  | BadStepLabel nat
  | BadCaption nat
  | BadFlow nat
  | NodeNotBox jsv
  | NotIterable

text \<open>
  The walk keeps boxes and groups in the order it meets them; a group is named by its position, so
  the ancestors of an entry are positions.
\<close>

record box = bx_node :: jsv bx_ancestors :: "nat list"
record group_entry = gr_group :: jsv gr_ancestors :: "nat list"
record walked = wk_boxes :: "box list" wk_groups :: "group_entry list" wk_errors :: "spec_error list"

fun walk_loop ::
  "nat \<Rightarrow> (jsv \<times> nat list \<times> nat) list \<Rightarrow> box list \<Rightarrow> group_entry list \<Rightarrow> spec_error list \<Rightarrow> walked" where
  "walk_loop left [] boxes groups errors = \<lparr>wk_boxes = boxes, wk_groups = groups, wk_errors = errors\<rparr>"
| "walk_loop 0 (x # stack) boxes groups errors =
     \<lparr>wk_boxes = boxes, wk_groups = groups, wk_errors = errors @ [TooManyItems (lm_boxes LIMITS + lm_groups LIMITS)]\<rparr>"
| "walk_loop (Suc left) ((item, ancestors, depth) # stack) boxes groups errors =
     (if \<not> isObj item then walk_loop left stack boxes groups (errors @ [EntryNotObject])
      else if \<not> is_array (field item (js ''children'')) then
        walk_loop left stack (boxes @ [\<lparr>bx_node = item, bx_ancestors = ancestors\<rparr>]) groups errors
      else if depth \<ge> lm_depth LIMITS then walk_loop left stack boxes groups (errors @ [NestsTooDeep (lm_depth LIMITS)])
      else
        walk_loop left
          (map (\<lambda>c. (c, ancestors @ [length groups], depth + 1)) (elems (field item (js ''children''))) @ stack)
          boxes (groups @ [\<lparr>gr_group = item, gr_ancestors = ancestors\<rparr>]) errors)"

definition walkLayout :: "jsv \<Rightarrow> walked" where
  "walkLayout layout = walk_loop (lm_boxes LIMITS + lm_groups LIMITS + 1) [(layout, [], 0)] [] [] []"

text \<open>The ids of the boxes inside a group, which the source collects in \<open>boxIds\<close>.\<close>

definition group_boxIds :: "walked \<Rightarrow> nat \<Rightarrow> jsv list" where
  "group_boxIds wk g = map (\<lambda>b. field (bx_node b) (js ''id'')) (filter (\<lambda>b. g \<in> set (bx_ancestors b)) (wk_boxes wk))"

section \<open>Validation\<close>

text \<open>
  Two values are compared as the ids of a \<open>Set\<close>: equal strings are equal. (Two objects with equal
  contents would be different keys in JavaScript; an id that is not a string is an error either
  way.) Where the source throws because a value is not iterable, the list holds \<open>NotIterable\<close>.
\<close>

definition validateTop :: "jsv \<Rightarrow> spec_error list" where
  "validateTop figure =
     (let title = field figure (js ''title''); alt = field figure (js ''alt''); evidence = field figure (js ''evidence'');
          desc = field figure (js ''describe''); props = field figure (js ''props'') in
      (if \<not> isStr title \<or> js_trim (str_of title) = [] then [BadTitle] else []) @
      (if \<not> isStr alt \<or> js_trim (str_of alt) = [] then [BadAlt]
       else if length (str_of alt) > lm_alt LIMITS then [AltTooLong (length (str_of alt))] else []) @
      (if \<not> is_array evidence \<or> elems evidence = [] then [NoEvidence]
       else if \<not> (\<forall>e \<in> set (elems evidence). isStr e \<and> EVIDENCE (str_of e)) then [BadEvidence] else []) @
      (if desc \<noteq> JUndef \<and> \<not> (is_array desc \<and> (\<forall>d \<in> set (elems desc). isStr d)) then [BadDescribe] else []) @
      (if \<not> isObj props \<or> \<not> isObj (field props (js ''layout'')) then [NoLayout] else []))"

text \<open>The claim of an id: \<open>ids\<close> lists the ids claimed so far.\<close>

definition claim :: "jsv \<Rightarrow> bool \<Rightarrow> spec_error list \<times> jsstr list \<Rightarrow> spec_error list \<times> jsstr list" where
  "claim i isBox st =
     (let (errors, ids) = st in
      case i of
        JStr s \<Rightarrow>
          if s = [] then (errors @ [NeedsId isBox], ids)
          else if s \<in> set ids then (errors @ [DuplicateId s], ids)
          else (errors, ids @ [s])
      | _ \<Rightarrow> (errors @ [NeedsId isBox], ids))"

definition box_step :: "box \<Rightarrow> spec_error list \<times> jsstr list \<Rightarrow> spec_error list \<times> jsstr list" where
  "box_step b st =
     (let node = bx_node b; i = field node (js ''id''); shape = field node (js ''shape'');
          (errors, ids) = claim i True st in
      (errors @
       (if \<not> isStr (field node (js ''label'')) then [BadBoxLabel i] else []) @
       (if \<not> optStr (field node (js ''sub'')) then [BadBoxSub i] else []) @
       (if shape \<noteq> JUndef \<and> \<not> (isStr shape \<and> str_of shape \<in> set SHAPES) then [BadBoxShape i] else []), ids))"

definition group_step :: "group_entry \<Rightarrow> spec_error list \<times> jsstr list \<Rightarrow> spec_error list \<times> jsstr list" where
  "group_step g st =
     (let i = field (gr_group g) (js ''id'');
          (errors, ids) = (if i \<noteq> JUndef then claim i False st else st) in
      (errors @ (if \<not> optStr (field (gr_group g) (js ''label'')) then [BadGroupLabel i] else []), ids))"

definition validateLayout :: "walked \<Rightarrow> spec_error list \<times> jsstr list" where
  "validateLayout wk =
     (let errors = wk_errors wk @
            (if length (wk_boxes wk) > lm_boxes LIMITS then [TooManyBoxes (length (wk_boxes wk))] else []) @
            (if length (wk_groups wk) > lm_groups LIMITS then [TooManyGroups (length (wk_groups wk))] else []) in
      fold group_step (wk_groups wk) (fold box_step (wk_boxes wk) (errors, [])))"

definition edgeIdOf :: "jsv \<Rightarrow> jsv" where
  "edgeIdOf e =
     (let i = field e (js ''id'') in
      if nullish i then JStr (to_text (field e (js ''from'')) @ js ''->'' @ to_text (field e (js ''to''))) else i)"

definition in_ids :: "jsstr list \<Rightarrow> jsv \<Rightarrow> bool" where
  "in_ids ids v \<longleftrightarrow> isStr v \<and> str_of v \<in> set ids"

definition edge_step :: "jsstr list \<Rightarrow> jsv \<Rightarrow> spec_error list \<times> jsv list \<Rightarrow> spec_error list \<times> jsv list" where
  "edge_step ids edge st =
     (let (errors, edgeIds) = st in
      if \<not> isObj edge then (errors @ [EdgeNotObject], edgeIds)
      else
        (let i = edgeIdOf edge in
         (errors @
          (if i \<in> set edgeIds then [DuplicateEdge i] else []) @
          (if \<not> in_ids ids (field edge (js ''from'')) then [EdgeFrom i] else []) @
          (if \<not> in_ids ids (field edge (js ''to'')) then [EdgeTo i] else []) @
          (if \<not> optStr (field edge (js ''label'')) then [BadEdgeLabel i] else []),
          edgeIds @ [i])))"

definition validateEdges :: "jsv \<Rightarrow> jsstr list \<Rightarrow> spec_error list \<times> jsv list" where
  "validateEdges edges ids =
     (if \<not> is_array edges then ([EdgesNotList], [])
      else
        fold (edge_step ids) (take (lm_edges LIMITS) (elems edges))
          (if length (elems edges) > lm_edges LIMITS then [TooManyEdges (length (elems edges))] else [], []))"

definition row_errors :: "jsv \<Rightarrow> spec_error list" where
  "row_errors row =
     (let tone = field row (js ''tone'') in
      if \<not> (isObj row \<and> isStr (field row (js ''text'')) \<and> optStr (field row (js ''tag'')) \<and>
             optStr (field row (js ''meta'')) \<and> optStr (field row (js ''mark''))) then [BadRow]
      else if tone \<noteq> JUndef \<and> \<not> (isStr tone \<and> str_of tone \<in> set TONES) then [BadTone tone] else [])"

definition validateContent :: "jsv \<Rightarrow> spec_error list" where
  "validateContent content =
     (if isStr content then []
      else if \<not> is_array content then [BadContent]
      else if length (elems content) > lm_rows LIMITS then [TooManyRows (length (elems content))]
      else concat (map row_errors (elems content)))"

definition hopsOf :: "jsv \<Rightarrow> jsv list" where
  "hopsOf beat =
     (let isBeat = isObj beat \<and> \<not> has_key beat (js ''edge'');
          edges = (if isBeat then field beat (js ''edges'') else beat);
          xs = (if nullish edges then [] else if is_array edges then elems edges else [edges]) in
      map (\<lambda>h. if isStr h then JObj [(js ''edge'', h)] else h) xs)"

definition hop_errors :: "jsv list \<Rightarrow> jsv \<Rightarrow> spec_error list" where
  "hop_errors edgeIds hop =
     (if \<not> isObj hop \<or> field hop (js ''edge'') \<notin> set edgeIds then [HopNoEdge (field hop (js ''edge''))]
      else if \<not> optStr (field hop (js ''data'')) then [BadHopData] else [])"

definition validateBeat :: "jsv \<Rightarrow> jsv list \<Rightarrow> jsv list \<Rightarrow> spec_error list" where
  "validateBeat beat boxIds edgeIds =
     (let hops = hopsOf beat;
          first = (if length hops > lm_hops LIMITS then [TooManyHops (length hops)] else []) @
            concat (map (hop_errors edgeIds) (take (lm_hops LIMITS) hops)) in
      if \<not> isObj beat \<or> has_key beat (js ''edge'') then first
      else
        first @
        (if \<not> optStr (field beat (js ''say'')) then [BadSay] else []) @
        concat (map (\<lambda>(key, content). (if JStr key \<notin> set boxIds then [ShowNotBox key] else []) @ validateContent content)
          (entries (field beat (js ''show'')))) @
        (case iterate (field beat (js ''light'')) of
           None \<Rightarrow> [NotIterable]
         | Some xs \<Rightarrow> concat (map (\<lambda>i. if i \<notin> set boxIds then [LightNotBox i] else []) xs)))"

definition step_errors :: "jsv list \<Rightarrow> jsv list \<Rightarrow> nat \<times> jsv \<Rightarrow> spec_error list" where
  "step_errors boxIds edgeIds ist =
     (let (si, step) = ist; flow = field step (js ''flow'') in
      if \<not> isObj step \<or> \<not> isStr (field step (js ''label'')) then [BadStepLabel si]
      else
        (if \<not> optStr (field step (js ''caption'')) then [BadCaption si] else []) @
        (if \<not> is_array flow \<or> length (elems flow) > lm_beats LIMITS then [BadFlow si]
         else
           concat (map (\<lambda>beat. validateBeat beat boxIds edgeIds) (elems flow)) @
           (case iterate (field step (js ''nodes'')) of
              None \<Rightarrow> [NotIterable]
            | Some xs \<Rightarrow> concat (map (\<lambda>i. if i \<notin> set boxIds then [NodeNotBox i] else []) xs))))"

definition validateSteps :: "jsv \<Rightarrow> jsv list \<Rightarrow> jsv list \<Rightarrow> spec_error list" where
  "validateSteps steps boxIds edgeIds =
     (if steps = JUndef then []
      else if \<not> is_array steps then [StepsNotList]
      else
        (if length (elems steps) > lm_steps LIMITS then [TooManySteps (length (elems steps))] else []) @
        concat (map (step_errors boxIds edgeIds) (enumerate 1 (take (lm_steps LIMITS) (elems steps)))))"

definition box_ids :: "walked \<Rightarrow> jsv list" where
  "box_ids wk = map (\<lambda>b. field (bx_node b) (js ''id'')) (wk_boxes wk)"

definition validate :: "jsv \<Rightarrow> spec_error list" where
  "validate figure =
     (if \<not> isObj figure then [NotAFigure]
      else if validateTop figure \<noteq> [] then validateTop figure
      else
        (let props = field figure (js ''props''); wk = walkLayout (field props (js ''layout''));
             (layoutErrors, ids) = validateLayout wk;
             (edgeErrors, edgeIds) = validateEdges (field props (js ''edges'')) ids in
         layoutErrors @ edgeErrors @ validateSteps (field props (js ''steps'')) (box_ids wk) edgeIds))"

section \<open>The text description\<close>

text \<open>\<open>names.get(id) ?? id\<close>: a later entry replaces an earlier one.\<close>

definition labeller :: "walked \<Rightarrow> jsv \<Rightarrow> jsv" where
  "labeller wk i =
     (let label_of = (\<lambda>g. field g (js ''label''));
          groups = map (\<lambda>g. (field (gr_group g) (js ''id''),
              if nullish (label_of (gr_group g)) then field (gr_group g) (js ''id'') else label_of (gr_group g)))
            (filter (\<lambda>g. truthy (field (gr_group g) (js ''id''))) (wk_groups wk));
          boxes = map (\<lambda>b. (field (bx_node b) (js ''id''), label_of (bx_node b))) (wk_boxes wk) in
      case map_of (rev (groups @ boxes)) i of
        None \<Rightarrow> i
      | Some name \<Rightarrow> if nullish name then i else name)"

definition box_text :: "box \<Rightarrow> jsstr" where
  "box_text b =
     (let node = bx_node b; label = to_text (field node (js ''label'')); sub = field node (js ''sub'') in
      if truthy sub then label @ js '' ('' @ to_text sub @ js '')'' else label)"

text \<open>The innermost labelled group of a box, by position.\<close>

definition home_of :: "walked \<Rightarrow> box \<Rightarrow> nat option" where
  "home_of wk b = find (\<lambda>g. \<not> nullish (field (gr_group (wk_groups wk ! g)) (js ''label''))) (rev (bx_ancestors b))"

definition describeLayout :: "walked \<Rightarrow> jsstr list" where
  "describeLayout wk =
     (let loose = map box_text (filter (\<lambda>b. home_of wk b = None) (wk_boxes wk));
          members = (\<lambda>g. map box_text (filter (\<lambda>b. home_of wk b = Some g) (wk_boxes wk))) in
      concat (map (\<lambda>(g, ge). if members g \<noteq> [] then
          [to_text (field (gr_group ge) (js ''label'')) @ js '': '' @ js_join (js '', '') (members g) @ js ''.''] else [])
        (enumerate 0 (wk_groups wk))) @
      (if loose \<noteq> [] then [js ''Boxes: '' @ js_join (js '', '') loose @ js ''.''] else []))"

definition said :: "jsv \<Rightarrow> jsstr list" where
  "said step =
     map (\<lambda>b. str_of (field b (js ''say'')))
       (filter (\<lambda>b. isObj b \<and> \<not> has_key b (js ''edge'') \<and> isStr (field b (js ''say''))) (elems (field step (js ''flow''))))"

definition describeSteps :: "jsv list \<Rightarrow> jsstr list" where
  "describeSteps steps =
     map (\<lambda>(i, step).
       let caption = field step (js ''caption'');
           head = js ''Scenario '' @ nat_digits i @ js '', '' @ to_text (field step (js ''label'')) @
             (if truthy caption then js '': '' @ to_text caption else js ''.'')
       in js_join (js '' '') (head # said step)) (enumerate 1 steps)"

definition shortened_note :: "jsstr \<Rightarrow> jsstr" where
  "shortened_note slug =
     js ''(Shortened to 2500 characters; docs/figures/'' @ slug @ js ''.ts holds the full content.)''"

fun cap_loop :: "nat \<Rightarrow> jsstr list \<Rightarrow> jsstr list" where
  "cap_loop used [] = []"
| "cap_loop used (line # lines) =
     (if used + length line + 1 > lm_text LIMITS then [] else line # cap_loop (used + length line + 1) lines)"

definition capLines :: "jsstr list \<Rightarrow> jsstr \<Rightarrow> jsstr list" where
  "capLines lines slug =
     (let note = shortened_note slug in
      if length (js_join [10] lines) \<le> lm_text LIMITS then lines
      else cap_loop (length note) lines @ [note])"

text \<open>\<open>describeEdges\<close>: the loop keeps the finished lines, the open chain and where it ends.\<close>

definition arrow_of :: "(jsv \<Rightarrow> jsv) \<Rightarrow> jsv \<Rightarrow> jsstr" where
  "arrow_of name edge =
     (let label = field edge (js ''label'') in
      [32, 0x2192, 32] @ to_text (name (field edge (js ''to''))) @
      (if truthy label then js '' ('' @ to_text label @ js '')'' else []))"

definition chain_step :: "(jsv \<Rightarrow> jsv) \<Rightarrow> jsv \<Rightarrow> jsstr list \<times> jsstr \<times> jsv \<Rightarrow> jsstr list \<times> jsstr \<times> jsv" where
  "chain_step name edge st =
     (let (lines, chain, stop) = st; arrow = arrow_of name edge; source = field edge (js ''from'') in
      if chain \<noteq> [] \<and> source = stop then (lines, chain @ arrow, field edge (js ''to''))
      else
        (if chain \<noteq> [] then lines @ [chain @ js ''.''] else lines, to_text (name source) @ arrow, field edge (js ''to'')))"

definition describeEdges :: "jsv list \<Rightarrow> (jsv \<Rightarrow> jsv) \<Rightarrow> jsstr list" where
  "describeEdges edges name =
     (let (lines, chain, _) = fold (chain_step name) edges ([], [], JNull) in
      if chain \<noteq> [] then lines @ [chain @ js ''.''] else lines)"

definition describe :: "jsv \<Rightarrow> jsstr \<Rightarrow> jsstr list" where
  "describe figure slug =
     (let props = field figure (js ''props''); wk = walkLayout (field props (js ''layout''));
          edges = describeEdges (elems (field props (js ''edges''))) (labeller wk) in
      capLines (describeLayout wk @ edges @ describeSteps (elems (field props (js ''steps''))) @
        map to_text (elems (field figure (js ''describe'')))) slug)"

record figure_edge = fe_from :: jsv fe_to :: jsv fe_label :: "jsv option"

definition normalizedEdges :: "jsv \<Rightarrow> figure_edge list" where
  "normalizedEdges figure =
     (let props = field figure (js ''props''); wk = walkLayout (field props (js ''layout''));
          labels = map_of (rev (map (\<lambda>b. (field (bx_node b) (js ''id''), field (bx_node b) (js ''label''))) (wk_boxes wk)));
          insides = map_of (rev (map (\<lambda>(g, ge). (field (gr_group ge) (js ''id''), group_boxIds wk g))
            (filter (\<lambda>(g, ge). truthy (field (gr_group ge) (js ''id''))) (enumerate 0 (wk_groups wk)))));
          name = (\<lambda>box. case labels box of None \<Rightarrow> box | Some l \<Rightarrow> if nullish l then box else l);
          expand = (\<lambda>i. map name (case insides i of None \<Rightarrow> [i] | Some bs \<Rightarrow> bs)) in
      concat (map (\<lambda>edge. concat (map (\<lambda>a. map (\<lambda>b.
          \<lparr>fe_from = a, fe_to = b,
           fe_label = (if truthy (field edge (js ''label'')) then Some (field edge (js ''label'')) else None)\<rparr>)
        (expand (field edge (js ''to'')))) (expand (field edge (js ''from'')))))
        (elems (field props (js ''edges'')))))"

section \<open>Markup\<close>

definition entity :: "nat \<Rightarrow> jsstr" where
  "entity c =
     (if c = 38 then js ''&amp;'' else if c = 60 then js ''&lt;'' else if c = 62 then js ''&gt;''
      else if c = 34 then js ''&quot;'' else if c = 39 then js ''&#x27;'' else [c])"

fun escape_braces :: "jsstr \<Rightarrow> jsstr" where
  "escape_braces [] = []"
| "escape_braces (c # s) =
     (if c = 123 \<and> (case s of [] \<Rightarrow> False | d # _ \<Rightarrow> d = 123) then js ''&#123;'' else [c]) @ escape_braces s"

definition escapeHtml :: "jsstr \<Rightarrow> jsstr" where
  "escapeHtml s = escape_braces (concat (map entity s))"

text \<open>\<open>JSON.stringify(v)\<close>; \<open>None\<close> is \<open>undefined\<close>.\<close>

fun json_stringify :: "jsv \<Rightarrow> jsstr option" where
  "json_stringify JUndef = None"
| "json_stringify JNull = Some (js ''null'')"
| "json_stringify (JBool b) = Some (if b then js ''true'' else js ''false'')"
| "json_stringify (JNum s) = Some (if s \<in> {js ''NaN'', js ''Infinity'', js ''-Infinity''} then js ''null'' else s)"
| "json_stringify (JStr s) = Some (json_string s)"
| "json_stringify (JArr xs) =
     Some (js ''['' @ js_join (js '','') (map (\<lambda>x. case json_stringify x of None \<Rightarrow> js ''null'' | Some t \<Rightarrow> t) xs) @ js '']'')"
| "json_stringify (JObj es) =
     Some (js ''{'' @ js_join (js '','')
       (concat (map (\<lambda>(k, v). case json_stringify v of None \<Rightarrow> [] | Some t \<Rightarrow> [json_string k @ js '':'' @ t]) es)) @ js ''}'')"

text \<open>\<open>JSON.stringify(v, null, 2)\<close> at an indentation.\<close>

fun json_pretty :: "jsstr \<Rightarrow> jsv \<Rightarrow> jsstr option" where
  "json_pretty ind JUndef = None"
| "json_pretty ind (JArr xs) =
     (let inner = ind @ js ''  ''; ts = map (\<lambda>x. case json_pretty inner x of None \<Rightarrow> js ''null'' | Some t \<Rightarrow> t) xs in
      Some (if ts = [] then js ''[]''
        else js ''['' @ 10 # inner @ js_join (44 # 10 # inner) ts @ 10 # ind @ js '']''))"
| "json_pretty ind (JObj es) =
     (let inner = ind @ js ''  '';
          ts = concat (map (\<lambda>(k, v). case json_pretty inner v of None \<Rightarrow> [] | Some t \<Rightarrow> [json_string k @ js '': '' @ t]) es) in
      Some (if ts = [] then js ''{}''
        else js ''{'' @ 10 # inner @ js_join (44 # 10 # inner) ts @ 10 # ind @ js ''}''))"
| "json_pretty ind v = json_stringify v"

text \<open>\<open>s.replaceAll("]]>", "]]\u003e")\<close>.\<close>

fun close_cdata :: "jsstr \<Rightarrow> jsstr" where
  "close_cdata [] = []"
| "close_cdata (c # s) =
     (if js_starts (c # s) (js '']]>'') then js '']]'' @ [92] @ js ''u003e'' @ close_cdata (drop 2 s)
      else c # close_cdata s)"

record vendor = ve_repo :: jsstr ve_commit :: jsstr ve_path :: jsstr

datatype render_error = NoOpeningTag | NoSvgSize

text \<open>The length of the match of \<^verbatim>\<open>/^<svg [^>]*>\n?/\<close>.\<close>

definition svg_open :: "jsstr \<Rightarrow> nat option" where
  "svg_open svg =
     (if js_starts svg (js ''<svg '') then
        (case js_index 62 svg 5 of
           None \<Rightarrow> None
         | Some k \<Rightarrow> Some (if js_at svg (k + 1) = Some 10 then k + 2 else k + 1))
      else None)"

definition embedded_spec :: "jsv \<Rightarrow> jsstr" where
  "embedded_spec figure =
     close_cdata (the (json_stringify (JObj [(js ''props'', field figure (js ''props''))])))"

definition decorated_tag :: "jsstr \<Rightarrow> jsstr" where
  "decorated_tag open_tag =
     js ''<svg role='' @ [34] @ js ''img'' @ [34] @ js '' aria-labelledby='' @ [34] @ js ''figure-title figure-desc'' @ [34] @
     js '' '' @ drop 5 open_tag"

definition decorated_head :: "jsv \<Rightarrow> vendor \<Rightarrow> jsstr" where
  "decorated_head figure v =
     (let credit = js ''interfig (c) 2025 Vectorize AI, Inc. MIT '' @ ve_repo v @ js ''/tree/'' @ ve_commit v @ js ''/'' @ ve_path v in
      js ''<title id='' @ [34] @ js ''figure-title'' @ [34] @ js ''>'' @ escapeHtml (str_of (field figure (js ''title''))) @ js ''</title>'' @ [10] @
      js ''<desc id='' @ [34] @ js ''figure-desc'' @ [34] @ js ''>'' @ escapeHtml (str_of (field figure (js ''alt''))) @ js ''</desc>'' @ [10] @
      js ''<!-- '' @ credit @ js '' -->'' @ [10])"

definition decorate :: "jsstr \<Rightarrow> jsv \<Rightarrow> vendor \<Rightarrow> (render_error, jsstr) res" where
  "decorate svg figure v =
     (case svg_open svg of
        None \<Rightarrow> Inl NoOpeningTag
      | Some n \<Rightarrow>
          Inr ((decorated_tag (take n svg) @ decorated_head figure v) @ SPEC_OPEN @ embedded_spec figure @ SPEC_CLOSE @
               10 # drop n svg))"

definition slot_base :: jsstr where "slot_base = js ''{{base}}''"
definition slot_link :: jsstr where "slot_link = js ''{{link}}''"

record meta =
  me_slug :: jsstr
  me_title :: jsstr
  me_alt :: jsstr
  me_text :: "jsstr list"
  me_width :: jsstr
  me_height :: jsstr
  me_static_width :: jsstr
  me_static_height :: jsstr

definition attr_text :: "string \<Rightarrow> jsstr \<Rightarrow> jsstr" where
  "attr_text name v = js name @ js ''='' @ [34] @ v @ [34]"

text \<open>The template with the two slot values left open; \<open>markup\<close> writes the slots themselves.\<close>

definition markup_with :: "jsstr \<Rightarrow> jsstr \<Rightarrow> meta \<Rightarrow> jsstr" where
  "markup_with base link m =
     (let slug = me_slug m in
      js_join [10]
       [js ''<figure '' @ attr_text ''class'' (js ''praetor-figure'') @ js '' '' @ attr_text ''id'' (js ''fig-'' @ slug) @ js '' '' @
          attr_text ''data-figure'' slug @ js '' '' @ attr_text ''aria-describedby'' (js ''fig-'' @ slug @ js ''-text'') @ js ''>'',
        js ''<picture>'',
        js ''<source '' @ attr_text ''media'' (js ''(prefers-reduced-motion: reduce)'') @ js '' '' @
          attr_text ''srcset'' (base @ js ''/'' @ slug @ js ''.static.svg'') @ js '' '' @
          attr_text ''width'' (me_static_width m) @ js '' '' @ attr_text ''height'' (me_static_height m) @ js ''>'',
        js ''<img '' @ attr_text ''src'' (base @ js ''/'' @ slug @ js ''.svg'') @ js '' '' @ attr_text ''alt'' (escapeHtml (me_alt m)) @ js '' '' @
          attr_text ''width'' (me_width m) @ js '' '' @ attr_text ''height'' (me_height m) @ js '' '' @
          attr_text ''loading'' (js ''lazy'') @ js ''>'',
        js ''</picture>'',
        js ''<figcaption>'' @ escapeHtml (me_title m) @ js ''</figcaption>'',
        js ''</figure>'',
        js ''<p><a '' @ attr_text ''href'' link @ js ''>Open the interactive figure</a></p>'',
        js ''<details '' @ attr_text ''class'' (js ''praetor-figure__text'') @ js '' '' @ attr_text ''id'' (js ''fig-'' @ slug @ js ''-text'') @
          js ''><summary>Text description</summary>'',
        js ''<ul>'' @ [10] @ js_join [10] (map (\<lambda>line. js ''<li>'' @ escapeHtml line @ js ''</li>'') (me_text m)) @ [10] @ js ''</ul>'',
        js ''</details>''])"

definition markup :: "meta \<Rightarrow> jsstr" where
  "markup m = markup_with slot_base slot_link m"

text \<open>
  \<open>svgSize\<close>: the first place in the opening tag where a width and a height stand side by side.
  \<open>Math.ceil(Number(s))\<close> of a run of digits and dots is printed; more than one dot, or no digit, is
  \<open>NaN\<close>. Decimals are read exactly, as \<open>Number\<close> does up to fifteen significant digits.
\<close>

definition decimal_unit :: "nat \<Rightarrow> bool" where
  "decimal_unit c \<longleftrightarrow> 48 \<le> c \<and> c \<le> 57 \<or> c = 46"

definition decimal_ceil :: "jsstr \<Rightarrow> jsstr" where
  "decimal_ceil s =
     (let whole = takeWhile (\<lambda>c. c \<noteq> 46) s; rest = drop (length whole + 1) s;
          n = foldl (\<lambda>n c. n * 10 + (c - 48)) 0 whole in
      if 46 \<in> set rest \<or> whole @ rest = [] then js ''NaN''
      else nat_digits (if \<exists>c \<in> set rest. c \<noteq> 48 then n + 1 else n))"

definition size_at :: "jsstr \<Rightarrow> (jsstr \<times> jsstr) option" where
  "size_at s =
     (if \<not> js_starts s (js ''width='' @ [34]) then None
      else
        (let a = takeWhile decimal_unit (drop 7 s); r = drop (7 + length a) s; b = takeWhile decimal_unit (drop 10 r) in
         if a \<noteq> [] \<and> js_starts r (34 # js '' height='' @ [34]) \<and> b \<noteq> [] \<and> js_at r (10 + length b) = Some 34
         then Some (a, b) else None))"

fun size_search :: "jsstr \<Rightarrow> (jsstr \<times> jsstr) option" where
  "size_search [] = None"
| "size_search (c # s) =
     (case size_at (c # s) of Some r \<Rightarrow> Some r | None \<Rightarrow> if c = 62 then None else size_search s)"

definition svgSize :: "jsstr \<Rightarrow> (render_error, jsstr \<times> jsstr) res" where
  "svgSize svg =
     (if js_starts svg (js ''<svg '') then
        (case size_search (drop 5 svg) of
           None \<Rightarrow> Inl NoSvgSize
         | Some (a, b) \<Rightarrow> Inr (decimal_ceil a, decimal_ceil b))
      else Inl NoSvgSize)"

text \<open>\<open>{ ...props, steps: [] }\<close>.\<close>

definition without_steps :: "jsv \<Rightarrow> jsv" where
  "without_steps props =
     (let es = entries props in
      JObj (if js ''steps'' \<in> fst ` set es
        then map (\<lambda>(k, v). (k, if k = js ''steps'' then JArr [] else v)) es
        else es @ [(js ''steps'', JArr [])]))"

definition edge_json :: "figure_edge \<Rightarrow> jsv" where
  "edge_json e =
     JObj ([(js ''from'', fe_from e), (js ''to'', fe_to e)] @
       (case fe_label e of None \<Rightarrow> [] | Some l \<Rightarrow> [(js ''label'', l)]))"

record render_context = cx_vendor :: vendor cx_engine :: jsstr

definition render ::
  "(jsv \<Rightarrow> jsstr) \<Rightarrow> (jsstr \<Rightarrow> jsstr) \<Rightarrow> jsv \<Rightarrow> jsstr \<Rightarrow> jsstr \<Rightarrow> render_context \<Rightarrow>
   (render_error, (jsstr \<times> jsstr) list) res" where
  "render toSvg sha256 figure slug specBytes cx =
     (let props = field figure (js ''props'') in
      res_bind (decorate (toSvg props) figure (cx_vendor cx)) (\<lambda>svg.
      res_bind (decorate (toSvg (without_steps props)) figure (cx_vendor cx)) (\<lambda>still.
      res_bind (svgSize still) (\<lambda>(sw, sh).
      res_bind (svgSize svg) (\<lambda>(w, h).
        let content = describe figure slug;
            m = \<lparr>me_slug = slug, me_title = str_of (field figure (js ''title'')), me_alt = str_of (field figure (js ''alt'')),
                 me_text = content, me_width = w, me_height = h, me_static_width = sw, me_static_height = sh\<rparr>;
            json = JObj [(js ''slug'', JStr slug), (js ''title'', field figure (js ''title'')),
              (js ''alt'', field figure (js ''alt'')), (js ''text'', JArr (map JStr content)),
              (js ''evidence'', field figure (js ''evidence'')), (js ''spec_sha256'', JStr (sha256 specBytes)),
              (js ''engine'', JObj [(js ''commit'', JStr (ve_commit (cx_vendor cx))), (js ''sha256'', JStr (cx_engine cx))]),
              (js ''svg_sha256'', JStr (sha256 svg)), (js ''static_sha256'', JStr (sha256 still)),
              (js ''width'', JNum w), (js ''height'', JNum h), (js ''static_width'', JNum sw), (js ''static_height'', JNum sh),
              (js ''edges'', JArr (map edge_json (normalizedEdges figure))), (js ''html'', JStr (markup m))] in
        Inr [(slug @ js ''.svg'', svg), (slug @ js ''.static.svg'', still),
             (slug @ js ''.json'', the (json_pretty [] json) @ [10])])))))"

section \<open>Lemmas: escaping\<close>

text \<open>Units that have a meaning in HTML text or in a quoted attribute.\<close>

definition html_special :: "nat \<Rightarrow> bool" where
  "html_special c \<longleftrightarrow> c = 60 \<or> c = 62 \<or> c = 34 \<or> c = 39"

lemma entity_safe: "list_all (\<lambda>c. \<not> html_special c) (entity d)"
  by (simp add: entity_def html_special_def)

lemma entities_safe: "list_all (\<lambda>c. \<not> html_special c) (concat (map entity s))"
  by (induction s) (simp_all add: entity_safe)

lemma escape_braces_safe:
  "list_all (\<lambda>c. \<not> html_special c) s \<Longrightarrow> list_all (\<lambda>c. \<not> html_special c) (escape_braces s)"
proof (induction s)
  case (Cons c s)
  then show ?case by (simp add: html_special_def)
qed simp

lemma hd_escape_braces: "escape_braces s = 123 # r \<Longrightarrow> \<exists>r. s = 123 # r"
proof (cases s)
  case (Cons c t)
  assume h: "escape_braces s = 123 # r"
  show ?thesis
  proof (cases "c = 123")
    case False
    then have "escape_braces s = c # escape_braces t" using Cons by simp
    with h False show ?thesis by simp
  qed (use Cons in simp)
qed simp

lemma escape_braces_no_slot: "\<not> js_includes (escape_braces s) [123, 123]"
proof (induction s)
  case Nil
  then show ?case by (simp add: js_includes_def)
next
  case (Cons c s)
  then have rec: "find_sub [123, 123] (escape_braces s) = None" by (simp add: js_includes_def)
  show ?case
  proof (cases "c = 123 \<and> (case s of [] \<Rightarrow> False | d # _ \<Rightarrow> d = 123)")
    case True
    then have e: "escape_braces (c # s) = js ''&#123;'' @ escape_braces s" by simp
    show ?thesis unfolding js_includes_def e using rec by simp
  next
    case False
    then have e: "escape_braces (c # s) = c # escape_braces s" by simp
    have "\<not> js_starts (c # escape_braces s) [123, 123]"
    proof
      assume h: "js_starts (c # escape_braces s) [123, 123]"
      then obtain r where "escape_braces s = 123 # r" and c: "c = 123" by (cases "escape_braces s") auto
      with hd_escape_braces obtain r' where "s = 123 # r'" by blast
      with c False show False by simp
    qed
    with rec show ?thesis unfolding js_includes_def e by simp
  qed
qed

text \<open>The text of a CDATA section never closes it.\<close>

lemma close_cdata_hd: "close_cdata s = c # r \<Longrightarrow> \<exists>r'. s = c # r'"
  by (cases s) (auto split: if_splits)

lemma close_cdata_starts:
  assumes "js_starts (close_cdata s) (js '']]>'')"
  shows "False"
proof -
  obtain r where r: "close_cdata s = 93 # 93 # 62 # r" using assms by (auto simp: js_starts_iff)
  obtain s1 where s1: "s = 93 # s1" using close_cdata_hd [OF r] by blast
  show False
  proof (cases "js_starts s (js '']]>'')")
    case True
    with r s1 show False by auto
  next
    case False
    with r s1 have r1: "close_cdata s1 = 93 # 62 # r" by (auto split: if_splits)
    obtain s2 where s2: "s1 = 93 # s2" using close_cdata_hd [OF r1] by blast
    with r1 have r2: "close_cdata s2 = 62 # r" by (auto split: if_splits)
    obtain s3 where "s2 = 62 # s3" using close_cdata_hd [OF r2] by blast
    with False s1 s2 show False by simp
  qed
qed

lemma close_cdata_free: "\<not> js_includes (close_cdata s) (js '']]>'')"
proof (induction s rule: close_cdata.induct)
  case 1
  then show ?case by (simp add: js_includes_def)
next
  case (2 c s)
  show ?case
  proof (cases "js_starts (c # s) (js '']]>'')")
    case True
    then have "find_sub (js '']]>'') (close_cdata (drop 2 s)) = None" using 2(1) by (simp add: js_includes_def)
    moreover have "close_cdata (c # s) = js '']]'' @ [92] @ js ''u003e'' @ close_cdata (drop 2 s)" using True by simp
    ultimately show ?thesis unfolding js_includes_def by simp
  next
    case False
    then have "find_sub (js '']]>'') (close_cdata s) = None" using 2(2) by (simp add: js_includes_def)
    moreover have e: "close_cdata (c # s) = c # close_cdata s"
      by (subst close_cdata.simps) (simp only: False if_False)
    moreover have "\<not> js_starts (c # close_cdata s) (js '']]>'')"
      using close_cdata_starts [of "c # s"] unfolding e by blast
    ultimately show ?thesis unfolding js_includes_def by simp
  qed
qed

section \<open>Lemmas: the description\<close>

lemma length_js_join: "xs \<noteq> [] \<Longrightarrow> length (js_join [10] xs) + 1 = sum_list (map (\<lambda>x. length x + 1) xs)"
proof (induction xs)
  case (Cons x xs)
  then show ?case by (cases "xs = []") (auto simp: js_join_Cons)
qed simp

lemma cap_loop_prefix: "prefix (cap_loop used lines) lines"
  by (induction used lines rule: cap_loop.induct) auto

lemma cap_loop_bound:
  "used \<le> lm_text LIMITS \<Longrightarrow> used + sum_list (map (\<lambda>x. length x + 1) (cap_loop used lines)) \<le> lm_text LIMITS"
proof (induction used lines rule: cap_loop.induct)
  case (2 used line lines)
  then show ?case by (cases "used + length line + 1 > lm_text LIMITS") simp_all
qed simp

section \<open>Lemmas: the layout walk\<close>

abbreviation children :: "jsv \<Rightarrow> jsv" where
  "children item \<equiv> field item (js ''children'')"

text \<open>The boxes and groups of a layout, by recursion on the depth that is left.\<close>

fun ref_boxes :: "nat \<Rightarrow> jsv \<Rightarrow> jsv list" where
  "ref_boxes 0 item = (if is_array (children item) then [] else [item])"
| "ref_boxes (Suc d) item =
     (if is_array (children item) then concat (map (ref_boxes d) (elems (children item))) else [item])"

fun ref_groups :: "nat \<Rightarrow> jsv \<Rightarrow> jsv list" where
  "ref_groups 0 item = []"
| "ref_groups (Suc d) item =
     (if is_array (children item) then item # concat (map (ref_groups d) (elems (children item))) else [])"

lemma walk_loop_errors: "prefix errors (wk_errors (walk_loop n stack boxes groups errors))"
proof (induction n stack boxes groups errors rule: walk_loop.induct)
  case (3 left item ancestors depth stack boxes groups errors)
  have ext: "prefix errors t" if "prefix (errors @ xs) t" for xs t
    using that by (meson prefix_def prefix_order.trans)
  show ?case using 3 by (auto intro: ext)
qed auto

lemma walk_loop_complete:
  assumes "wk_errors (walk_loop n stack boxes groups errors) = []" and "\<forall>(i, a, d) \<in> set stack. d \<le> lm_depth LIMITS"
  shows "map bx_node (wk_boxes (walk_loop n stack boxes groups errors)) =
      map bx_node boxes @ concat (map (\<lambda>(i, a, d). ref_boxes (lm_depth LIMITS - d) i) stack)"
    and "map gr_group (wk_groups (walk_loop n stack boxes groups errors)) =
      map gr_group groups @ concat (map (\<lambda>(i, a, d). ref_groups (lm_depth LIMITS - d) i) stack)"
proof -
  have "map bx_node (wk_boxes (walk_loop n stack boxes groups errors)) =
      map bx_node boxes @ concat (map (\<lambda>(i, a, d). ref_boxes (lm_depth LIMITS - d) i) stack) \<and>
    map gr_group (wk_groups (walk_loop n stack boxes groups errors)) =
      map gr_group groups @ concat (map (\<lambda>(i, a, d). ref_groups (lm_depth LIMITS - d) i) stack)"
    using assms
  proof (induction n stack boxes groups errors rule: walk_loop.induct)
    case (3 left item ancestors depth stack boxes groups errors)
    have no: "wk_errors (walk_loop left st b g (errors @ [e])) \<noteq> []" for st b g e
      using walk_loop_errors [of "errors @ [e]" left st b g] by auto
    have obj: "isObj item" using "3.prems"(1) no by (auto split: if_splits)
    show ?case
    proof (cases "is_array (children item)")
      case False
      then have "ref_boxes m item = [item]" "ref_groups m item = []" for m by (cases m; simp)+
      with False obj 3 show ?thesis by simp
    next
      case True
      then have depth: "depth < lm_depth LIMITS" using "3.prems"(1) obj no by (auto split: if_splits)
      then obtain k where k: "lm_depth LIMITS - depth = Suc k" "lm_depth LIMITS - Suc depth = k"
        by (metis Suc_diff_Suc)
      have rest: "\<forall>(i, a, d) \<in> set (map (\<lambda>c. (c, ancestors @ [length groups], depth + 1)) (elems (children item)) @ stack).
          d \<le> lm_depth LIMITS"
        using depth "3.prems"(2) by auto
      show ?thesis
        using "3.IH"(4) [OF _ _ _ _ rest] True obj depth "3.prems"(1) k by (simp add: comp_def)
    qed
  qed auto
  then show "map bx_node (wk_boxes (walk_loop n stack boxes groups errors)) =
      map bx_node boxes @ concat (map (\<lambda>(i, a, d). ref_boxes (lm_depth LIMITS - d) i) stack)"
    and "map gr_group (wk_groups (walk_loop n stack boxes groups errors)) =
      map gr_group groups @ concat (map (\<lambda>(i, a, d). ref_groups (lm_depth LIMITS - d) i) stack)"
    by blast+
qed

section \<open>Lemmas: validation\<close>

abbreviation id_of :: "jsv \<Rightarrow> jsv" where
  "id_of v \<equiv> field v (js ''id'')"

text \<open>The ids a layout declares, boxes first: every box has one, a group may have none.\<close>

definition declared_ids :: "walked \<Rightarrow> jsv list" where
  "declared_ids wk =
     map (id_of \<circ> bx_node) (wk_boxes wk) @ filter (\<lambda>i. i \<noteq> JUndef) (map (id_of \<circ> gr_group) (wk_groups wk))"

text \<open>The claims so far, as values: distinct and not empty.\<close>

definition claims_ok :: "jsstr list \<Rightarrow> bool" where
  "claims_ok ids \<longleftrightarrow> distinct ids \<and> [] \<notin> set ids"

lemma claim_ids: "claims_ok ids \<Longrightarrow> claims_ok (snd (claim i b (errors, ids)))"
  by (auto simp: claim_def claims_ok_def split: jsv.splits)

lemma claim_clean:
  assumes "claim i b (errors, ids) = ([], ids')"
  shows "errors = []" "map JStr ids' = map JStr ids @ [i]"
  using assms by (auto simp: claim_def split: jsv.splits if_splits)

lemma box_step_clean:
  assumes "box_step b (errors, ids) = ([], ids')"
  shows "errors = []" "map JStr ids' = map JStr ids @ [id_of (bx_node b)]" "isStr (field (bx_node b) (js ''label''))"
proof -
  obtain e1 i1 where c: "claim (id_of (bx_node b)) True (errors, ids) = (e1, i1)" by fastforce
  from assms c have e: "e1 = []" "i1 = ids'" and l: "isStr (field (bx_node b) (js ''label''))"
    by (auto simp: box_step_def Let_def split: if_splits)
  from claim_clean [OF c [unfolded e]] l show "errors = []" "map JStr ids' = map JStr ids @ [id_of (bx_node b)]"
    "isStr (field (bx_node b) (js ''label''))" by blast+
qed

lemma box_fold_clean:
  "fold box_step bs (errors, ids) = ([], ids') \<Longrightarrow>
     errors = [] \<and> map JStr ids' = map JStr ids @ map (id_of \<circ> bx_node) bs \<and>
     (\<forall>b \<in> set bs. isStr (field (bx_node b) (js ''label'')))"
proof (induction bs arbitrary: errors ids)
  case (Cons b bs)
  obtain e1 i1 where st: "box_step b (errors, ids) = (e1, i1)" by fastforce
  have rest: "fold box_step bs (e1, i1) = ([], ids')" using Cons.prems st by simp
  note ih = Cons.IH [OF rest]
  then have "box_step b (errors, ids) = ([], i1)" using st by simp
  note clean = box_step_clean [OF this]
  then show ?case using ih by simp
qed auto

lemma group_step_clean:
  assumes "group_step g (errors, ids) = ([], ids')"
  shows "errors = [] \<and> map JStr ids' = map JStr ids @ filter (\<lambda>i. i \<noteq> JUndef) [id_of (gr_group g)]"
proof (cases "id_of (gr_group g) = JUndef")
  case True
  with assms show ?thesis by (auto simp: group_step_def Let_def)
next
  case False
  obtain e1 i1 where c: "claim (id_of (gr_group g)) False (errors, ids) = (e1, i1)" by fastforce
  from assms c False have e: "e1 = []" "i1 = ids'" by (auto simp: group_step_def Let_def)
  from claim_clean [OF c [unfolded e]] False show ?thesis by simp
qed

lemma group_fold_clean:
  "fold group_step gs (errors, ids) = ([], ids') \<Longrightarrow>
     errors = [] \<and> map JStr ids' = map JStr ids @ filter (\<lambda>i. i \<noteq> JUndef) (map (id_of \<circ> gr_group) gs)"
proof (induction gs arbitrary: errors ids)
  case (Cons g gs)
  obtain e1 i1 where st: "group_step g (errors, ids) = (e1, i1)" by fastforce
  have rest: "fold group_step gs (e1, i1) = ([], ids')" using Cons.prems st by simp
  note ih = Cons.IH [OF rest]
  then have "group_step g (errors, ids) = ([], i1)" using st by simp
  from group_step_clean [OF this] ih show ?case by auto
qed auto

lemma steps_claims:
  "claims_ok ids \<Longrightarrow> claims_ok (snd (fold box_step bs (errors, ids)))"
  "claims_ok ids \<Longrightarrow> claims_ok (snd (fold group_step gs (errors, ids)))"
proof -
  have box: "claims_ok i \<Longrightarrow> claims_ok (snd (box_step b (e, i)))" for b e i
    by (simp add: box_step_def Let_def case_prod_unfold claim_ids)
  have grp: "claims_ok i \<Longrightarrow> claims_ok (snd (group_step g (e, i)))" for g e i
    by (simp add: group_step_def Let_def case_prod_unfold claim_ids)
  show "claims_ok ids \<Longrightarrow> claims_ok (snd (fold box_step bs (errors, ids)))"
  proof (induction bs arbitrary: errors ids)
    case (Cons b bs)
    obtain e1 i1 where "box_step b (errors, ids) = (e1, i1)" by fastforce
    with Cons.IH [of i1 e1] box [OF Cons.prems, of b errors] show ?case by simp
  qed simp
  show "claims_ok ids \<Longrightarrow> claims_ok (snd (fold group_step gs (errors, ids)))"
  proof (induction gs arbitrary: errors ids)
    case (Cons g gs)
    obtain e1 i1 where "group_step g (errors, ids) = (e1, i1)" by fastforce
    with Cons.IH [of i1 e1] grp [OF Cons.prems, of g errors] show ?case by simp
  qed simp
qed

definition good_edge :: "jsstr list \<Rightarrow> jsv \<Rightarrow> bool" where
  "good_edge ids e \<longleftrightarrow>
     isObj e \<and> in_ids ids (field e (js ''from'')) \<and> in_ids ids (field e (js ''to'')) \<and> optStr (field e (js ''label''))"

lemma edge_fold_clean:
  "fold (edge_step ids) es (errors, seen) = ([], seen') \<Longrightarrow>
     errors = [] \<and> (\<forall>e \<in> set es. good_edge ids e) \<and> seen' = seen @ map edgeIdOf es \<and>
     (distinct seen \<longrightarrow> distinct seen')"
proof (induction es arbitrary: errors seen)
  case (Cons e es)
  obtain e1 s1 where st: "edge_step ids e (errors, seen) = (e1, s1)" by fastforce
  have "fold (edge_step ids) es (e1, s1) = ([], seen')" using Cons.prems st by simp
  from Cons.IH [OF this]
  have ih: "e1 = []" "\<forall>e \<in> set es. good_edge ids e" "seen' = s1 @ map edgeIdOf es" "distinct s1 \<longrightarrow> distinct seen'"
    by blast+
  from st ih(1) have "errors = []" "good_edge ids e" "s1 = seen @ [edgeIdOf e]" "edgeIdOf e \<notin> set seen"
    by (auto simp: edge_step_def good_edge_def Let_def split: if_splits)
  then have "\<forall>x \<in> set (e # es). good_edge ids x" "seen' = seen @ map edgeIdOf (e # es)" "distinct seen \<longrightarrow> distinct seen'"
    using ih by simp_all
  with \<open>errors = []\<close> show ?case by blast
qed auto

lemma validateLayout_clean:
  assumes "validateLayout wk = ([], ids)"
  shows "wk_errors wk = []" "length (wk_boxes wk) \<le> lm_boxes LIMITS" "length (wk_groups wk) \<le> lm_groups LIMITS"
    "map JStr ids = declared_ids wk" "claims_ok ids" "\<forall>b \<in> set (wk_boxes wk). isStr (field (bx_node b) (js ''label''))"
proof -
  let ?e = "wk_errors wk @
            (if length (wk_boxes wk) > lm_boxes LIMITS then [TooManyBoxes (length (wk_boxes wk))] else []) @
            (if length (wk_groups wk) > lm_groups LIMITS then [TooManyGroups (length (wk_groups wk))] else [])"
  obtain e1 i1 where b: "fold box_step (wk_boxes wk) (?e, []) = (e1, i1)" by fastforce
  have g: "fold group_step (wk_groups wk) (e1, i1) = ([], ids)" using assms b by (simp add: validateLayout_def)
  note gc = group_fold_clean [OF g]
  then have "fold box_step (wk_boxes wk) (?e, []) = ([], i1)" using b by simp
  note bc = box_fold_clean [OF this]
  then have "?e = []" by blast
  then show "wk_errors wk = []" "length (wk_boxes wk) \<le> lm_boxes LIMITS" "length (wk_groups wk) \<le> lm_groups LIMITS"
    by (simp_all split: if_splits)
  show "map JStr ids = declared_ids wk" using gc bc by (simp add: declared_ids_def)
  have "claims_ok i1" using steps_claims(1) [of "[]" "wk_boxes wk" ?e] b by (simp add: claims_ok_def)
  then show "claims_ok ids" using steps_claims(2) [of i1 "wk_groups wk" e1] g by simp
  show "\<forall>b \<in> set (wk_boxes wk). isStr (field (bx_node b) (js ''label''))" using bc by blast
qed

lemma in_ids_declared: "in_ids ids v \<longleftrightarrow> v \<in> set (map JStr ids)"
  by (cases v) (auto simp: in_ids_def)

lemma validateEdges_clean:
  assumes "validateEdges edges ids = ([], edgeIds)"
  shows "is_array edges" "length (elems edges) \<le> lm_edges LIMITS" "\<forall>e \<in> set (elems edges). good_edge ids e"
    "edgeIds = map edgeIdOf (elems edges)" "distinct edgeIds"
proof -
  show arr: "is_array edges" using assms by (auto simp: validateEdges_def split: if_splits)
  let ?e = "if length (elems edges) > lm_edges LIMITS then [TooManyEdges (length (elems edges))] else []"
  have f: "fold (edge_step ids) (take (lm_edges LIMITS) (elems edges)) (?e, []) = ([], edgeIds)"
    using assms arr by (simp add: validateEdges_def)
  note c = edge_fold_clean [OF f]
  from c show n: "length (elems edges) \<le> lm_edges LIMITS" by (auto split: if_splits)
  from c n show "\<forall>e \<in> set (elems edges). good_edge ids e" "edgeIds = map edgeIdOf (elems edges)" "distinct edgeIds"
    by auto
qed

section \<open>Properties\<close>

text \<open>The steps of a figure: each has a label and at most 32 beats, and every hop of a beat names a declared edge.\<close>

definition good_step :: "jsv list \<Rightarrow> jsv \<Rightarrow> bool" where
  "good_step edgeIds step \<longleftrightarrow>
     isStr (field step (js ''label'')) \<and> (\<exists>beats. field step (js ''flow'') = JArr beats \<and> length beats \<le> 32 \<and>
       (\<forall>beat \<in> set beats. length (hopsOf beat) \<le> 8 \<and> (\<forall>hop \<in> set (hopsOf beat). field hop (js ''edge'') \<in> set edgeIds)))"

lemma is_array_iff: "is_array v \<longleftrightarrow> (\<exists>xs. v = JArr xs)"
  by (cases v) auto

lemma validateBeat_clean:
  assumes "validateBeat beat boxIds edgeIds = []"
  shows "length (hopsOf beat) \<le> 8 \<and> (\<forall>hop \<in> set (hopsOf beat). field hop (js ''edge'') \<in> set edgeIds)"
proof -
  have "length (hopsOf beat) \<le> lm_hops LIMITS" "\<forall>hop \<in> set (take (lm_hops LIMITS) (hopsOf beat)). hop_errors edgeIds hop = []"
    using assms by (auto simp: validateBeat_def Let_def split: if_splits)
  then show ?thesis by (auto simp: hop_errors_def LIMITS_def split: if_splits)
qed

lemma step_errors_clean:
  assumes "step_errors boxIds edgeIds (i, step) = []"
  shows "good_step edgeIds step"
proof -
  from assms have label: "isStr (field step (js ''label''))" and arr: "is_array (field step (js ''flow''))"
    and few: "length (elems (field step (js ''flow''))) \<le> lm_beats LIMITS"
    and beats: "\<forall>beat \<in> set (elems (field step (js ''flow''))). validateBeat beat boxIds edgeIds = []"
    by (auto simp: step_errors_def Let_def split: if_splits)
  from arr obtain xs where "field step (js ''flow'') = JArr xs" by (auto simp: is_array_iff)
  with label few beats validateBeat_clean show ?thesis by (auto simp: good_step_def LIMITS_def)
qed

lemma validateSteps_clean:
  assumes "validateSteps steps boxIds edgeIds = []"
  shows "steps = JUndef \<or> (\<exists>xs. steps = JArr xs \<and> length xs \<le> 12 \<and> list_all (good_step edgeIds) xs)"
proof (cases "steps = JUndef")
  case False
  with assms have arr: "is_array steps" and few: "length (elems steps) \<le> lm_steps LIMITS"
    and all: "\<forall>ist \<in> set (enumerate 1 (take (lm_steps LIMITS) (elems steps))). step_errors boxIds edgeIds ist = []"
    by (auto simp: validateSteps_def split: if_splits)
  from arr obtain xs where xs: "steps = JArr xs" by (auto simp: is_array_iff)
  have "good_step edgeIds x" if "x \<in> set xs" for x
  proof -
    from that few xs obtain k where "k < length xs" "x = xs ! k" by (auto simp: in_set_conv_nth)
    then have "(1 + k, x) \<in> set (enumerate 1 (take (lm_steps LIMITS) (elems steps)))"
      using few xs by (auto simp: in_set_enumerate_eq)
    with all show ?thesis by (blast intro: step_errors_clean)
  qed
  with few xs show ?thesis by (auto simp: list_all_iff LIMITS_def)
qed simp

text \<open>
  C22. A specification that validates is well formed: the layout has at most 40 boxes and 40 groups, every box has a
  string label, every box has an id and every id, of a box or of a group, is a non-empty string that nothing else in
  the layout uses, there are at most 80 edges with distinct ids, both ends of every edge are ids of the layout, and
  there are at most 12 steps, each with a label and at most 32 beats of at most 8 hops, every hop along a declared edge.
\<close>

theorem validate_sound:
  assumes "validate figure = []"
  shows "let props = field figure (js ''props''); wk = walkLayout (field props (js ''layout'')); edges = elems (field props (js ''edges''));
             ids = map (id_of \<circ> bx_node) (wk_boxes wk) @ filter (\<lambda>i. i \<noteq> JUndef) (map (id_of \<circ> gr_group) (wk_groups wk));
             steps = field props (js ''steps'') in
    wk_errors wk = [] \<and> length (wk_boxes wk) \<le> 40 \<and> length (wk_groups wk) \<le> 40 \<and>
    distinct ids \<and> list_all (\<lambda>i. \<exists>c s. i = JStr (c # s)) ids \<and>
    list_all (\<lambda>b. isStr (field (bx_node b) (js ''label''))) (wk_boxes wk) \<and>
    length edges \<le> 80 \<and> distinct (map edgeIdOf edges) \<and>
    list_all (\<lambda>e. field e (js ''from'') \<in> set ids \<and> field e (js ''to'') \<in> set ids) edges \<and>
    (steps = JUndef \<or> (\<exists>xs. steps = JArr xs \<and> length xs \<le> 12 \<and> list_all (good_step (map edgeIdOf edges)) xs))"
proof -
  let ?props = "field figure (js ''props'')"
  let ?wk = "walkLayout (field ?props (js ''layout''))"
  obtain le ids where l: "validateLayout ?wk = (le, ids)" by fastforce
  obtain ee eids where e: "validateEdges (field ?props (js ''edges'')) ids = (ee, eids)" by fastforce
  have clean: "le = []" "ee = []" and steps: "validateSteps (field ?props (js ''steps'')) (box_ids ?wk) eids = []"
    using assms l e by (auto simp: validate_def Let_def split: if_splits)
  note L = validateLayout_clean [OF l [unfolded clean]]
  note E = validateEdges_clean [OF e [unfolded clean]]
  have "distinct (declared_ids ?wk)" using L(5) unfolding L(4) [symmetric] claims_ok_def by (simp add: distinct_map inj_on_def)
  moreover have "\<exists>c s. i = JStr (c # s)" if "i \<in> set (declared_ids ?wk)" for i
    using L(5) that unfolding L(4) [symmetric] claims_ok_def by (auto simp: neq_Nil_conv) (metis list.exhaust)
  moreover have "field x (js ''from'') \<in> set (declared_ids ?wk) \<and> field x (js ''to'') \<in> set (declared_ids ?wk)"
    if "x \<in> set (elems (field ?props (js ''edges'')))" for x
    using E(3) that unfolding good_edge_def in_ids_declared L(4) by blast
  moreover have "length (wk_boxes ?wk) \<le> 40" "length (wk_groups ?wk) \<le> 40" "length (elems (field ?props (js ''edges''))) \<le> 80"
    using L(2,3) E(2) by (simp_all add: LIMITS_def)
  ultimately show ?thesis
    unfolding Let_def list_all_iff declared_ids_def using L(1,6) E(4,5) validateSteps_clean [OF steps, unfolded list_all_iff] by blast
qed

definition sample_figure :: jsv where
  "sample_figure = JObj
     [(js ''title'', JStr (js ''Flow'')), (js ''alt'', JStr (js ''A flow'')),
      (js ''evidence'', JArr [JStr (js ''core/app.go:Run'')]),
      (js ''props'', JObj
        [(js ''layout'', JObj [(js ''children'', JArr
           [JObj [(js ''id'', JStr (js ''a'')), (js ''label'', JStr (js ''A''))],
            JObj [(js ''id'', JStr (js ''b'')), (js ''label'', JStr (js ''B''))]])]),
         (js ''edges'', JArr [JObj [(js ''from'', JStr (js ''a'')), (js ''to'', JStr (js ''b''))]])])]"

lemma sample_walk: "walkLayout (field (field sample_figure (js ''props'')) (js ''layout'')) =
    \<lparr>wk_boxes = [\<lparr>bx_node = JObj [(js ''id'', JStr (js ''a'')), (js ''label'', JStr (js ''A''))], bx_ancestors = [0]\<rparr>,
       \<lparr>bx_node = JObj [(js ''id'', JStr (js ''b'')), (js ''label'', JStr (js ''B''))], bx_ancestors = [0]\<rparr>],
     wk_groups = [\<lparr>gr_group = field (field sample_figure (js ''props'')) (js ''layout''), gr_ancestors = []\<rparr>], wk_errors = []\<rparr>"
  by (simp add: walkLayout_def sample_figure_def LIMITS_def numeral_eq_Suc)

lemma sample_valid: "validate sample_figure = []"
proof -
  let ?p = "field sample_figure (js ''props'')"
  have top: "validateTop sample_figure = []"
    by (simp add: validateTop_def sample_figure_def EVIDENCE_def word_unit_def js_trim_def js_trim_start_def
        js_trim_end_def js_space_def LIMITS_def)
  have lay: "validateLayout (walkLayout (field ?p (js ''layout''))) = ([], [js ''a'', js ''b''])"
    unfolding sample_walk
    by (simp add: validateLayout_def box_step_def group_step_def claim_def optStr_def LIMITS_def sample_figure_def)
  have edg: "validateEdges (field ?p (js ''edges'')) [js ''a'', js ''b''] = ([], [JStr (js ''a->b'')])"
    by (simp add: validateEdges_def edge_step_def edgeIdOf_def nullish_def in_ids_def optStr_def sample_figure_def LIMITS_def)
  have stp: "validateSteps (field ?p (js ''steps'')) bs es = []" for bs es
    by (simp add: validateSteps_def sample_figure_def)
  show ?thesis unfolding validate_def top Let_def lay edg stp prod.case by (simp add: sample_figure_def)
qed

theorem validate_sound_witness:
  "validate sample_figure = [] \<and>
   length (wk_boxes (walkLayout (field (field sample_figure (js ''props'')) (js ''layout'')))) \<le> 40"
  using sample_valid validate_sound [OF sample_valid] by (simp add: Let_def)

text \<open>
  C23. The explicit-stack walk visits the layout completely and in document order: when it reports no
  error, its boxes and groups are exactly those of the recursive definition, and it never visits more
  than 81 entries whatever the layout holds.
\<close>

theorem walkLayout_complete:
  assumes "wk_errors (walkLayout layout) = []"
  shows "map bx_node (wk_boxes (walkLayout layout)) = ref_boxes 8 layout \<and>
    map gr_group (wk_groups (walkLayout layout)) = ref_groups 8 layout"
proof -
  have d: "\<forall>(i, a, d) \<in> set [(layout, [] :: nat list, 0)]. d \<le> lm_depth LIMITS" by simp
  have "lm_depth LIMITS = 8" by (simp add: LIMITS_def)
  with walk_loop_complete [OF assms [unfolded walkLayout_def] d] show ?thesis
    by (simp add: walkLayout_def del: walk_loop.simps)
qed

theorem walkLayout_complete_witness:
  "wk_errors (walkLayout (field (field sample_figure (js ''props'')) (js ''layout''))) = [] \<and>
   length (ref_boxes 8 (field (field sample_figure (js ''props'')) (js ''layout''))) = 2"
proof -
  have h: "wk_errors (walkLayout (field (field sample_figure (js ''props'')) (js ''layout''))) = []"
    unfolding sample_walk by simp
  have "ref_boxes 8 (field (field sample_figure (js ''props'')) (js ''layout'')) =
      map bx_node (wk_boxes (walkLayout (field (field sample_figure (js ''props'')) (js ''layout''))))"
    using walkLayout_complete [OF h] by simp
  with h show ?thesis unfolding sample_walk by simp
qed

text \<open>
  The derived description is at most 2500 characters, lines joined: either every line is kept, or a
  proper prefix of whole lines followed by the note that names the full source.
\<close>

theorem capLines_bounded:
  assumes "length (shortened_note slug) \<le> lm_text LIMITS"
  shows "length (js_join [10] (capLines lines slug)) \<le> 2500 \<and>
    (capLines lines slug = lines \<or> (\<exists>k < length lines. capLines lines slug = take k lines @ [shortened_note slug]))"
proof (cases "length (js_join [10] lines) \<le> lm_text LIMITS")
  case True
  then show ?thesis by (simp add: capLines_def LIMITS_def)
next
  case False
  let ?note = "shortened_note slug"
  let ?kept = "cap_loop (length ?note) lines"
  let ?w = "\<lambda>xs. sum_list (map (\<lambda>x. length x + 1) xs)"
  have cap: "capLines lines slug = ?kept @ [?note]" using False by (simp add: capLines_def Let_def)
  have bound: "length ?note + ?w ?kept \<le> lm_text LIMITS" by (rule cap_loop_bound [OF assms])
  have "length (js_join [10] (?kept @ [?note])) + 1 = ?w ?kept + length ?note + 1"
    using length_js_join [of "?kept @ [?note]"] by simp
  then have len: "length (js_join [10] (?kept @ [?note])) \<le> lm_text LIMITS" using bound by linarith
  obtain k where k: "?kept = take k lines" "k \<le> length lines"
    using cap_loop_prefix [of "length ?note" lines] by (metis prefix_length_le append_eq_conv_conj prefix_def)
  have "k \<noteq> length lines"
  proof
    assume "k = length lines"
    then have "?w lines \<le> lm_text LIMITS" using k(1) bound by simp
    moreover have "length (js_join [10] lines) \<le> ?w lines" using length_js_join [of lines] by (cases "lines = []") auto
    ultimately show False using False by simp
  qed
  with k(2) have "k < length lines" by simp
  with cap len k(1) show ?thesis by (auto simp: LIMITS_def)
qed

theorem capLines_bounded_witness:
  "length (shortened_note (js ''flow'')) \<le> lm_text LIMITS \<and>
   length (js_join [10] (capLines [js ''A to B.''] (js ''flow''))) \<le> 2500"
proof -
  have h: "length (shortened_note (js ''flow'')) \<le> lm_text LIMITS" by (simp add: shortened_note_def LIMITS_def)
  show ?thesis using h capLines_bounded [OF h] by blast
qed

text \<open>
  Escaped text is inert: it holds no angle bracket and no quote, so it can neither open a tag nor
  leave an attribute, and no \<open>{{\<close>, so it can never form a slot of the markup.
\<close>

theorem escapeHtml_inert:
  "list_all (\<lambda>c. c \<noteq> cu CHR ''<'' \<and> c \<noteq> cu CHR ''>'' \<and> c \<noteq> 34 \<and> c \<noteq> 39) (escapeHtml s) \<and>
   \<not> js_includes (escapeHtml s) (js ''{{'')"
  using escape_braces_safe [OF entities_safe [of s]] escape_braces_no_slot [of "concat (map entity s)"]
  by (simp add: escapeHtml_def html_special_def)

text \<open>
  C24. The specification embedded in a figure cannot close its CDATA section early: the text between
  the markers of a decorated figure holds no \<open>]]>\<close>, whatever strings the figure holds, and the rest of
  the rendered image follows unchanged.
\<close>

theorem decorate_embeds_spec:
  assumes "decorate svg figure v = Inr out"
  shows "\<not> js_includes (embedded_spec figure) (js '']]>'') \<and>
    (\<exists>head n. svg_open svg = Some n \<and> out = head @ SPEC_OPEN @ embedded_spec figure @ SPEC_CLOSE @ 10 # drop n svg)"
proof -
  obtain n where n: "svg_open svg = Some n" using assms by (auto simp: decorate_def split: option.splits)
  have "out = (decorated_tag (take n svg) @ decorated_head figure v) @ SPEC_OPEN @ embedded_spec figure @ SPEC_CLOSE @ 10 # drop n svg"
    using assms unfolding decorate_def n option.case by (simp only: sum.inject)
  moreover have "\<not> js_includes (embedded_spec figure) (js '']]>'')"
    unfolding embedded_spec_def by (rule close_cdata_free)
  ultimately show ?thesis using n by blast
qed

theorem decorate_embeds_spec_witness:
  "\<not> js_includes (embedded_spec sample_figure) (js '']]>'')"
proof -
  have "svg_open (js ''<svg ></svg>'') = Some 6" by (simp add: svg_open_def js_index_def)
  then obtain out where "decorate (js ''<svg ></svg>'') sample_figure \<lparr>ve_repo = [], ve_commit = [], ve_path = []\<rparr> = Inr out"
    unfolding decorate_def by simp
  from decorate_embeds_spec [OF this] show ?thesis by blast
qed

end
