(* ===== verification/FigureFences.thy ===== *)
theory FigureFences
  imports FigureCore NodePath
begin

text \<open>
  Reading pages and site configurations in the figure checks (\<^verbatim>\<open>src/tools/figures/checks.mjs\<close>): the
  line splitter and the fence scanner, the readers of \<^verbatim>\<open>mkdocs.yml\<close>, the gitignore-style exclusion
  patterns and the names of pages and outputs. Each regular expression of the source is written out as
  the scan it performs on one line.
\<close>

definition MAX_LINES :: nat where "MAX_LINES = 100000"
definition MAX_FIGURES :: nat where "MAX_FIGURES = 256"

datatype check_error =
    TooManyLines
  | UnsupportedPattern jsstr
  | EnvironmentUnset "jsstr list"
  | NoSiteUrl
  | AmbiguousDocs jsstr
  | NoHtml jsstr
  | BadSlug jsstr
  | NoFigureJson jsstr
  | OutsideRepository jsstr
  | TooManyFigures

text \<open>\<open>WS\<close>: Python's white space, one code unit.\<close>

definition py_space :: "nat \<Rightarrow> bool" where
  "py_space c \<longleftrightarrow>
     (9 \<le> c \<and> c \<le> 13) \<or> (0x1C \<le> c \<and> c \<le> 0x20) \<or> c = 0x85 \<or> c = 0xA0 \<or> c = 0x1680 \<or> (0x2000 \<le> c \<and> c \<le> 0x200A) \<or>
     c = 0x2028 \<or> c = 0x2029 \<or> c = 0x202F \<or> c = 0x205F \<or> c = 0x3000"

definition lstrip :: "jsstr \<Rightarrow> jsstr" where "lstrip s = dropWhile py_space s"
definition strip :: "jsstr \<Rightarrow> jsstr" where "strip s = rev (dropWhile py_space (rev (dropWhile py_space s)))"

definition is_quote :: "nat \<Rightarrow> bool" where "is_quote c \<longleftrightarrow> c = 34 \<or> c = 39"

text \<open>\<open>S*(?:#ANY*)?$\<close>: only white space and a comment follow.\<close>

definition comment_tail :: "jsstr \<Rightarrow> bool" where
  "comment_tail s = (case lstrip s of [] \<Rightarrow> True | c # _ \<Rightarrow> c = 35)"

text \<open>\<open>^key S*: S*\<close>: what follows a top-level key, or \<open>None\<close>.\<close>

definition after_key :: "jsstr \<Rightarrow> jsstr \<Rightarrow> jsstr option" where
  "after_key key line =
     (if js_starts line key then
        (case lstrip (drop (length key) line) of
           c # r \<Rightarrow> if c = 58 then Some (lstrip r) else None
         | [] \<Rightarrow> None)
      else None)"

section \<open>Lines and fences\<close>

definition drop_cr :: "jsstr \<Rightarrow> jsstr" where
  "drop_cr line = (if line \<noteq> [] \<and> last line = 13 then butlast line else line)"

definition boundedLines :: "jsstr \<Rightarrow> (check_error, jsstr list) res" where
  "boundedLines content =
     (let all = map drop_cr (js_split 10 content); lines = (if last all = [] then butlast all else all) in
      throw_if (length lines > MAX_LINES) TooManyLines (Inr lines))"

record fence_match =
  fm_indent :: jsstr
  fm_marker :: jsstr
  fm_info :: jsstr
  fm_rest :: jsstr

text \<open>\<open>FENCE_LINE\<close>: an indent, three or more backticks or tildes, the info string and the rest.\<close>

definition FENCE_LINE :: "jsstr \<Rightarrow> fence_match option" where
  "FENCE_LINE line =
     (let indent = takeWhile py_space line; body = drop (length indent) line in
      case body of
        [] \<Rightarrow> None
      | c # _ \<Rightarrow>
          (let marker = takeWhile (\<lambda>d. d = c) body; tail = lstrip (drop (length marker) body);
               info = takeWhile (\<lambda>d. \<not> py_space d \<and> d \<noteq> 96 \<and> d \<noteq> 123) tail in
           if (c = 96 \<or> c = 126) \<and> length marker \<ge> 3
           then Some \<lparr>fm_indent = indent, fm_marker = marker, fm_info = info, fm_rest = drop (length info) tail\<rparr>
           else None))"

record opener =
  fo_start :: nat
  fo_indent :: jsstr
  fo_marker :: jsstr
  fo_info :: jsstr

record fence_block =
  fb_start :: nat
  fb_end :: nat
  fb_indent :: jsstr
  fb_info :: jsstr
  fb_body :: "jsstr list"

definition closes :: "opener \<Rightarrow> fence_match \<Rightarrow> bool" where
  "closes op m \<longleftrightarrow>
     hd (fm_marker m) = hd (fo_marker op) \<and> length (fm_marker m) \<ge> length (fo_marker op) \<and>
     fm_info m = [] \<and> strip (fm_rest m) = []"

definition block_of :: "jsstr list \<Rightarrow> opener \<Rightarrow> nat \<Rightarrow> nat \<Rightarrow> fence_block" where
  "block_of lines op stop body_end =
     \<lparr>fb_start = fo_start op, fb_end = stop, fb_indent = fo_indent op, fb_info = fo_info op,
      fb_body = js_slice lines (fo_start op + 1) body_end\<rparr>"

definition fence_step ::
  "jsstr list \<Rightarrow> nat \<times> jsstr \<Rightarrow> opener option \<times> fence_block list \<Rightarrow> opener option \<times> fence_block list" where
  "fence_step lines il st =
     (let (index, line) = il; (open_fence, blocks) = st in
      case FENCE_LINE line of
        None \<Rightarrow> st
      | Some m \<Rightarrow>
          (case open_fence of
             None \<Rightarrow> (Some \<lparr>fo_start = index, fo_indent = fm_indent m, fo_marker = fm_marker m, fo_info = js_lower (fm_info m)\<rparr>, blocks)
           | Some op \<Rightarrow>
               if closes op m then (None, blocks @ [block_of lines op (index + 1) index])
               else st))"

definition fenceBlocks :: "jsstr \<Rightarrow> (check_error, fence_block list) res" where
  "fenceBlocks content =
     res_bind (boundedLines content) (\<lambda>lines.
       let (open_fence, blocks) = fold (fence_step lines) (enumerate 0 lines) (None, []) in
       Inr (case open_fence of None \<Rightarrow> blocks | Some op \<Rightarrow> blocks @ [block_of lines op (length lines) (length lines)]))"

definition fences :: "jsstr \<Rightarrow> jsstr \<Rightarrow> (check_error, jsstr list list) res" where
  "fences content info =
     res_bind (fenceBlocks content) (\<lambda>blocks. Inr (map fb_body (filter (\<lambda>b. fb_info b = info) blocks)))"

definition figureSlug :: "jsstr list \<Rightarrow> jsstr" where
  "figureSlug body = (case find (\<lambda>line. strip line \<noteq> []) body of None \<Rightarrow> [] | Some line \<Rightarrow> strip line)"

definition figureSlugs :: "jsstr \<Rightarrow> (check_error, jsstr list) res" where
  "figureSlugs content = res_bind (fences content (js ''figure'')) (\<lambda>bodies. Inr (map figureSlug bodies))"

text \<open>\<open>SLUG\<close>: words of lower-case letters and digits joined by single hyphens.\<close>

definition slug_unit :: "nat \<Rightarrow> bool" where
  "slug_unit c \<longleftrightarrow> 97 \<le> c \<and> c \<le> 122 \<or> 48 \<le> c \<and> c \<le> 57"

definition SLUG :: "jsstr \<Rightarrow> bool" where
  "SLUG s \<longleftrightarrow> (\<forall>w \<in> set (js_split 45 s). w \<noteq> [] \<and> (\<forall>c \<in> set w. slug_unit c))"

section \<open>The MkDocs configuration\<close>

text \<open>\<open>-S+\<close>: a dash and at least one blank.\<close>

definition after_dash :: "jsstr \<Rightarrow> jsstr option" where
  "after_dash s = (case s of a # c # r \<Rightarrow> if a = 45 \<and> py_space c then Some (lstrip r) else None | _ \<Rightarrow> None)"

definition SUPERFENCES_ITEM :: "jsstr \<Rightarrow> nat option" where
  "SUPERFENCES_ITEM line =
     (let indent = takeWhile py_space line; body = drop (length indent) line in
      case after_dash body of
        None \<Rightarrow> None
      | Some r \<Rightarrow>
          (case after_key (js ''pymdownx.superfences'') r of
             Some t \<Rightarrow> if comment_tail t then Some (length indent) else None
           | None \<Rightarrow> None))"

text \<open>The lines that a nested entry holds: up to one that is not deeper than its key.\<close>

definition ends_entry :: "nat \<Rightarrow> jsstr \<Rightarrow> bool" where
  "ends_entry indent nested \<longleftrightarrow>
     strip nested \<noteq> [] \<and> \<not> js_starts (strip nested) (js ''#'') \<and> length nested - length (lstrip nested) \<le> indent"

fun superfencesBody :: "jsstr list \<Rightarrow> jsstr list" where
  "superfencesBody [] = []"
| "superfencesBody (line # lines) =
     (case SUPERFENCES_ITEM line of
        Some indent \<Rightarrow> takeWhile (\<lambda>nested. \<not> ends_entry indent nested) lines
      | None \<Rightarrow> superfencesBody lines)"

text \<open>
  \<open>FENCE_KEY\<close>: the flag for a leading dash, the key and the value. The value is the run of
  non-blank units, cut at the last hash from which the line is a comment when more text follows.
\<close>

fun last_hash :: "jsstr \<Rightarrow> nat \<Rightarrow> nat option" where
  "last_hash w 0 = None"
| "last_hash w (Suc k) = (if k \<ge> 1 \<and> js_at w k = Some 35 then Some k else last_hash w k)"

definition fence_value :: "jsstr \<Rightarrow> jsstr option" where
  "fence_value s =
     (let w = takeWhile (\<lambda>c. \<not> py_space c) s in
      if w = [] then None
      else if comment_tail (drop (length w) s) then Some w
      else map_option (\<lambda>k. take k w) (last_hash w (length w)))"

definition FENCE_KEY :: "jsstr \<Rightarrow> (bool \<times> jsstr \<times> jsstr) option" where
  "FENCE_KEY line =
     (let body = lstrip line;
          dash = (after_dash body \<noteq> None);
          rest = (case after_dash body of Some r \<Rightarrow> r | None \<Rightarrow> body) in
      case find (\<lambda>key. after_key key rest \<noteq> None) [js ''name'', js ''class'', js ''format''] of
        None \<Rightarrow> None
      | Some key \<Rightarrow> map_option (\<lambda>v. (dash, key, v)) (fence_value (the (after_key key rest))))"

text \<open>\<^verbatim>\<open>replace(/^['"]+|['"]+$/g, '')\<close>.\<close>

definition trim_quotes :: "jsstr \<Rightarrow> jsstr" where
  "trim_quotes s = rev (dropWhile is_quote (rev (dropWhile is_quote s)))"

definition set_key :: "jsstr \<Rightarrow> 'v \<Rightarrow> (jsstr \<times> 'v) list \<Rightarrow> (jsstr \<times> 'v) list" where
  "set_key k v es = (if k \<in> fst ` set es then map (\<lambda>(a, b). (a, if a = k then v else b)) es else es @ [(k, v)])"

definition declare_step :: "jsstr \<Rightarrow> (jsstr \<times> jsstr) list list \<Rightarrow> (jsstr \<times> jsstr) list list" where
  "declare_step line declared =
     (case FENCE_KEY line of
        None \<Rightarrow> declared
      | Some (dash, key, v) \<Rightarrow>
          (let ds = (if dash \<or> declared = [] then declared @ [[]] else declared) in
           butlast ds @ [set_key key (trim_quotes v) (last ds)]))"

definition declaredFences :: "jsstr \<Rightarrow> (check_error, (jsstr \<times> jsstr) list list) res" where
  "declaredFences content =
     res_bind (boundedLines content) (\<lambda>lines. Inr (fold declare_step (superfencesBody lines) []))"

definition EXPECTED_FENCE :: "(jsstr \<times> jsstr) list" where
  "EXPECTED_FENCE =
     [(js ''name'', js ''mermaid''), (js ''class'', js ''mermaid''),
      (js ''format'', js ''!!python/name:pymdownx.superfences.fence_code_format'')]"

definition sameFence :: "(jsstr \<times> jsstr) list \<Rightarrow> bool" where
  "sameFence fence \<longleftrightarrow>
     length fence = length EXPECTED_FENCE \<and> (\<forall>(k, v) \<in> set EXPECTED_FENCE. map_of fence k = Some v)"

text \<open>\<open>configError\<close>: true when the configuration does not declare the fence.\<close>

definition configError :: "jsstr \<Rightarrow> (check_error, bool) res" where
  "configError content = res_bind (declaredFences content) (\<lambda>ds. Inr (\<not> (\<exists>d \<in> set ds. sameFence d)))"

definition unquote :: "jsstr \<Rightarrow> jsstr" where
  "unquote item = trim_quotes (strip item)"

text \<open>The last closing bracket after which the line is a comment: the greedy match of \<open>HOOKS_FLOW\<close>.\<close>

fun flow_end :: "jsstr \<Rightarrow> nat \<Rightarrow> nat option" where
  "flow_end s 0 = None"
| "flow_end s (Suc k) = (if js_at s k = Some 93 \<and> comment_tail (drop (k + 1) s) then Some k else flow_end s k)"

definition HOOKS_FLOW :: "jsstr \<Rightarrow> jsstr option" where
  "HOOKS_FLOW line =
     (case after_key (js ''hooks'') line of
        Some (c # s) \<Rightarrow> if c = 91 then map_option (\<lambda>k. take k s) (flow_end s (length s)) else None
      | _ \<Rightarrow> None)"

definition HOOKS_BLOCK :: "jsstr \<Rightarrow> bool" where
  "HOOKS_BLOCK line = (case after_key (js ''hooks'') line of Some t \<Rightarrow> comment_tail t | None \<Rightarrow> False)"

text \<open>An optional quote, then at least one unit that is no quote, hash or white space.\<close>

definition plain_value :: "jsstr \<Rightarrow> jsstr option" where
  "plain_value s =
     (let t = (case s of c # r \<Rightarrow> if is_quote c then r else s | [] \<Rightarrow> s);
          v = takeWhile (\<lambda>c. \<not> is_quote c \<and> c \<noteq> 35 \<and> \<not> py_space c) t in
      if v = [] then None else Some v)"

definition LIST_ITEM :: "jsstr \<Rightarrow> jsstr option" where
  "LIST_ITEM line =
     (case line of
        c # _ \<Rightarrow>
          if py_space c then
            (case after_dash (lstrip line) of Some r \<Rightarrow> plain_value r | None \<Rightarrow> None)
          else None
      | [] \<Rightarrow> None)"

fun blockHooks :: "jsstr list \<Rightarrow> jsstr list" where
  "blockHooks [] = []"
| "blockHooks (nested # rest) =
     (case LIST_ITEM nested of
        Some item \<Rightarrow> item # blockHooks rest
      | None \<Rightarrow> if strip nested \<noteq> [] \<and> \<not> js_starts (lstrip nested) (js ''#'') then [] else blockHooks rest)"

fun hooks_loop :: "jsstr list \<Rightarrow> jsstr list" where
  "hooks_loop [] = []"
| "hooks_loop (line # lines) =
     (case HOOKS_FLOW line of
        Some flow \<Rightarrow> map unquote (filter (\<lambda>item. strip item \<noteq> []) (js_split 44 flow))
      | None \<Rightarrow> if HOOKS_BLOCK line then blockHooks lines else hooks_loop lines)"

definition declaredHooks :: "jsstr \<Rightarrow> (check_error, jsstr list) res" where
  "declaredHooks content = res_bind (boundedLines content) (\<lambda>lines. Inr (hooks_loop lines))"

fun blockScalarLines :: "jsstr list \<Rightarrow> jsstr list" where
  "blockScalarLines [] = []"
| "blockScalarLines (line # rest) =
     (if strip line \<noteq> [] \<and> \<not> (case line of c # _ \<Rightarrow> py_space c | [] \<Rightarrow> False) then []
      else (if strip line \<noteq> [] \<and> \<not> js_starts (strip line) (js ''#'') then [strip line] else []) @ blockScalarLines rest)"

definition EXCLUDE_BLOCK :: "jsstr \<Rightarrow> bool" where
  "EXCLUDE_BLOCK line =
     (case after_key (js ''exclude_docs'') line of
        Some (c # r) \<Rightarrow>
          (c = 124 \<or> c = 62) \<and>
          comment_tail (case r of d # t \<Rightarrow> if d = 45 \<or> d = 43 then t else r | [] \<Rightarrow> r)
      | _ \<Rightarrow> False)"

text \<open>The shortest value whose rest is an optional quote and a comment.\<close>

fun lazy_value :: "jsstr \<Rightarrow> jsstr option" where
  "lazy_value s =
     (if comment_tail (case s of c # r \<Rightarrow> if is_quote c then r else s | [] \<Rightarrow> s) then Some []
      else
        (case s of
           c # r \<Rightarrow> if is_quote c \<or> c = 35 then None else map_option (\<lambda>v. c # v) (lazy_value r)
         | [] \<Rightarrow> None))"

declare lazy_value.simps [simp del]

definition EXCLUDE_LINE :: "jsstr \<Rightarrow> jsstr option" where
  "EXCLUDE_LINE line =
     (case after_key (js ''exclude_docs'') line of
        Some s \<Rightarrow> lazy_value (case s of c # r \<Rightarrow> if is_quote c then r else s | [] \<Rightarrow> s)
      | None \<Rightarrow> None)"

fun exclude_loop :: "jsstr list \<Rightarrow> jsstr list" where
  "exclude_loop [] = []"
| "exclude_loop (line # lines) =
     (if EXCLUDE_BLOCK line then blockScalarLines lines
      else
        (case EXCLUDE_LINE line of
           Some v \<Rightarrow> if strip v \<noteq> [] then [strip v] else []
         | None \<Rightarrow> exclude_loop lines))"

definition excludedPatterns :: "jsstr \<Rightarrow> (check_error, jsstr list) res" where
  "excludedPatterns content = res_bind (boundedLines content) (\<lambda>lines. Inr (exclude_loop lines))"

section \<open>Exclusion patterns\<close>

datatype gtok = GStar | GAny | GNever | GLit nat | GClass bool "(nat \<times> nat) list"

definition single :: "nat \<Rightarrow> nat \<times> nat" where "single c = (c, c)"

text \<open>
  The members of a bracket expression. The chunks between the hyphens that make a range; two chunks
  meet in the range from the last unit of one to the first of the next.
\<close>

fun chunk_loop :: "nat \<Rightarrow> jsstr \<Rightarrow> nat \<Rightarrow> nat \<Rightarrow> nat \<Rightarrow> jsstr list \<Rightarrow> nat \<times> jsstr list" where
  "chunk_loop 0 pattern stop source k chunks = (source, chunks)"
| "chunk_loop (Suc guard) pattern stop source k chunks =
     (case js_index 45 pattern k of
        None \<Rightarrow> (source, chunks)
      | Some h \<Rightarrow>
          if h \<ge> stop then (source, chunks)
          else chunk_loop guard pattern stop (h + 1) (h + 3) (chunks @ [js_slice pattern source h]))"

text \<open>Empty ranges are dropped, from the right.\<close>

fun merge_chunks :: "jsstr list \<Rightarrow> jsstr list" where
  "merge_chunks [] = []"
| "merge_chunks (c # cs) =
     (case merge_chunks cs of
        [] \<Rightarrow> [c]
      | d # ds \<Rightarrow> if c \<noteq> [] \<and> d \<noteq> [] \<and> last c > hd d then (butlast c @ tl d) # ds else c # d # ds)"

fun chunk_ranges :: "jsstr list \<Rightarrow> (nat \<times> nat) list" where
  "chunk_ranges [] = []"
| "chunk_ranges [c] = map single c"
| "chunk_ranges (c # d # cs) =
     (if c = [] \<or> d = [] then map single (c @ d) @ chunk_ranges cs
      else map single (butlast c) @ (last c, hd d) # chunk_ranges (tl d # cs))"

definition bracket_chunks :: "jsstr \<Rightarrow> nat \<Rightarrow> nat \<Rightarrow> jsstr list" where
  "bracket_chunks pattern start stop =
     (if 45 \<notin> set (js_slice pattern start stop) then [js_slice pattern start stop]
      else
        (let k = (if js_at pattern start = Some 33 then start + 2 else start + 1);
             (source, chunks) = chunk_loop (stop - start + 1) pattern stop start k [];
             final = js_slice pattern source stop in
         merge_chunks (if final \<noteq> [] then chunks @ [final]
           else if chunks = [] then [] else butlast chunks @ [last chunks @ [45]])))"

definition bracket :: "jsstr \<Rightarrow> nat \<Rightarrow> gtok \<times> nat" where
  "bracket pattern start =
     (let a = (if js_at pattern start = Some 33 then start + 1 else start);
          b = (if js_at pattern a = Some 93 then a + 1 else a) in
      case js_index 93 pattern b of
        None \<Rightarrow> (GLit 91, start)
      | Some stop \<Rightarrow>
          (let chunks = bracket_chunks pattern start stop; body = concat chunks in
           if body = [] then (GNever, stop + 1)
           else if body = [33] then (GAny, stop + 1)
           else if hd body = 33 then (GClass True (chunk_ranges (tl (hd chunks) # tl chunks)), stop + 1)
           else (GClass False (chunk_ranges chunks), stop + 1)))"

text \<open>\<open>globRegExp\<close>: the tokens of a glob; the guard bounds the loop by the length of the pattern.\<close>

fun glob_loop :: "nat \<Rightarrow> jsstr \<Rightarrow> nat \<Rightarrow> gtok list" where
  "glob_loop 0 pattern i = []"
| "glob_loop (Suc guard) pattern i =
     (if i < length pattern then
        (let c = pattern ! i in
         if c = 42 then GStar # glob_loop guard pattern (i + 1)
         else if c = 63 then GAny # glob_loop guard pattern (i + 1)
         else if c = 91 then
           (let (tok, j) = bracket pattern (i + 1) in tok # glob_loop guard pattern j)
         else GLit c # glob_loop guard pattern (i + 1))
      else [])"

definition globRegExp :: "jsstr \<Rightarrow> gtok list" where
  "globRegExp pattern = glob_loop (length pattern + 1) pattern 0"

fun gtok_matches :: "gtok \<Rightarrow> nat \<Rightarrow> bool" where
  "gtok_matches GAny c = True"
| "gtok_matches (GLit d) c = (c = d)"
| "gtok_matches (GClass neg rs) c = ((\<exists>(lo, hi) \<in> set rs. lo \<le> c \<and> c \<le> hi) \<noteq> neg)"
| "gtok_matches _ c = False"

fun gtoks_match :: "gtok list \<Rightarrow> jsstr \<Rightarrow> bool" where
  "gtoks_match [] s = (s = [])"
| "gtoks_match (GStar # ts) [] = gtoks_match ts []"
| "gtoks_match (GStar # ts) (c # s) = (gtoks_match ts (c # s) \<or> gtoks_match (GStar # ts) s)"
| "gtoks_match (t # ts) [] = False"
| "gtoks_match (t # ts) (c # s) = (gtok_matches t c \<and> gtoks_match ts s)"

definition globMatches :: "jsstr \<Rightarrow> jsstr \<Rightarrow> bool" where
  "globMatches name glob = gtoks_match (globRegExp glob) name"

text \<open>\<^verbatim>\<open>replace(/\[\^/g, '[!')\<close>.\<close>

fun caret_bracket :: "jsstr \<Rightarrow> jsstr" where
  "caret_bracket [] = []"
| "caret_bracket [c] = [c]"
| "caret_bracket (c # d # s) = (if c = 91 \<and> d = 94 then 91 # 33 # caret_bracket s else c # caret_bracket (d # s))"

definition DEFAULT_EXCLUDE :: "jsstr list" where "DEFAULT_EXCLUDE = [js ''.*'', js ''/templates/'']"
definition UNSUPPORTED_EXCLUDE :: "jsstr list" where "UNSUPPORTED_EXCLUDE = [js ''**'', [92]]"

definition patternMatches :: "jsstr list \<Rightarrow> jsstr \<Rightarrow> (check_error, bool) res" where
  "patternMatches parts pattern =
     (let directory = js_ends pattern [SLASH]; body = (if directory then butlast pattern else pattern);
          globs = map caret_bracket (js_split SLASH (if js_starts body [SLASH] then drop 1 body else body));
          names = (if directory then butlast parts else parts) in
      throw_if (js_starts pattern (js ''!'') \<or> (\<exists>token \<in> set UNSUPPORTED_EXCLUDE. js_includes pattern token))
        (UnsupportedPattern pattern)
        (Inr (if length globs = 1 \<and> globs ! 0 = [] then False
              else if SLASH \<notin> set body then (\<exists>name \<in> set names. globMatches name (globs ! 0))
              else length globs \<le> length names \<and> list_all2 globMatches (take (length globs) names) globs)))"

fun any_res :: "('x \<Rightarrow> ('e, bool) res) \<Rightarrow> 'x list \<Rightarrow> ('e, bool) res" where
  "any_res f [] = Inr False"
| "any_res f (x # xs) = res_bind (f x) (\<lambda>b. if b then Inr True else any_res f xs)"

definition isExcluded :: "jsstr list \<Rightarrow> jsstr list \<Rightarrow> (check_error, bool) res" where
  "isExcluded parts patterns = any_res (patternMatches parts) (DEFAULT_EXCLUDE @ patterns)"

section \<open>The site URL\<close>

definition environmentValue :: "(jsstr \<Rightarrow> jsstr option) \<Rightarrow> jsstr \<Rightarrow> (check_error, jsstr) res" where
  "environmentValue env spec =
     (let items = (if js_starts spec (js ''['')
            then filter (\<lambda>i. i \<noteq> []) (map unquote (js_split 44 (butlast (drop 1 spec)))) else [spec]);
          names = (if length items > 1 then butlast items else items) in
      case find (\<lambda>name. env name \<noteq> None) names of
        Some name \<Rightarrow> Inr (the (env name))
      | None \<Rightarrow> if length items > 1 then Inr (last items) else Inl (EnvironmentUnset names))"

definition SITE_URL_ENV :: "jsstr \<Rightarrow> jsstr option" where
  "SITE_URL_ENV line =
     (case after_key (js ''site_url'') line of
        None \<Rightarrow> None
      | Some s \<Rightarrow>
          if js_starts s (js ''!ENV'') then
            (case drop 4 s of
               [] \<Rightarrow> None
             | c # r \<Rightarrow>
                 if \<not> py_space c then None
                 else
                   (let t = lstrip r; run = takeWhile (\<lambda>c. \<not> is_quote c \<and> c \<noteq> 35 \<and> \<not> py_space c) t in
                    case (if js_starts t (js ''['') then js_index 93 t 1 else None) of
                      Some k \<Rightarrow> Some (take (k + 1) t)
                    | None \<Rightarrow> if run = [] then None else Some run))
          else None)"

definition SITE_URL :: "jsstr \<Rightarrow> jsstr option" where
  "SITE_URL line = (case after_key (js ''site_url'') line of None \<Rightarrow> None | Some s \<Rightarrow> plain_value s)"

fun site_loop :: "(jsstr \<Rightarrow> jsstr option) \<Rightarrow> jsstr list \<Rightarrow> (check_error, jsstr) res" where
  "site_loop env [] = Inl NoSiteUrl"
| "site_loop env (line # lines) =
     (case SITE_URL_ENV line of
        Some spec \<Rightarrow> environmentValue env spec
      | None \<Rightarrow> (case SITE_URL line of Some url \<Rightarrow> Inr url | None \<Rightarrow> site_loop env lines))"

definition siteUrl :: "(jsstr \<Rightarrow> jsstr option) \<Rightarrow> jsstr \<Rightarrow> (check_error, jsstr) res" where
  "siteUrl env content = res_bind (boundedLines content) (site_loop env)"

section \<open>Kinds and pages\<close>

datatype kind = Mermaid | Figure

fun kind_text :: "kind \<Rightarrow> jsstr" where
  "kind_text Mermaid = js ''mermaid''"
| "kind_text Figure = js ''figure''"

definition hookParts :: "jsstr \<Rightarrow> jsstr list" where
  "hookParts hook = filter (\<lambda>p. p \<noteq> [] \<and> p \<noteq> dot_seg) (js_split SLASH hook)"

definition HOOK :: "jsstr list" where "HOOK = [js ''figures'', js ''mkdocs_hook.py'']"

definition last_two :: "'a list \<Rightarrow> 'a list" where "last_two xs = drop (length xs - 2) xs"

definition enabledKinds :: "jsstr \<Rightarrow> (check_error, kind list) res" where
  "enabledKinds content =
     res_bind (configError content) (\<lambda>missing.
     res_bind (declaredHooks content) (\<lambda>hooks.
       Inr ((if missing then [] else [Mermaid]) @
            (if \<exists>h \<in> set hooks. last_two (hookParts h) = HOOK then [Figure] else []))))"

text \<open>\<open>kindErrors\<close>: the disabled kinds that the page uses, each with whether a replacement is named.\<close>

definition kindErrors :: "jsstr \<Rightarrow> kind list \<Rightarrow> (check_error, (kind \<times> bool) list) res" where
  "kindErrors content kinds =
     res_bind (fenceBlocks content) (\<lambda>blocks.
       let found = map fb_info blocks in
       Inr (map (\<lambda>k. (k, k = Mermaid \<and> Figure \<in> set kinds))
         (filter (\<lambda>k. kind_text k \<in> set found \<and> k \<notin> set kinds) [Figure, Mermaid])))"

definition pageOutput :: "jsstr list \<Rightarrow> jsstr \<Rightarrow> jsstr list" where
  "pageOutput dir_parts file =
     (let stem = path_stem file in
      if stem = js ''index'' \<or> stem = js ''README'' then dir_parts @ [js ''index.html'']
      else dir_parts @ [stem, js ''index.html''])"

definition STARLIGHT_SUFFIXES :: "jsstr list" where
  "STARLIGHT_SUFFIXES = [js ''.markdown'', js ''.mdown'', js ''.mkdn'', js ''.mkd'', js ''.mdwn'', js ''.md'', js ''.mdx'']"

datatype flavor = MKDOCS | STARLIGHT

definition ASTRO_CONFIG :: "jsstr \<Rightarrow> bool" where
  "ASTRO_CONFIG name \<longleftrightarrow>
     js_lower name \<in> (\<lambda>e. js ''astro.config.'' @ e) ` {js ''js'', js ''ts'', js ''cjs'', js ''cts'', js ''mjs'', js ''mts''}"

definition siteFlavor :: "jsstr \<Rightarrow> flavor" where
  "siteFlavor config = (if ASTRO_CONFIG (path_basename config) then STARLIGHT else MKDOCS)"

fun flavor_docs :: "flavor \<Rightarrow> jsstr" where
  "flavor_docs MKDOCS = js ''docs''"
| "flavor_docs STARLIGHT = js ''src/content/docs''"

definition SITE_CONFIGS :: "jsstr list list" where
  "SITE_CONFIGS =
     [[js ''mkdocs.yml'', js ''mkdocs.yaml''],
      [js ''astro.config.mjs'', js ''astro.config.js'', js ''astro.config.ts'', js ''astro.config.mts'',
       js ''astro.config.cjs'', js ''astro.config.cts'']]"

definition siteConfigs :: "(jsstr \<Rightarrow> bool) \<Rightarrow> jsstr list" where
  "siteConfigs isFile = concat (map (\<lambda>names. case find isFile names of None \<Rightarrow> [] | Some n \<Rightarrow> [n]) SITE_CONFIGS)"

record site = si_config :: jsstr si_docs :: jsstr

definition sourceSites ::
  "(jsstr \<Rightarrow> bool) \<Rightarrow> jsstr option \<Rightarrow> jsstr option \<Rightarrow> (check_error, site list) res" where
  "sourceSites isFile docs config =
     (let configs = (case config of None \<Rightarrow> siteConfigs isFile | Some c \<Rightarrow> [c]) in
      if configs = [] then
        Inr [\<lparr>si_config = js ''mkdocs.yml'', si_docs = (case docs of None \<Rightarrow> flavor_docs MKDOCS | Some d \<Rightarrow> d)\<rparr>]
      else
        (case docs of
           Some d \<Rightarrow>
             throw_if (length configs > 1) (AmbiguousDocs d)
               (Inr (map (\<lambda>n. \<lparr>si_config = n, si_docs = d\<rparr>) configs))
         | None \<Rightarrow> Inr (map (\<lambda>n. \<lparr>si_config = n, si_docs = flavor_docs (siteFlavor n)\<rparr>) configs)))"

section \<open>Lemmas\<close>

definition block_ok :: "jsstr list \<Rightarrow> fence_block \<Rightarrow> bool" where
  "block_ok lines b \<longleftrightarrow>
     fb_start b < fb_end b \<and> fb_end b \<le> length lines \<and> FENCE_LINE (lines ! fb_start b) \<noteq> None \<and>
     (fb_body b = js_slice lines (fb_start b + 1) (fb_end b - 1) \<or>
      (fb_end b = length lines \<and> fb_body b = js_slice lines (fb_start b + 1) (fb_end b)))"

text \<open>What the scan knows before line \<open>i\<close>: the finished blocks lie in order before the open fence.\<close>

definition fence_inv :: "jsstr list \<Rightarrow> nat \<Rightarrow> opener option \<times> fence_block list \<Rightarrow> bool" where
  "fence_inv lines i st \<longleftrightarrow>
     (\<forall>b \<in> set (snd st). block_ok lines b) \<and> sorted_wrt (\<lambda>a b. fb_end a \<le> fb_start b) (snd st) \<and>
     (case fst st of
        None \<Rightarrow> \<forall>b \<in> set (snd st). fb_end b \<le> i
      | Some op \<Rightarrow> fo_start op < i \<and> FENCE_LINE (lines ! fo_start op) \<noteq> None \<and>
          (\<forall>b \<in> set (snd st). fb_end b \<le> fo_start op))"

lemma fence_inv_step:
  assumes "fence_inv lines i (op, blocks)" and "i < length lines"
  shows "fence_inv lines (Suc i) (fence_step lines (i, lines ! i) (op, blocks))"
proof (cases "FENCE_LINE (lines ! i)")
  case None
  with assms(1) show ?thesis
    by (force simp: fence_inv_def fence_step_def split: option.splits)
next
  case (Some m)
  show ?thesis
  proof (cases op)
    case None
    with Some assms(1) show ?thesis by (auto simp: fence_inv_def fence_step_def)
  next
    case (Some p)
    have p: "fo_start p < i" "FENCE_LINE (lines ! fo_start p) \<noteq> None" "\<forall>b \<in> set blocks. fb_end b \<le> fo_start p"
      "\<forall>b \<in> set blocks. block_ok lines b" "sorted_wrt (\<lambda>a b. fb_end a \<le> fb_start b) blocks"
      using assms(1) Some by (auto simp: fence_inv_def)
    have ok: "block_ok lines (block_of lines p (i + 1) i)"
      using p(1,2) assms(2) by (auto simp: block_ok_def block_of_def)
    show ?thesis
    proof (cases "closes p m")
      case True
      then have "fence_step lines (i, lines ! i) (op, blocks) = (None, blocks @ [block_of lines p (i + 1) i])"
        using Some \<open>FENCE_LINE (lines ! i) = Some m\<close> by (simp add: fence_step_def)
      moreover have "\<forall>b \<in> set blocks. fb_end b \<le> Suc i" using p(1,3) by fastforce
      ultimately show ?thesis using ok p by (simp add: fence_inv_def sorted_wrt_append block_of_def)
    next
      case False
      then have "fence_step lines (i, lines ! i) (op, blocks) = (op, blocks)"
        using Some \<open>FENCE_LINE (lines ! i) = Some m\<close> by (simp add: fence_step_def)
      with p Some show ?thesis by (simp add: fence_inv_def)
    qed
  qed
qed

lemma fence_inv_fold:
  "fence_inv lines i st \<Longrightarrow> drop i lines = rest \<Longrightarrow> i \<le> length lines \<Longrightarrow>
     fence_inv lines (length lines) (fold (fence_step lines) (enumerate i rest) st)"
proof (induction rest arbitrary: i st)
  case Nil
  then show ?case by simp
next
  case (Cons l rest)
  then have i: "i < length lines" by (cases "i < length lines") auto
  with Cons.prems(2) have l: "l = lines ! i" "drop (Suc i) lines = rest"
    by (metis Cons_nth_drop_Suc list.inject)+
  obtain op blocks where st: "st = (op, blocks)" by (cases st)
  have "fence_inv lines (Suc i) (fence_step lines (i, l) st)"
    using fence_inv_step Cons.prems(1) i l st by blast
  from Cons.IH [OF this l(2)] i show ?case by simp
qed

lemma fenceBlocks_facts:
  assumes "fenceBlocks content = Inr blocks" and "boundedLines content = Inr lines"
  shows "\<forall>b \<in> set blocks. block_ok lines b" "sorted_wrt (\<lambda>a b. fb_end a \<le> fb_start b) blocks"
proof -
  let ?st = "fold (fence_step lines) (enumerate 0 lines) (None, [])"
  have "fence_inv lines 0 (None, [])" by (simp add: fence_inv_def)
  from fence_inv_fold [OF this, of lines] have inv: "fence_inv lines (length lines) ?st" by simp
  obtain op closed where st: "?st = (op, closed)" by fastforce
  have "(\<forall>b \<in> set blocks. block_ok lines b) \<and> sorted_wrt (\<lambda>a b. fb_end a \<le> fb_start b) blocks"
  proof (cases op)
    case None
    with assms st have "blocks = closed" by (simp add: fenceBlocks_def)
    with inv st None show ?thesis by (simp add: fence_inv_def)
  next
    case (Some p)
    with assms st have "blocks = closed @ [block_of lines p (length lines) (length lines)]" by (simp add: fenceBlocks_def)
    with inv st Some show ?thesis
      by (auto simp: fence_inv_def sorted_wrt_append block_ok_def block_of_def)
  qed
  then show "\<forall>b \<in> set blocks. block_ok lines b" "sorted_wrt (\<lambda>a b. fb_end a \<le> fb_start b) blocks" by blast+
qed

lemma boundedLines_facts:
  assumes "boundedLines content = Inr lines"
  shows "length lines \<le> MAX_LINES" "\<forall>l \<in> set lines. 10 \<notin> set l"
proof -
  let ?all = "map drop_cr (js_split 10 content)"
  have lines: "lines = (if last ?all = [] then butlast ?all else ?all)" "length lines \<le> MAX_LINES"
    using assms by (auto simp: boundedLines_def Let_def throw_if_Inr_iff)
  show "length lines \<le> MAX_LINES" by (rule lines(2))
  have "10 \<notin> set (drop_cr x)" if "10 \<notin> set x" for x
    using that by (auto simp: drop_cr_def dest: in_set_butlastD)
  then have "\<forall>l \<in> set ?all. 10 \<notin> set l" by (auto dest: js_split_no_sep)
  moreover have "set lines \<subseteq> set ?all" using lines(1) by (auto dest: in_set_butlastD split: if_splits)
  ultimately show "\<forall>l \<in> set lines. 10 \<notin> set l" by blast
qed

text \<open>A component-wise match never crosses a path separator.\<close>

lemma slug_plain: "SLUG s \<Longrightarrow> s \<noteq> [] \<and> SLASH \<notin> set s \<and> DOT \<notin> set s"
proof -
  assume h: "SLUG s"
  have "s = js_join [45] (js_split 45 s)" by simp
  have "set (js_join [c] xs) \<subseteq> insert c (\<Union> (set ` set xs))" for c :: nat and xs
    by (induction xs rule: induct_list012) auto
  from this [of 45 "js_split 45 s"] have "\<forall>c \<in> set s. c = 45 \<or> slug_unit c" using h by (auto simp: SLUG_def)
  moreover have "s \<noteq> []" using h by (auto simp: SLUG_def)
  ultimately show ?thesis by (auto simp: slug_unit_def)
qed

section \<open>Properties\<close>

text \<open>
  The fenced blocks of a page are well formed: each starts at an opening fence, ends after it and
  within the page, its body is the lines between the fences (or up to the end of the page when it is never
  closed), and the blocks are in order and do not overlap, so replacing one never disturbs another.
\<close>

theorem fenceBlocks_ordered:
  assumes "fenceBlocks content = Inr blocks" and "boundedLines content = Inr lines"
  shows "length lines \<le> MAX_LINES \<and> sorted_wrt (\<lambda>a b. fb_end a \<le> fb_start b) blocks \<and>
    list_all (\<lambda>b. fb_start b < fb_end b \<and> fb_end b \<le> length lines \<and> FENCE_LINE (lines ! fb_start b) \<noteq> None \<and>
      (fb_body b = js_slice lines (fb_start b + 1) (fb_end b - 1) \<or>
       (fb_end b = length lines \<and> fb_body b = js_slice lines (fb_start b + 1) (fb_end b)))) blocks"
  using fenceBlocks_facts [OF assms] boundedLines_facts(1) [OF assms(2)]
  by (auto simp: list_all_iff block_ok_def)

theorem fenceBlocks_ordered_witness:
  "fenceBlocks (js ''```figure'' @ 10 # js ''flow'' @ 10 # js ''```'') =
     Inr [\<lparr>fb_start = 0, fb_end = 3, fb_indent = [], fb_info = js ''figure'', fb_body = [js ''flow'']\<rparr>] \<and>
   sorted_wrt (\<lambda>a b. fb_end a \<le> fb_start b)
     [\<lparr>fb_start = 0, fb_end = 3, fb_indent = [], fb_info = js ''figure'', fb_body = [js ''flow'']\<rparr>]"
proof -
  have l: "boundedLines (js ''```figure'' @ 10 # js ''flow'' @ 10 # js ''```'') = Inr [js ''```figure'', js ''flow'', js ''```'']"
    by (simp add: boundedLines_def drop_cr_def MAX_LINES_def)
  have h: "fenceBlocks (js ''```figure'' @ 10 # js ''flow'' @ 10 # js ''```'') =
     Inr [\<lparr>fb_start = 0, fb_end = 3, fb_indent = [], fb_info = js ''figure'', fb_body = [js ''flow'']\<rparr>]"
    unfolding fenceBlocks_def l
    by (simp add: fence_step_def FENCE_LINE_def closes_def block_of_def py_space_def lstrip_def strip_def lower_unit_def
        js_slice_def Let_def)
  from h fenceBlocks_ordered [OF h l] show ?thesis by blast
qed

end
