(* ===== verification/FigureSources.thy ===== *)
theory FigureSources
  imports FigureFences "HOL-Library.List_Lexorder"
begin

text \<open>
  The source-side figure checks (\<^verbatim>\<open>src/tools/figures/checks.mjs\<close>): filling the slots of a figure's markup,
  replacing fences and marker blocks, and the findings that bind each figure's JSON to its specification,
  images, engine, markup and evidence. The file system answers through a record of lookups.
\<close>

record fs =
  fs_isFile :: "jsstr \<Rightarrow> bool"
  fs_isDirectory :: "jsstr \<Rightarrow> bool"
  fs_readText :: "jsstr \<Rightarrow> jsstr option"
  fs_digest :: "jsstr \<Rightarrow> jsstr option"
  fs_readJson :: "jsstr \<Rightarrow> jsv option"
  fs_real :: "jsstr \<Rightarrow> jsstr"
  fs_names :: "jsstr \<Rightarrow> jsstr list"
  fs_cwd :: jsstr

datatype source_finding =
    MissingFile jsstr jsstr
  | Stale jsstr jsstr
  | StaleEngine jsstr
  | EvidenceNoFile jsstr jsstr
  | EvidenceGone jsstr jsstr
  | NoSize jsstr jsstr
  | StaleHtml jsstr
  | SpecWithoutJson jsstr
  | JsonWithoutSpec jsstr
  | DisabledKind jsstr kind bool
  | UnknownSlug jsstr jsstr bool
  | MarkerFailed check_error
  | PortableDiffers

datatype source_error =
    Check check_error
  | CannotRead jsstr
  | CannotParse jsstr

definition SPEC_DIR :: jsstr where "SPEC_DIR = js ''docs/figures''"
definition OUT_DIR :: jsstr where "OUT_DIR = js ''docs/assets/figures''"

section \<open>Slots\<close>

text \<open>\<open>template.replace(SLOT, ...)\<close>: one pass from the left.\<close>

function fill :: "jsstr \<Rightarrow> jsstr \<Rightarrow> jsstr \<Rightarrow> jsstr" where
  "fill base link s =
     (if s = [] then []
      else if js_starts s slot_base then base @ fill base link (drop 8 s)
      else if js_starts s slot_link then link @ fill base link (drop 8 s)
      else hd s # fill base link (tl s))"
  by pat_completeness auto
termination
  by (relation "measure (\<lambda>(base, link, s). length s)") auto

declare fill.simps [simp del]

definition fillSlots :: "jsv \<Rightarrow> jsstr \<Rightarrow> jsstr option \<Rightarrow> (check_error, jsstr) res" where
  "fillSlots meta base link =
     (case field meta (js ''html'') of
        JStr template \<Rightarrow>
          throw_if (template = []) (NoHtml (to_text (field meta (js ''slug''))))
            (let kept = (case link of
                   Some l \<Rightarrow> if l \<noteq> [] then template
                     else js_join [10] (filter (\<lambda>line. \<not> js_includes line slot_link) (js_split 10 template))
                 | None \<Rightarrow> js_join [10] (filter (\<lambda>line. \<not> js_includes line slot_link) (js_split 10 template)));
                 l = (case link of None \<Rightarrow> [] | Some l \<Rightarrow> l) in
             Inr (fill base (escapeHtml l) kept))
      | _ \<Rightarrow> Inl (NoHtml (to_text (field meta (js ''slug'')))))"

definition figureMeta :: "fs \<Rightarrow> jsstr \<Rightarrow> jsstr \<Rightarrow> (check_error, jsv) res" where
  "figureMeta f figuresDir slug =
     (let path = path_join [figuresDir, slug @ js ''.json''] in
      throw_if (\<not> SLUG slug) (BadSlug slug)
      (throw_if (\<not> fs_isFile f path) (NoFigureJson slug)
        (case fs_readJson f path of None \<Rightarrow> Inl (NoFigureJson slug) | Some v \<Rightarrow> Inr v)))"

section \<open>Replacing fences and marker blocks\<close>

text \<open>\<open>lines.splice(start, count, ...inserted)\<close>.\<close>

definition splice :: "'a list \<Rightarrow> nat \<Rightarrow> nat \<Rightarrow> 'a list \<Rightarrow> 'a list" where
  "splice xs start n inserted = take start xs @ inserted @ drop (start + n) xs"

definition block_lines :: "fence_block \<Rightarrow> jsstr \<Rightarrow> jsstr list" where
  "block_lines b rendered = map (\<lambda>line. fb_indent b @ line) (js_split 10 rendered)"

definition expand_fence_step ::
  "(jsstr \<Rightarrow> (check_error, jsstr) res) \<Rightarrow> fence_block \<Rightarrow> jsstr list \<times> check_error list \<Rightarrow> jsstr list \<times> check_error list" where
  "expand_fence_step render_slug b st =
     (let (lines, errors) = st in
      case render_slug (figureSlug (fb_body b)) of
        Inl e \<Rightarrow> (lines, errors @ [e])
      | Inr rendered \<Rightarrow> (splice lines (fb_start b) (fb_end b - fb_start b) (block_lines b rendered), errors))"

definition render_fence ::
  "fs \<Rightarrow> jsstr \<Rightarrow> jsstr \<Rightarrow> (jsstr \<Rightarrow> jsstr) option \<Rightarrow> jsstr \<Rightarrow> (check_error, jsstr) res" where
  "render_fence f base figuresDir link slug =
     res_bind (figureMeta f figuresDir slug) (\<lambda>meta. fillSlots meta base (map_option (\<lambda>l. l slug) link))"

definition expand ::
  "fs \<Rightarrow> jsstr \<Rightarrow> jsstr \<Rightarrow> jsstr \<Rightarrow> (jsstr \<Rightarrow> jsstr) option \<Rightarrow> (check_error, jsstr \<times> check_error list) res" where
  "expand f markdown base figuresDir link =
     res_bind (fenceBlocks markdown) (\<lambda>blocks.
       let figures = filter (\<lambda>b. fb_info b = js ''figure'') blocks;
           (lines, errors) = fold (expand_fence_step (render_fence f base figuresDir link)) (rev figures) (js_split 10 markdown, []) in
       Inr (js_join [10] lines, rev errors))"

definition marker_open :: jsstr where "marker_open = js ''<!-- figure:''"
definition marker_close :: jsstr where "marker_close = js ''<!-- /figure -->''"

text \<open>\<open>MARKER\<close> at the start of a text: the slug and the length of the match.\<close>

definition marker_at :: "jsstr \<Rightarrow> (jsstr \<times> nat) option" where
  "marker_at s =
     (if \<not> js_starts s marker_open then None
      else
        (let slug = takeWhile (\<lambda>c. slug_unit c \<or> c = 45) (drop 12 s); rest = drop (12 + length slug) s in
         if slug = [] \<or> \<not> js_starts rest (js '' -->'' @ [10]) then None
         else map_option (\<lambda>k. (slug, 12 + length slug + 5 + k + 16)) (find_sub marker_close (drop 5 rest))))"

definition marker_block :: "jsstr \<Rightarrow> jsstr \<Rightarrow> jsstr" where
  "marker_block slug block = marker_open @ slug @ js '' -->'' @ [10] @ block @ [10] @ marker_close"

lemma marker_at_positive: "marker_at s = Some (slug, n) \<Longrightarrow> 0 < n"
  by (auto simp: marker_at_def Let_def split: if_splits)

function refresh_loop ::
  "(jsstr \<Rightarrow> (check_error, jsstr) res) \<Rightarrow> nat \<Rightarrow> jsstr \<Rightarrow> jsstr \<times> check_error list" where
  "refresh_loop render_slug n s =
     (if s = [] then ([], [])
      else
        (case marker_at s of
           None \<Rightarrow> (let (t, es) = refresh_loop render_slug n (tl s) in (hd s # t, es))
         | Some (slug, len) \<Rightarrow>
             (let (t, es) = refresh_loop render_slug (Suc n) (drop len s); whole = take len s in
              if n \<ge> MAX_FIGURES then (whole @ t, es)
              else
                (case render_slug slug of
                   Inl e \<Rightarrow> (whole @ t, e # es)
                 | Inr block \<Rightarrow> (marker_block slug block @ t, es)))))"
  by pat_completeness auto
termination
  by (relation "measure (\<lambda>(render_slug, n, s). length s)") (auto dest: marker_at_positive)

declare refresh_loop.simps [simp del]

definition refreshMarkers :: "fs \<Rightarrow> jsstr \<Rightarrow> jsstr \<Rightarrow> jsstr \<Rightarrow> jsstr \<times> check_error list" where
  "refreshMarkers f content base figuresDir = refresh_loop (render_fence f base figuresDir None) 0 content"

definition relativeBase :: "fs \<Rightarrow> jsstr \<Rightarrow> jsstr \<Rightarrow> (check_error, jsstr) res" where
  "relativeBase f repo document =
     (let rel = path_relative (fs_cwd f) (fs_real f repo) (fs_real f document) in
      throw_if (escapesDirectory (fs_cwd f) (fs_real f repo) (fs_real f document)) (OutsideRepository document)
        (Inr (js_join [SLASH] (replicate (if rel = [] then 0 else length (js_split SLASH rel) - 1) dotdot_seg @
           js_split SLASH OUT_DIR))))"

section \<open>Findings\<close>

definition anchors_of :: "jsv \<Rightarrow> jsv list" where
  "anchors_of evidence =
     (case evidence of
        JArr xs \<Rightarrow> xs
      | JStr s \<Rightarrow> map (\<lambda>p. JStr (from_code_point p)) (code_points s)
      | _ \<Rightarrow> [])"

definition evidence_step :: "fs \<Rightarrow> jsstr \<Rightarrow> jsstr \<Rightarrow> jsv \<Rightarrow> source_finding list \<Rightarrow> (source_error, source_finding list) res" where
  "evidence_step f repo slug anchor found =
     (let content = to_text anchor;
          (path, symbol) = (case find_unit 58 content of
             None \<Rightarrow> (content, []) | Some k \<Rightarrow> (take k content, drop (k + 1) content));
          target = fs_real f (path_resolve (fs_cwd f) [repo, path]) in
      if symbol = [] \<or> \<not> inside (fs_cwd f) (fs_real f repo) target \<or> \<not> fs_isFile f target
      then Inr (found @ [EvidenceNoFile slug content])
      else
        (case fs_readText f target of
           None \<Rightarrow> Inl (CannotRead target)
         | Some body \<Rightarrow>
             Inr (if \<forall>part \<in> set (js_split DOT symbol). js_includes body part then found
                  else found @ [EvidenceGone slug content])))"

definition evidenceErrors :: "fs \<Rightarrow> jsstr \<Rightarrow> jsstr \<Rightarrow> jsv \<Rightarrow> (source_error, source_finding list) res" where
  "evidenceErrors f repo slug evidence = fold_res (evidence_step f repo slug) (take MAX_FIGURES (anchors_of evidence)) []"

definition bound_files :: "jsstr \<Rightarrow> (jsstr \<times> jsstr) list" where
  "bound_files slug =
     [(SPEC_DIR @ [SLASH] @ slug @ js ''.ts'', js ''spec_sha256''), (OUT_DIR @ [SLASH] @ slug @ js ''.svg'', js ''svg_sha256''),
      (OUT_DIR @ [SLASH] @ slug @ js ''.static.svg'', js ''static_sha256'')]"

definition hash_step :: "fs \<Rightarrow> jsstr \<Rightarrow> jsstr \<Rightarrow> jsv \<Rightarrow> jsstr \<times> jsstr \<Rightarrow> source_finding list \<Rightarrow> (source_error, source_finding list) res" where
  "hash_step f repo slug meta pk found =
     (let (path, key) = pk; full = path_join [repo, path] in
      if \<not> fs_isFile f full then Inr (found @ [MissingFile slug path])
      else
        (case fs_digest f full of
           None \<Rightarrow> Inl (CannotRead full)
         | Some d \<Rightarrow> Inr (if JStr d = field meta key then found else found @ [Stale slug path])))"

definition hashErrors :: "fs \<Rightarrow> jsstr \<Rightarrow> jsstr \<Rightarrow> jsv \<Rightarrow> jsstr \<Rightarrow> (source_error, source_finding list) res" where
  "hashErrors f repo slug meta engine =
     res_bind (fold_res (hash_step f repo slug meta) (bound_files slug) []) (\<lambda>found.
       Inr (if field (field meta (js ''engine'')) (js ''sha256'') = JStr engine then found else found @ [StaleEngine slug]))"

text \<open>\<open>Number.isInteger(v) && v > 0\<close>, for a number below \<open>1e21\<close>, which prints as digits.\<close>

fun positive_integer :: "jsv \<Rightarrow> bool" where
  "positive_integer (JNum s) = (s \<noteq> [] \<and> (\<forall>c \<in> set s. 48 \<le> c \<and> c \<le> 57) \<and> (\<exists>c \<in> set s. c \<noteq> 48))"
| "positive_integer _ = False"

definition sizeErrors :: "jsstr \<Rightarrow> jsv \<Rightarrow> source_finding list" where
  "sizeErrors slug meta =
     map (NoSize slug)
       (filter (\<lambda>prefix. \<not> (positive_integer (field meta (prefix @ js ''width'')) \<and>
           positive_integer (field meta (prefix @ js ''height'')))) [[], js ''static_''])"

text \<open>\<open>markup(meta)\<close> of a JSON value, or \<open>None\<close> for the \<open>TypeError\<close> of a value that is not a string.\<close>

definition json_markup :: "jsv \<Rightarrow> jsstr option" where
  "json_markup meta =
     (let lines = field meta (js ''text''); title = field meta (js ''title''); alt = field meta (js ''alt'') in
      if is_array lines \<and> (\<forall>l \<in> set (elems lines). isStr l) \<and> isStr title \<and> isStr alt
      then Some (markup \<lparr>me_slug = to_text (field meta (js ''slug'')), me_title = str_of title, me_alt = str_of alt,
        me_text = map str_of (elems lines), me_width = to_text (field meta (js ''width'')),
        me_height = to_text (field meta (js ''height'')), me_static_width = to_text (field meta (js ''static_width'')),
        me_static_height = to_text (field meta (js ''static_height''))\<rparr>)
      else None)"

definition htmlErrors :: "jsstr \<Rightarrow> jsv \<Rightarrow> source_finding list" where
  "htmlErrors slug meta =
     (let html = field meta (js ''html'') in
      if (case json_markup meta of None \<Rightarrow> html = JNull | Some e \<Rightarrow> html = JStr e) then [] else [StaleHtml slug])"

definition stems :: "fs \<Rightarrow> jsstr \<Rightarrow> jsstr \<Rightarrow> jsstr list" where
  "stems f dir ext =
     (if \<not> fs_isDirectory f dir then []
      else js_uniq (map (\<lambda>name. take (length name - length ext) name)
        (filter (\<lambda>name. js_ends name ext) (fs_names f dir))))"

definition filesDigest :: "fs \<Rightarrow> (jsstr \<Rightarrow> jsstr) \<Rightarrow> jsstr \<Rightarrow> jsstr list \<Rightarrow> (source_error, jsstr) res" where
  "filesDigest f sha256 repo rels =
     res_bind (map_res (\<lambda>rel. case fs_digest f (path_join [repo, rel]) of
         None \<Rightarrow> Inl (CannotRead rel) | Some d \<Rightarrow> Inr (d @ js ''  '' @ rel @ [10])) rels)
       (\<lambda>lines. Inr (sha256 (concat lines)))"

definition ENGINE_FILES :: "jsstr list" where
  "ENGINE_FILES =
     [js ''tools/figures/third_party/interfig/upstream/src/svg.ts'', js ''tools/figures/third_party/interfig/upstream/src/geometry.ts'',
      js ''tools/figures/third_party/interfig/upstream/src/model.ts'', js ''tools/figures/core.mjs'']"

definition engineHash :: "fs \<Rightarrow> (jsstr \<Rightarrow> jsstr) \<Rightarrow> jsstr \<Rightarrow> (source_error, jsstr) res" where
  "engineHash f sha256 repo = filesDigest f sha256 repo ENGINE_FILES"

definition figure_step ::
  "fs \<Rightarrow> jsstr \<Rightarrow> jsstr \<Rightarrow> jsstr \<Rightarrow> source_finding list \<Rightarrow> (source_error, source_finding list) res" where
  "figure_step f repo engine slug found =
     (let path = path_join [repo, OUT_DIR, slug @ js ''.json''] in
      case fs_readJson f path of
        None \<Rightarrow> Inl (CannotParse path)
      | Some meta \<Rightarrow>
          (let sizes = sizeErrors slug meta in
           res_bind (hashErrors f repo slug meta engine) (\<lambda>hashes.
           res_bind (evidenceErrors f repo slug (field meta (js ''evidence''))) (\<lambda>evidence.
             Inr (found @ hashes @ evidence @ sizes @ (if sizes = [] then htmlErrors slug meta else []))))))"

record figures_known = fk_errors :: "source_finding list" fk_known :: "jsstr list" fk_specs :: "jsstr list"

definition figureSourceErrors ::
  "fs \<Rightarrow> (jsstr \<Rightarrow> jsstr) \<Rightarrow> jsstr \<Rightarrow> (source_error, figures_known) res" where
  "figureSourceErrors f sha256 repo =
     (let specs = stems f (path_join [repo, SPEC_DIR]) (js ''.ts''); metas = stems f (path_join [repo, OUT_DIR]) (js ''.json'');
          both = sort (filter (\<lambda>s. s \<in> set metas) specs) in
      throw_if (length (js_uniq (specs @ metas)) > MAX_FIGURES) (Check TooManyFigures)
      (res_bind (if both = [] then Inr [] else engineHash f sha256 repo) (\<lambda>engine.
       res_bind (fold_res (figure_step f repo engine) both
           (map SpecWithoutJson (sort (filter (\<lambda>s. s \<notin> set metas) specs)) @
            map JsonWithoutSpec (sort (filter (\<lambda>s. s \<notin> set specs) metas)))) (\<lambda>errors.
         Inr \<lparr>fk_errors = errors, fk_known = both, fk_specs = specs\<rparr>))))"

section \<open>Portable pages\<close>

definition trim_slashes :: "jsstr \<Rightarrow> jsstr" where
  "trim_slashes s = rev (dropWhile (\<lambda>c. c = SLASH) (rev s))"

definition portablePage :: "fs \<Rightarrow> jsstr \<Rightarrow> jsstr \<Rightarrow> jsstr option \<Rightarrow> jsstr \<Rightarrow> (check_error, jsstr \<times> check_error list) res" where
  "portablePage f path content base repo =
     (case base of
        None \<Rightarrow> res_bind (relativeBase f repo path) (\<lambda>b. Inr (refreshMarkers f content b (path_join [repo, OUT_DIR])))
      | Some url \<Rightarrow>
          (let site = trim_slashes url; stem = path_stem path;
               link = (\<lambda>slug. site @ js ''/wiki/'' @ stem @ js ''/#fig-'' @ slug) in
           expand f content (site @ js ''/assets/figures'') (path_join [repo, OUT_DIR]) (Some link)))"

text \<open>\<open>portable\<close>: the findings, or the files to write.\<close>

definition portable ::
  "fs \<Rightarrow> (jsstr \<times> jsstr) list \<Rightarrow> jsstr option \<Rightarrow> jsstr \<Rightarrow>
   (check_error, (jsstr \<times> check_error) list \<times> (jsstr \<times> jsstr) list) res" where
  "portable f files base repo =
     res_bind (map_res (\<lambda>(path, original). res_bind (portablePage f path original base repo)
         (\<lambda>(content, errors). Inr (path, original, content, errors))) files) (\<lambda>pages.
       let errors = concat (map (\<lambda>(path, _, _, es). map (\<lambda>e. (path, e)) es) pages) in
       Inr (if errors \<noteq> [] then (errors, [])
            else ([], map (\<lambda>(path, _, content, _). (path, content))
              (filter (\<lambda>(path, original, content, _). content \<noteq> original) pages))))"

section \<open>Lemmas: slots\<close>

text \<open>A text in which no slot opens, at its end either.\<close>

fun clean :: "jsstr \<Rightarrow> bool" where
  "clean [] = True"
| "clean [c] = (c \<noteq> 123)"
| "clean (c # d # s) = (\<not> (c = 123 \<and> d = 123) \<and> clean (d # s))"

lemma clean_append: "clean a \<Longrightarrow> clean b \<Longrightarrow> clean (a @ b)"
proof (induction a rule: clean.induct)
  case (2 c)
  then show ?case by (cases b) auto
qed auto

lemma clean_no_brace: "123 \<notin> set s \<Longrightarrow> clean s"
  by (induction s rule: clean.induct) auto

lemma clean_closed: "\<not> js_includes s [123, 123] \<Longrightarrow> c \<noteq> 123 \<Longrightarrow> clean (s @ [c])"
proof (induction s rule: clean.induct)
  case (3 a b s)
  from "3.prems"(1) have ab: "\<not> (a = 123 \<and> b = 123)" and rest: "\<not> js_includes (b # s) [123, 123]"
    by (auto simp: js_includes_def split: if_splits)
  from "3.IH" [OF rest "3.prems"(2)] ab show ?case by simp
qed simp_all

lemma clean_escape: "c \<noteq> 123 \<Longrightarrow> clean (c # r) \<Longrightarrow> clean (escapeHtml s @ c # r)"
proof -
  assume c: "c \<noteq> 123" and r: "clean (c # r)"
  have esc: "clean (escapeHtml s @ [c])"
    using clean_closed [OF _ c] escape_braces_no_slot by (simp add: escapeHtml_def)
  have "clean r" using r by (cases r) auto
  from clean_append [OF esc this] show ?thesis by simp
qed

lemma fill_Nil [simp]: "fill b l [] = []"
  by (simp add: fill.simps)

lemma fill_clean: "clean t \<Longrightarrow> fill b l (t @ rest) = t @ fill b l rest"
proof (induction t rule: clean.induct)
  case (2 c)
  then show ?case by (subst fill.simps) (simp add: slot_base_def slot_link_def)
next
  case (3 c d s)
  then have "fill b l ((c # d # s) @ rest) = c # fill b l ((d # s) @ rest)"
    by (subst fill.simps) (auto simp: slot_base_def slot_link_def)
  with 3 show ?case by simp
qed simp

lemma fill_slots:
  "fill b l (slot_base @ rest) = b @ fill b l rest"
  "fill b l (slot_link @ rest) = l @ fill b l rest"
  by (subst fill.simps, simp add: slot_base_def slot_link_def)+

definition seg_open :: "meta \<Rightarrow> jsstr" where
  "seg_open m =
     js ''<figure '' @ attr_text ''class'' (js ''praetor-figure'') @ js '' '' @ attr_text ''id'' (js ''fig-'' @ me_slug m) @ js '' '' @
     attr_text ''data-figure'' (me_slug m) @ js '' '' @ attr_text ''aria-describedby'' (js ''fig-'' @ me_slug m @ js ''-text'') @ js ''>'' @
     [10] @ js ''<picture>'' @ [10] @ js ''<source '' @ attr_text ''media'' (js ''(prefers-reduced-motion: reduce)'') @ js '' srcset='' @ [34]"

definition seg_still :: "meta \<Rightarrow> jsstr" where
  "seg_still m =
     js ''/'' @ me_slug m @ js ''.static.svg'' @ [34] @ js '' '' @ attr_text ''width'' (me_static_width m) @ js '' '' @
     attr_text ''height'' (me_static_height m) @ js ''>'' @ [10] @ js ''<img src='' @ [34]"

definition seg_image :: "meta \<Rightarrow> jsstr" where
  "seg_image m =
     js ''/'' @ me_slug m @ js ''.svg'' @ [34] @ js '' alt='' @ [34] @ escapeHtml (me_alt m) @ [34] @ js '' '' @
     attr_text ''width'' (me_width m) @ js '' '' @ attr_text ''height'' (me_height m) @ js '' '' @ attr_text ''loading'' (js ''lazy'') @ js ''>'' @
     [10] @ js ''</picture>'' @ [10] @ js ''<figcaption>'' @ escapeHtml (me_title m) @ js ''</figcaption>'' @ [10] @ js ''</figure>'' @ [10] @
     js ''<p><a href='' @ [34]"

definition seg_items :: "meta \<Rightarrow> jsstr" where
  "seg_items m =
     [34] @ js ''>Open the interactive figure</a></p>'' @ [10] @ js ''<details '' @ attr_text ''class'' (js ''praetor-figure__text'') @ js '' '' @
     attr_text ''id'' (js ''fig-'' @ me_slug m @ js ''-text'') @ js ''><summary>Text description</summary>'' @ [10] @ js ''<ul>'' @ [10] @
     js_join [10] (map (\<lambda>line. js ''<li>'' @ escapeHtml line @ js ''</li>'') (me_text m)) @ [10] @ js ''</ul>'' @ [10] @ js ''</details>''"

lemma markup_with_segments:
  "markup_with base link m = seg_open m @ base @ seg_still m @ base @ seg_image m @ link @ seg_items m"
  by (simp add: markup_with_def seg_open_def seg_still_def seg_image_def seg_items_def attr_text_def Let_def)

definition plain_meta :: "meta \<Rightarrow> bool" where
  "plain_meta m \<longleftrightarrow>
     123 \<notin> set (me_slug m) \<and> 123 \<notin> set (me_width m) \<and> 123 \<notin> set (me_height m) \<and>
     123 \<notin> set (me_static_width m) \<and> 123 \<notin> set (me_static_height m)"

lemma clean_attr: "123 \<notin> set (js name) \<Longrightarrow> 123 \<notin> set v \<Longrightarrow> clean (attr_text name v)"
  by (rule clean_no_brace) (simp add: attr_text_def)

lemma clean_seg_open: "plain_meta m \<Longrightarrow> clean (seg_open m)"
  by (rule clean_no_brace) (simp add: seg_open_def attr_text_def plain_meta_def)

lemma clean_seg_still: "plain_meta m \<Longrightarrow> clean (seg_still m)"
  by (rule clean_no_brace) (simp add: seg_still_def attr_text_def plain_meta_def)

lemma clean_lines: "clean (js_join [10] (map (\<lambda>line. js ''<li>'' @ escapeHtml line @ js ''</li>'') xs))"
proof (induction xs)
  case (Cons x xs)
  have x: "clean (js ''<li>'' @ escapeHtml x @ js ''</li>'')"
    using clean_escape [of 60 "js ''/li>''" x] clean_append [of "js ''<li>''" "escapeHtml x @ js ''</li>''"] by simp
  show ?case
  proof (cases "xs = []")
    case False
    then have "js_join [10] (map (\<lambda>line. js ''<li>'' @ escapeHtml line @ js ''</li>'') (x # xs)) =
        (js ''<li>'' @ escapeHtml x @ js ''</li>'') @ [10] @ js_join [10] (map (\<lambda>line. js ''<li>'' @ escapeHtml line @ js ''</li>'') xs)"
      by (simp add: js_join_Cons)
    moreover have "clean [10]" by simp
    ultimately show ?thesis using x Cons.IH clean_append by metis
  qed (use x in simp)
qed simp

lemma clean_seg_image: "plain_meta m \<Longrightarrow> clean (seg_image m)"
proof -
  assume m: "plain_meta m"
  let ?front = "js ''/'' @ me_slug m @ js ''.svg'' @ [34] @ js '' alt='' @ [34]"
  let ?mid = "js '' '' @ attr_text ''width'' (me_width m) @ js '' '' @ attr_text ''height'' (me_height m) @ js '' '' @
     attr_text ''loading'' (js ''lazy'') @ js ''>'' @ [10] @ js ''</picture>'' @ [10] @ js ''<figcaption>''"
  let ?tail = "js ''/figcaption>'' @ [10] @ js ''</figure>'' @ [10] @ js ''<p><a href='' @ [34]"
  have "clean (60 # ?tail)" by (rule clean_no_brace) simp
  then have t: "clean (escapeHtml (me_title m) @ 60 # ?tail)" by (rule clean_escape [rotated]) simp
  have "clean (34 # ?mid)" by (rule clean_no_brace) (use m in \<open>simp add: attr_text_def plain_meta_def\<close>)
  from clean_append [OF this t] have "clean (34 # (?mid @ escapeHtml (me_title m) @ 60 # ?tail))" by simp
  then have a: "clean (escapeHtml (me_alt m) @ 34 # (?mid @ escapeHtml (me_title m) @ 60 # ?tail))"
    by (rule clean_escape [rotated]) simp
  have "clean ?front" by (rule clean_no_brace) (use m in \<open>simp add: plain_meta_def\<close>)
  from clean_append [OF this a] show ?thesis by (simp add: seg_image_def)
qed

lemma clean_seg_items: "plain_meta m \<Longrightarrow> clean (seg_items m)"
proof -
  assume m: "plain_meta m"
  let ?front = "[34] @ js ''>Open the interactive figure</a></p>'' @ [10] @ js ''<details '' @ attr_text ''class'' (js ''praetor-figure__text'') @
     js '' '' @ attr_text ''id'' (js ''fig-'' @ me_slug m @ js ''-text'') @ js ''><summary>Text description</summary>'' @ [10] @ js ''<ul>'' @ [10]"
  let ?tail = "[10] @ js ''</ul>'' @ [10] @ js ''</details>''"
  have f: "clean ?front" by (rule clean_no_brace) (use m in \<open>simp add: attr_text_def plain_meta_def\<close>)
  have b: "clean ?tail" by (rule clean_no_brace) simp
  from clean_append [OF f clean_append [OF clean_lines b]] show ?thesis by (simp add: seg_items_def)
qed

lemma fill_markup:
  assumes "plain_meta m"
  shows "fill b l (markup m) = markup_with b l m"
proof -
  have "fill b l (seg_items m) = seg_items m" using fill_clean [OF clean_seg_items [OF assms], of b l "[]"] by simp
  then show ?thesis
    unfolding markup_def markup_with_segments
    by (simp only: fill_clean [OF clean_seg_open [OF assms]] fill_clean [OF clean_seg_still [OF assms]]
        fill_clean [OF clean_seg_image [OF assms]] fill_slots)
qed

section \<open>Lemmas: replacing fences\<close>

text \<open>The same replacement written forwards: copy up to a block, write its lines, go on after it.\<close>

fun assemble :: "(fence_block \<Rightarrow> jsstr list option) \<Rightarrow> nat \<Rightarrow> fence_block list \<Rightarrow> jsstr list \<Rightarrow> jsstr list" where
  "assemble r i [] lines = drop i lines"
| "assemble r i (b # bs) lines =
     js_slice lines i (fb_start b) @
     (case r b of Some new \<Rightarrow> new | None \<Rightarrow> js_slice lines (fb_start b) (fb_end b)) @
     assemble r (fb_end b) bs lines"

definition new_lines :: "(jsstr \<Rightarrow> (check_error, jsstr) res) \<Rightarrow> fence_block \<Rightarrow> jsstr list option" where
  "new_lines render_slug b =
     (case render_slug (figureSlug (fb_body b)) of Inl _ \<Rightarrow> None | Inr rendered \<Rightarrow> Some (block_lines b rendered))"

lemma splice_drop:
  assumes "i \<le> start" and "start + n \<le> length lines"
  shows "drop i (splice lines start n new) = js_slice lines i start @ new @ drop (start + n) lines"
  using assms by (simp add: splice_def js_slice_def drop_take)

lemma expand_fold:
  assumes "sorted_wrt (\<lambda>a b. fb_end a \<le> fb_start b) bs" and "\<forall>b \<in> set bs. fb_start b < fb_end b \<and> fb_end b \<le> length lines"
    and "\<forall>b \<in> set bs. i \<le> fb_start b"
  shows "take i (fst (fold (expand_fence_step r) (rev bs) (lines, es))) = take i lines \<and>
    drop i (fst (fold (expand_fence_step r) (rev bs) (lines, es))) = assemble (new_lines r) i bs lines"
  using assms
proof (induction bs arbitrary: i es)
  case (Cons b bs)
  have b: "fb_start b < fb_end b" "fb_end b \<le> length lines" "i \<le> fb_start b" using Cons.prems by auto
  let ?rest = "fold (expand_fence_step r) (rev bs) (lines, es)"
  have ih: "take (fb_end b) (fst ?rest) = take (fb_end b) lines"
      "drop (fb_end b) (fst ?rest) = assemble (new_lines r) (fb_end b) bs lines"
    using Cons.IH [of "fb_end b" es] Cons.prems by auto
  obtain L E where rest: "?rest = (L, E)" by fastforce
  have L: "take (fb_end b) L = take (fb_end b) lines" "drop (fb_end b) L = assemble (new_lines r) (fb_end b) bs lines"
    using ih rest by auto
  have len: "fb_end b \<le> length L" using arg_cong [OF L(1), of length] b(2) by simp
  have slice: "js_slice L p q = js_slice lines p q" if "p \<le> q" "q \<le> fb_end b" for p q
  proof -
    have "take q L = take q lines" using L(1) that(2) by (metis take_take min_absorb1)
    then show ?thesis using that(1) by (simp add: js_slice_def flip: drop_take)
  qed
  have pre: "take i L = take i lines" using L(1) b by (metis take_take min_absorb1 less_imp_le order_trans)
  have whole: "fold (expand_fence_step r) (rev (b # bs)) (lines, es) = expand_fence_step r b (L, E)" by (simp add: rest)
  show ?case
  proof (cases "r (figureSlug (fb_body b))")
    case (Inl e)
    have "drop i L = js_slice L i (fb_start b) @ js_slice L (fb_start b) (fb_end b) @ drop (fb_end b) L"
      using b len by (metis append.assoc js_slice_append less_imp_le js_slice_def append_take_drop_id le_add_diff_inverse2 drop_drop order_trans)
    moreover have "new_lines r b = None" using Inl by (simp add: new_lines_def)
    ultimately show ?thesis unfolding whole using Inl pre slice L(2) b
      by (simp add: expand_fence_step_def)
  next
    case (Inr rendered)
    have "drop i (splice L (fb_start b) (fb_end b - fb_start b) (block_lines b rendered)) =
        js_slice L i (fb_start b) @ block_lines b rendered @ drop (fb_end b) L"
      using splice_drop [of i "fb_start b" "fb_end b - fb_start b" L] b len by simp
    moreover have "take i (splice L (fb_start b) (fb_end b - fb_start b) (block_lines b rendered)) = take i L"
      using b len by (simp add: splice_def)
    moreover have "new_lines r b = Some (block_lines b rendered)" using Inr by (simp add: new_lines_def)
    ultimately show ?thesis unfolding whole using Inr pre slice L(2) b
      by (simp add: expand_fence_step_def)
  qed
qed simp

section \<open>Lemmas: findings\<close>

interpretation hash_findings: finding_step "hash_step f repo slug meta" for f repo slug meta
  by unfold_locales (auto simp: hash_step_def Let_def split: prod.splits if_splits option.splits)

lemma hash_step_clean:
  "hash_step f repo slug meta (path, key) [] = Inr [] \<Longrightarrow> fs_isFile f (path_join [repo, path]) \<and>
     (\<exists>d. fs_digest f (path_join [repo, path]) = Some d \<and> field meta key = JStr d)"
  by (auto simp: hash_step_def Let_def split: if_splits option.splits)

text \<open>What binds a figure: its three files exist with the recorded digests, and so does the engine's.\<close>

definition bound :: "fs \<Rightarrow> jsstr \<Rightarrow> jsstr \<Rightarrow> jsv \<Rightarrow> jsstr \<Rightarrow> bool" where
  "bound f repo slug meta engine \<longleftrightarrow>
     (\<forall>(path, key) \<in> set (bound_files slug). fs_isFile f (path_join [repo, path]) \<and>
        (\<exists>d. fs_digest f (path_join [repo, path]) = Some d \<and> field meta key = JStr d)) \<and>
     field (field meta (js ''engine'')) (js ''sha256'') = JStr engine \<and>
     sizeErrors slug meta = [] \<and> htmlErrors slug meta = []"

interpretation figure_findings: finding_step "figure_step f repo engine" for f repo engine
  by unfold_locales (auto simp: figure_step_def Let_def res_bind_Inr_iff split: option.splits)

lemma figure_step_clean:
  assumes "figure_step f repo engine slug found = Inr []"
  shows "found = [] \<and> (\<exists>meta. fs_readJson f (path_join [repo, OUT_DIR, slug @ js ''.json'']) = Some meta \<and>
    bound f repo slug meta engine \<and> evidenceErrors f repo slug (field meta (js ''evidence'')) = Inr [])"
proof -
  from assms obtain meta where m: "fs_readJson f (path_join [repo, OUT_DIR, slug @ js ''.json'']) = Some meta"
    and found: "found = []" and h: "hashErrors f repo slug meta engine = Inr []"
    and e: "evidenceErrors f repo slug (field meta (js ''evidence'')) = Inr []"
    and z: "sizeErrors slug meta = []" and html: "htmlErrors slug meta = []"
    by (auto simp: figure_step_def Let_def res_bind_Inr_iff split: option.splits if_splits)
  from h have engine: "field (field meta (js ''engine'')) (js ''sha256'') = JStr engine"
    and files: "fold_res (hash_step f repo slug meta) (bound_files slug) [] = Inr []"
    by (auto simp: hashErrors_def res_bind_Inr_iff split: if_splits)
  from hash_findings.run_clean [OF files] hash_step_clean engine z html have "bound f repo slug meta engine" by (fastforce simp: bound_def)
  with found m e show ?thesis by blast
qed

lemma figure_fold_clean:
  assumes "fold_res (figure_step f repo engine) slugs found = Inr []"
  shows "found = [] \<and> (\<forall>slug \<in> set slugs. \<exists>meta. fs_readJson f (path_join [repo, OUT_DIR, slug @ js ''.json'']) = Some meta \<and>
       bound f repo slug meta engine \<and> evidenceErrors f repo slug (field meta (js ''evidence'')) = Inr [])"
  using figure_findings.run_clean [OF assms] figure_step_clean by blast

section \<open>Properties\<close>

text \<open>
  C25. Filling the slots of a rendered figure is a single pass over the template: whatever the title, the
  alternative text and the description hold, and even when the base or the link itself looks like a slot,
  the result is the template with the base and the escaped link in their places and nothing else changed.
\<close>

theorem fillSlots_single_pass:
  assumes "field meta (js ''html'') = JStr (markup m)" and "link \<noteq> []"
    and "123 \<notin> set (me_slug m @ me_width m @ me_height m @ me_static_width m @ me_static_height m)"
  shows "fillSlots meta base (Some link) = Inr (markup_with base (escapeHtml link) m)"
proof -
  have "plain_meta m" using assms(3) by (simp add: plain_meta_def)
  moreover have "markup m \<noteq> []" by (simp add: markup_def markup_with_segments seg_open_def)
  ultimately show ?thesis using assms(1,2) by (simp add: fillSlots_def fill_markup)
qed

definition sample_meta :: meta where
  "sample_meta = \<lparr>me_slug = js ''flow'', me_title = js ''{{base}}'', me_alt = js ''A'', me_text = [js ''A to B.''],
     me_width = js ''640'', me_height = js ''480'', me_static_width = js ''640'', me_static_height = js ''400''\<rparr>"

theorem fillSlots_single_pass_witness:
  "fillSlots (JObj [(js ''html'', JStr (markup sample_meta))]) (js ''{{link}}'') (Some (js ''https://x/'')) =
     Inr (markup_with (js ''{{link}}'') (escapeHtml (js ''https://x/'')) sample_meta)"
  by (rule fillSlots_single_pass) (simp_all add: sample_meta_def)

text \<open>
  C26. Expanding a page replaces its figure fences and nothing else: the result is the page copied line by
  line, with each fence whose figure renders replaced by the rendered lines at the fence's indent, and every
  other line, a fence that fails included, left as it is. (The source splices from the last fence
  backwards.)
\<close>

theorem expand_replaces_fences:
  assumes "expand f markdown base figuresDir link = Inr (content, errors)" and "fenceBlocks markdown = Inr blocks"
  shows "content = js_join [10] (assemble (new_lines (render_fence f base figuresDir link)) 0
    (filter (\<lambda>b. fb_info b = js ''figure'') blocks) (js_split 10 markdown))"
proof -
  let ?r = "render_fence f base figuresDir link"
  let ?figs = "filter (\<lambda>b. fb_info b = js ''figure'') blocks"
  obtain lines where lines: "boundedLines markdown = Inr lines"
    using assms(2) by (auto simp: fenceBlocks_def res_bind_Inr_iff)
  note facts = fenceBlocks_facts [OF assms(2) lines]
  have "length lines \<le> length (js_split 10 markdown)"
    using lines by (auto simp: boundedLines_def Let_def throw_if_Inr_iff)
  with facts have "\<forall>b \<in> set ?figs. fb_start b < fb_end b \<and> fb_end b \<le> length (js_split 10 markdown)"
    by (auto simp: block_ok_def)
  from expand_fold [OF sorted_wrt_filter [OF facts(2)] this, of 0 ?r "[]"]
  have "fst (fold (expand_fence_step ?r) (rev ?figs) (js_split 10 markdown, [])) = assemble (new_lines ?r) 0 ?figs (js_split 10 markdown)"
    by simp
  with assms show ?thesis by (auto simp: expand_def Let_def split: prod.splits)
qed

definition empty_fs :: fs where
  "empty_fs = \<lparr>fs_isFile = (\<lambda>_. False), fs_isDirectory = (\<lambda>_. False), fs_readText = (\<lambda>_. None), fs_digest = (\<lambda>_. None),
     fs_readJson = (\<lambda>_. None), fs_real = (\<lambda>p. p), fs_names = (\<lambda>_. []), fs_cwd = js ''/r''\<rparr>"

theorem expand_replaces_fences_witness:
  "expand empty_fs (js ''plain'') [] [] None = Inr (js ''plain'', []) \<and>
   js ''plain'' = js_join [10] (assemble (new_lines (render_fence empty_fs [] [] None)) 0 [] (js_split 10 (js ''plain'')))"
proof -
  have b: "fenceBlocks (js ''plain'') = Inr []"
    by (simp add: fenceBlocks_def boundedLines_def drop_cr_def MAX_LINES_def fence_step_def FENCE_LINE_def py_space_def Let_def)
  have h: "expand empty_fs (js ''plain'') [] [] None = Inr (js ''plain'', [])"
    unfolding expand_def b by simp
  from h expand_replaces_fences [OF h b] show ?thesis by simp
qed

text \<open>
  When the figure sources have no finding, every figure is bound to what it was rendered from: each
  specification has its JSON and each JSON its specification, and for every figure the specification and both images exist with
  exactly the digests the JSON records, the engine digest is the current one, the sizes are positive whole
  numbers, the recorded markup is the one the renderer writes, and no evidence anchor is stale.
\<close>

lemma figureSourceErrors_bound:
  assumes "figureSourceErrors f sha256 repo = Inr known" and "fk_errors known = []"
  shows "set (stems f (path_join [repo, OUT_DIR]) (js ''.json'')) = set (fk_specs known) \<and>
    set (fk_known known) = set (fk_specs known) \<and>
    (\<forall>slug \<in> set (fk_known known). \<exists>meta engine. engineHash f sha256 repo = Inr engine \<and>
       fs_readJson f (path_join [repo, OUT_DIR, slug @ js ''.json'']) = Some meta \<and> bound f repo slug meta engine \<and>
       evidenceErrors f repo slug (field meta (js ''evidence'')) = Inr [])"
proof -
  let ?specs = "stems f (path_join [repo, SPEC_DIR]) (js ''.ts'')"
  let ?metas = "stems f (path_join [repo, OUT_DIR]) (js ''.json'')"
  let ?both = "sort (filter (\<lambda>s. s \<in> set ?metas) ?specs)"
  from assms obtain engine where
    engine: "(if ?both = [] then Inr [] else engineHash f sha256 repo) = Inr engine" and
    run: "fold_res (figure_step f repo engine) ?both
           (map SpecWithoutJson (sort (filter (\<lambda>s. s \<notin> set ?metas) ?specs)) @
            map JsonWithoutSpec (sort (filter (\<lambda>s. s \<notin> set ?specs) ?metas))) = Inr []" and
    known: "fk_known known = ?both" "fk_specs known = ?specs"
    unfolding figureSourceErrors_def Let_def by (auto simp: throw_if_Inr_iff res_bind_Inr_iff)
  note clean = figure_fold_clean [OF run]
  have sub: "set ?specs \<subseteq> set ?metas" "set ?metas \<subseteq> set ?specs"
  proof -
    have "sort (filter (\<lambda>s. s \<notin> set ?metas) ?specs) = []" "sort (filter (\<lambda>s. s \<notin> set ?specs) ?metas) = []"
      using clean by simp_all
    then have "set (sort (filter (\<lambda>s. s \<notin> set ?metas) ?specs)) = {}" "set (sort (filter (\<lambda>s. s \<notin> set ?specs) ?metas)) = {}"
      by (metis list.set(1))+
    then show "set ?specs \<subseteq> set ?metas" "set ?metas \<subseteq> set ?specs" by auto
  qed
  have both: "set ?both = set ?specs" using sub by auto
  have "engineHash f sha256 repo = Inr engine" if "slug \<in> set ?both" for slug
  proof -
    have "?both \<noteq> []" using that by (metis empty_iff list.set(1))
    with engine show ?thesis by (simp only: if_False)
  qed
  with clean known sub both show ?thesis by (metis subset_antisym)
qed

text \<open>A repository with one figure whose files all have the digest \<open>d\<close> and whose texts all name the figure.\<close>

definition one_page :: jsstr where
  "one_page = 39 # js ''./figures/astro.mjs'' @ 39 # [10] @ [96, 96, 96] @ js ''figure'' @ [10] @ js ''flow'' @ [10] @ [96, 96, 96] @ [10]"

definition one_meta :: jsv where
  "one_meta = JObj
     [(js ''slug'', JStr (js ''flow'')), (js ''title'', JStr (js ''{{base}}'')), (js ''alt'', JStr (js ''A'')), (js ''text'', JArr [JStr (js ''A to B.'')]),
      (js ''evidence'', JArr []), (js ''spec_sha256'', JStr (js ''d'')), (js ''engine'', JObj [(js ''sha256'', JStr (js ''e''))]),
      (js ''svg_sha256'', JStr (js ''d'')), (js ''static_sha256'', JStr (js ''d'')), (js ''width'', JNum (js ''640'')), (js ''height'', JNum (js ''480'')),
      (js ''static_width'', JNum (js ''640'')), (js ''static_height'', JNum (js ''400'')), (js ''html'', JStr (markup sample_meta))]"

definition one_fs :: fs where
  "one_fs = empty_fs\<lparr>fs_isFile := (\<lambda>_. True), fs_isDirectory := (\<lambda>_. True), fs_digest := (\<lambda>_. Some (js ''d'')),
     fs_readText := (\<lambda>_. Some one_page), fs_readJson := (\<lambda>_. Some one_meta), fs_names := (\<lambda>_. [js ''flow.ts'', js ''flow.json''])\<rparr>"

lemma one_figure: "figureSourceErrors one_fs (\<lambda>_. js ''e'') (js ''/r'') =
    Inr \<lparr>fk_errors = [], fk_known = [js ''flow''], fk_specs = [js ''flow'']\<rparr>"
proof -
  have st: "stems one_fs d (js ''.ts'') = [js ''flow'']" "stems one_fs d (js ''.json'') = [js ''flow'']" for d
    by (simp_all add: stems_def one_fs_def js_ends_def js_uniq_def)
  have en: "engineHash one_fs (\<lambda>_. js ''e'') r = Inr (js ''e'')" for r
    by (simp add: engineHash_def filesDigest_def ENGINE_FILES_def one_fs_def)
  have hs: "hashErrors one_fs r (js ''flow'') one_meta (js ''e'') = Inr []" for r
    by (simp add: hashErrors_def hash_step_def bound_files_def one_fs_def one_meta_def Let_def)
  have ev: "evidenceErrors one_fs r (js ''flow'') (field one_meta (js ''evidence'')) = Inr []" for r
    by (simp add: evidenceErrors_def anchors_of_def one_meta_def)
  have sz: "sizeErrors (js ''flow'') one_meta = []"
    by (simp add: sizeErrors_def one_meta_def)
  have ht: "htmlErrors (js ''flow'') one_meta = []"
    by (simp add: htmlErrors_def json_markup_def one_meta_def sample_meta_def)
  have rj: "fs_readJson one_fs p = Some one_meta" for p by (simp add: one_fs_def)
  have fg: "figure_step one_fs r (js ''e'') (js ''flow'') [] = Inr []" for r
    unfolding figure_step_def Let_def rj option.case sz hs ev ht by simp
  show ?thesis
    unfolding figureSourceErrors_def Let_def st en using fg [of "js ''/r''"] by (simp add: js_uniq_def MAX_FIGURES_def)
qed

end
