(* ===== verification/FigurePage.thy ===== *)
theory FigurePage
  imports FigureSources WhatwgURL
begin

text \<open>
  The scanner of built pages (\<^verbatim>\<open>src/tools/figures/checks.mjs\<close>, \<open>TAG_NAME\<close> to \<open>scanPage\<close>): tags and attributes
  as Python's html.parser reads them, raw-text elements, comments and declarations, and what the diagram checks
  collect from a page. A position is an index into the page; \<open>None\<close> is the code's -1.
\<close>

section \<open>Tags and attributes\<close>

definition tag_space :: "nat \<Rightarrow> bool" where
  "tag_space c \<longleftrightarrow> c = 9 \<or> c = 10 \<or> c = 13 \<or> c = 12 \<or> c = 32"

text \<open>\<open>(?:[\t\n\r\f ]|\/(?!>))*\<close> and \<open>[\t\n\r\f /]*\<close>: how much of a text they take.\<close>

fun soft_skip :: "jsstr \<Rightarrow> nat" where
  "soft_skip [] = 0"
| "soft_skip (c # s) = (if tag_space c \<or> c = 47 \<and> \<not> js_starts s [62] then Suc (soft_skip s) else 0)"

definition hard_skip :: "jsstr \<Rightarrow> nat" where
  "hard_skip s = length (takeWhile (\<lambda>c. tag_space c \<or> c = 47) s)"

definition name_part :: "nat \<Rightarrow> bool" where
  "name_part c \<longleftrightarrow> \<not> tag_space c \<and> c \<noteq> 47 \<and> c \<noteq> 62"

definition before_attribute :: "nat \<Rightarrow> bool" where
  "before_attribute c \<longleftrightarrow> c = 39 \<or> c = 34 \<or> c = 47 \<or> tag_space c"

text \<open>
  The value of an attribute after its name: white space, \<open>=\<close>, white space, and a quoted text, or a text that starts
  with no quote. Before a quote that is never closed the last white space is given back and the value is empty.
\<close>

definition raw_value :: "jsstr \<Rightarrow> nat \<Rightarrow> (jsstr \<times> nat) option" where
  "raw_value v spaces =
     (case v of
        q # r \<Rightarrow>
          if q = 39 \<or> q = 34 then
            (case find_unit q r of
               Some k \<Rightarrow> Some (take (k + 2) v, spaces + k + 2)
             | None \<Rightarrow> if spaces = 0 then None else Some ([], spaces - 1))
          else (let t = takeWhile (\<lambda>c. \<not> tag_space c \<and> c \<noteq> 62) v in Some (t, spaces + length t))
      | [] \<Rightarrow> Some ([], spaces))"

definition attribute_value_part :: "jsstr \<Rightarrow> (jsstr \<times> nat) option" where
  "attribute_value_part s =
     (let before = length (takeWhile tag_space s); r = drop before s in
      if \<not> js_starts r [61] then None
      else
        (let v = drop 1 r; spaces = length (takeWhile tag_space v) in
         map_option (\<lambda>(raw, n). (raw, before + 1 + n)) (raw_value (drop spaces v) spaces)))"

text \<open>An attribute after the code unit \<open>p\<close>: its name, the raw value if it has one, and the length.\<close>

definition attribute_core :: "nat \<Rightarrow> jsstr \<Rightarrow> (jsstr \<times> jsstr option \<times> nat) option" where
  "attribute_core p s =
     (case s of
        [] \<Rightarrow> None
      | c # r \<Rightarrow>
          if \<not> before_attribute p \<or> \<not> name_part c then None
          else
            (let name = c # takeWhile (\<lambda>x. name_part x \<and> x \<noteq> 61) r; after = drop (length name) s in
             case attribute_value_part after of
               None \<Rightarrow> Some (name, None, length name)
             | Some (raw, n) \<Rightarrow> Some (name, Some raw, length name + n)))"

lemma attribute_core_pos: "attribute_core p s = Some (name, raw, n) \<Longrightarrow> 0 < n \<and> s \<noteq> []"
  by (auto simp: attribute_core_def Let_def split: list.splits if_splits option.splits)

text \<open>\<open>TAG_END\<close> from the first unit of the tag name: how far it reaches.\<close>

function attributes_end :: "nat \<Rightarrow> jsstr \<Rightarrow> nat" where
  "attributes_end p s =
     (case attribute_core p s of
        None \<Rightarrow> (if js_starts s [62] then 1 else 0)
      | Some (_, _, n) \<Rightarrow>
          (let k = n + hard_skip (drop n s) in
           k + attributes_end (last (p # take k s)) (drop k s)))"
  by pat_completeness auto
termination
  by (relation "measure (\<lambda>(p, s). length s)") (auto dest!: attribute_core_pos)

declare attributes_end.simps [simp del]

definition tag_name_length :: "jsstr \<Rightarrow> nat" where
  "tag_name_length s = length (takeWhile name_part s)"

definition tagEnd :: "jsstr \<Rightarrow> nat \<Rightarrow> nat option" where
  "tagEnd html at =
     (let s = drop at html; n = tag_name_length s; k = n + hard_skip (drop n s);
          reach = k + attributes_end (last (0 # take k s)) (drop k s) in
      if reach \<noteq> 0 \<and> js_at html (at + reach - 1) = Some 62 then Some (at + reach) else None)"

section \<open>Attribute values\<close>

definition NAMED_REFERENCES :: "(jsstr \<times> jsstr) list" where
  "NAMED_REFERENCES =
     [(js ''amp'', [38]), (js ''amp;'', [38]), (js ''lt'', [60]), (js ''lt;'', [60]), (js ''gt'', [62]), (js ''gt;'', [62]),
      (js ''quot'', [34]), (js ''quot;'', [34]), (js ''apos;'', [39])]"

definition with_tail :: "jsstr \<Rightarrow> nat \<Rightarrow> nat" where
  "with_tail s n = (if js_starts (drop n s) [59] \<or> js_starts (drop n s) [61] then n + 1 else n)"

text \<open>The length of the match of \<open>ATTRIBUTE_REFERENCE\<close> at the start of a text, 0 for none.\<close>

definition reference_length :: "jsstr \<Rightarrow> nat" where
  "reference_length s =
     (if \<not> js_starts s [38] then 0
      else
        (let r = drop 1 s; dec = takeWhile is_dec (drop 1 r); hex = takeWhile is_hex (drop 2 r); word = takeWhile (\<lambda>c. is_alpha c \<or> is_dec c) r in
         if js_starts r [35] then
           (if dec \<noteq> [] then with_tail s (2 + length dec)
            else if (js_starts (drop 1 r) [120] \<or> js_starts (drop 1 r) [88]) \<and> hex \<noteq> [] then with_tail s (3 + length hex)
            else 0)
         else if (\<exists>c \<in> set (take 1 r). is_alpha c) then with_tail s (1 + length word)
         else 0))"

definition radix_value :: "nat \<Rightarrow> (nat \<Rightarrow> nat) \<Rightarrow> jsstr \<Rightarrow> nat" where
  "radix_value radix val s = fold (\<lambda>c n. n * radix + val c) s 0"

definition numericReference :: "jsstr \<Rightarrow> jsstr" where
  "numericReference reference =
     (let tail = (if js_ends reference [61] then [61] else []);
          body = drop 2 reference;
          digits = (if js_ends body [59] \<or> js_ends body [61] then butlast body else body);
          code = (if js_starts digits [120] \<or> js_starts digits [88] then radix_value 16 hex_value (drop 1 digits)
                  else radix_value 10 (\<lambda>c. c - 48) digits) in
      (if code = 0 \<or> (0xD800 \<le> code \<and> code \<le> 0xDFFF) \<or> code > 0x10FFFF then [0xFFFD] else from_code_point code) @ tail)"

definition decode_reference :: "jsstr \<Rightarrow> jsstr" where
  "decode_reference reference =
     (if js_starts reference [38, 35] then numericReference reference
      else
        (case map_of NAMED_REFERENCES (drop 1 reference) of
           Some t \<Rightarrow> if js_ends reference [61] then reference else t
         | None \<Rightarrow> reference))"

function decodeAttribute :: "jsstr \<Rightarrow> jsstr" where
  "decodeAttribute s =
     (case s of
        [] \<Rightarrow> []
      | c # r \<Rightarrow>
          (let n = reference_length s in
           if n = 0 then c # decodeAttribute r else decode_reference (take n s) @ decodeAttribute (drop n s)))"
  by pat_completeness auto
termination
  by (relation "measure length") auto

declare decodeAttribute.simps [simp del]

text \<open>The value of an attribute: \<open>None\<close> is \<open>null\<close>, an attribute without a value.\<close>

definition attributeValue :: "jsstr option \<Rightarrow> jsstr option" where
  "attributeValue raw =
     (case raw of
        None \<Rightarrow> None
      | Some r \<Rightarrow>
          (let quoted = r \<noteq> [] \<and> (hd r = 39 \<or> hd r = 34) \<and> last r = hd r;
               t = (if quoted then take (length r - 2) (drop 1 r) else r) in
           Some (decodeAttribute t)))"

section \<open>What a page holds\<close>

record page_figure =
  pf_slug :: jsstr
  pf_urls :: "jsstr list"

record page_scan =
  sc_mermaid :: nat
  sc_figures :: "page_figure list"
  sc_scripts :: "jsstr list"
  sc_depth :: nat
  sc_inline :: bool

type_synonym attributes = "(jsstr \<times> jsstr option) list"

text \<open>\<open>attributes.get(name)\<close> on a \<open>Map\<close>, where the last write of a name wins; and \<open>?? ""\<close>.\<close>

definition attribute_text :: "attributes \<Rightarrow> jsstr \<Rightarrow> jsstr" where
  "attribute_text as name = (case map_of (rev as) name of Some (Some v) \<Rightarrow> v | _ \<Rightarrow> [])"

text \<open>\<open>page_words\<close>: the parts between runs of white space.\<close>

fun words_acc :: "jsstr \<Rightarrow> jsstr \<Rightarrow> jsstr list" where
  "words_acc w [] = (if w = [] then [] else [w])"
| "words_acc w (c # s) =
     (if py_space c then (if w = [] then words_acc [] s else w # words_acc [] s) else words_acc (w @ [c]) s)"

definition page_words :: "jsstr \<Rightarrow> jsstr list" where "page_words s = words_acc [] s"

definition figureStart :: "page_scan \<Rightarrow> attributes \<Rightarrow> jsstr list \<Rightarrow> page_scan" where
  "figureStart sc as classes =
     (if sc_depth sc \<noteq> 0 then sc\<lparr>sc_depth := sc_depth sc + 1\<rparr>
      else if js ''praetor-figure'' \<in> set classes \<and> attribute_text as (js ''data-figure'') \<noteq> [] \<and> length (sc_figures sc) < MAX_FIGURES then
        sc\<lparr>sc_figures := sc_figures sc @ [\<lparr>pf_slug = attribute_text as (js ''data-figure''), pf_urls = []\<rparr>], sc_depth := 1\<rparr>
      else sc)"

definition add_url :: "jsstr \<Rightarrow> page_scan \<Rightarrow> page_scan" where
  "add_url url sc =
     (let fs = sc_figures sc; f = last fs in
      if fs = [] then sc else sc\<lparr>sc_figures := butlast fs @ [f\<lparr>pf_urls := pf_urls f @ [url]\<rparr>]\<rparr>)"

definition handleStart :: "page_scan \<Rightarrow> jsstr \<Rightarrow> attributes \<Rightarrow> page_scan" where
  "handleStart sc tag as =
     (let classes = page_words (attribute_text as (js ''class'')); src = attribute_text as (js ''src'') in
      if tag = js ''pre'' \<and> js ''mermaid'' \<in> set classes then sc\<lparr>sc_mermaid := sc_mermaid sc + 1\<rparr>
      else if tag = js ''script'' \<and> src \<noteq> [] then sc\<lparr>sc_scripts := sc_scripts sc @ [src]\<rparr>
      else if tag = js ''script'' then sc\<lparr>sc_inline := True\<rparr>
      else if tag = js ''figure'' then figureStart sc as classes
      else if sc_depth sc \<noteq> 0 \<and> tag = js ''img'' then add_url src sc
      else if sc_depth sc \<noteq> 0 \<and> tag = js ''source'' then add_url (attribute_text as (js ''srcset'')) sc
      else sc)"

definition handleEnd :: "page_scan \<Rightarrow> jsstr \<Rightarrow> page_scan" where
  "handleEnd sc tag = (if tag = js ''figure'' \<and> sc_depth sc \<noteq> 0 then sc\<lparr>sc_depth := sc_depth sc - 1\<rparr> else sc)"

section \<open>Markup\<close>

definition RAW_TEXT :: "jsstr list" where
  "RAW_TEXT = [js ''script'', js ''style'', js ''xmp'', js ''iframe'', js ''noembed'', js ''noframes'', js ''textarea'', js ''title'', js ''plaintext'']"

text \<open>
  The loop over attributes in \<open>startTag\<close>: from \<open>k\<close> while it lies before \<open>end\<close>, where \<open>guard\<close> counts up to \<open>end\<close>.
\<close>

function attributes_loop :: "jsstr \<Rightarrow> nat \<Rightarrow> nat \<Rightarrow> attributes \<Rightarrow> nat \<times> attributes" where
  "attributes_loop html stop k as =
     (if k \<ge> stop then (k, as)
      else
        (case attribute_core (if k = 0 then 0 else html ! (k - 1)) (drop k html) of
           None \<Rightarrow> (k, as)
         | Some (name, raw, n) \<Rightarrow>
             attributes_loop html stop (k + n + soft_skip (drop (k + n) html)) (as @ [(js_lower name, attributeValue raw)])))"
  by pat_completeness auto
termination
  by (relation "measure (\<lambda>(html, stop, k, as). stop - k)") (auto dest!: attribute_core_pos)

declare attributes_loop.simps [simp del]

definition startTag :: "jsstr \<Rightarrow> nat \<Rightarrow> page_scan \<Rightarrow> nat option \<times> jsstr option \<times> page_scan" where
  "startTag html at sc =
     (case tagEnd html (at + 1) of
        None \<Rightarrow> (None, None, sc)
      | Some stop \<Rightarrow>
          (let s = drop (at + 1) html; n = tag_name_length s; tag = js_lower (take n s);
               (k, as) = attributes_loop html stop (at + 1 + n + soft_skip (drop n s)) [];
               rest = strip (js_slice html k stop) in
           if rest \<noteq> [62] \<and> rest \<noteq> [47, 62] then (Some stop, None, sc)
           else
             (let started = handleStart sc tag as;
                  ended = (if rest = [47, 62] then handleEnd started tag else started) in
              (Some stop, if rest = [62] \<and> tag \<in> set RAW_TEXT then Some tag else None, ended))))"

definition after :: "jsstr \<Rightarrow> jsstr \<Rightarrow> nat \<Rightarrow> nat option" where
  "after html t from = map_option (\<lambda>k. k + length t) (js_find t html from)"

definition letter_at :: "jsstr \<Rightarrow> nat \<Rightarrow> bool" where
  "letter_at html k \<longleftrightarrow> (case js_at html k of None \<Rightarrow> False | Some c \<Rightarrow> is_alpha c)"

definition endTag :: "jsstr \<Rightarrow> nat \<Rightarrow> page_scan \<Rightarrow> nat option \<times> page_scan" where
  "endTag html at sc =
     (if js_find [62] html (at + 2) = None then (None, sc)
      else if \<not> letter_at html (at + 2) then
        (if js_at html (at + 2) = Some 62 then (Some (at + 3), sc) else (after html [62] (at + 2), sc))
      else
        (case tagEnd html (at + 2) of
           None \<Rightarrow> (None, sc)
         | Some stop \<Rightarrow>
             (let s = drop (at + 2) html in (Some stop, handleEnd sc (js_lower (take (tag_name_length s) s))))))"

text \<open>The end of the first \<open>--!?>\<close> of a text.\<close>

fun comment_close :: "jsstr \<Rightarrow> nat option" where
  "comment_close [] = None"
| "comment_close (c # s) =
     (if js_starts (c # s) [45, 45, 62] then Some 3
      else if js_starts (c # s) [45, 45, 33, 62] then Some 4
      else map_option Suc (comment_close s))"

definition commentEnd :: "jsstr \<Rightarrow> nat \<Rightarrow> nat option" where
  "commentEnd html at =
     (let s = drop (at + 4) html in
      if js_starts s [45, 62] then Some (at + 6)
      else if js_starts s [62] then Some (at + 5)
      else map_option (\<lambda>n. at + 4 + n) (comment_close s))"

definition declarationEnd :: "jsstr \<Rightarrow> nat \<Rightarrow> nat option" where
  "declarationEnd html at =
     (let s = drop at html in
      if js_starts s (js ''<![CDATA['') then after html (js '']]>'') (at + 9)
      else if js_lower (take 9 s) = js ''<!doctype'' then after html [62] (at + 9)
      else after html [62] (at + 2))"

definition markupAt :: "jsstr \<Rightarrow> nat \<Rightarrow> page_scan \<Rightarrow> nat option \<times> jsstr option \<times> page_scan" where
  "markupAt html at sc =
     (let s = drop at html in
      if letter_at html (at + 1) then startTag html at sc
      else if js_starts s (js ''</'') then (let (next_at, sc') = endTag html at sc in (next_at, None, sc'))
      else if js_starts s (js ''<!--'') then (commentEnd html at, None, sc)
      else if js_starts s (js ''<?'') then (after html [62] (at + 2), None, sc)
      else if js_starts s (js ''<!'') then (declarationEnd html at, None, sc)
      else (Some (at + 1), None, sc))"

text \<open>\<open>RAW_TEXT\<close>'s pattern for an element at the start of a text, and where it first matches.\<close>

definition raw_close :: "jsstr \<Rightarrow> jsstr \<Rightarrow> bool" where
  "raw_close tag s \<longleftrightarrow>
     tag \<noteq> js ''plaintext'' \<and> ascii_lower (take (2 + length tag) s) = js ''</'' @ tag \<and>
     (\<exists>c \<in> set (take 1 (drop (2 + length tag) s)). tag_space c \<or> c = 47 \<or> c = 62)"

fun raw_search :: "jsstr \<Rightarrow> jsstr \<Rightarrow> nat option" where
  "raw_search tag [] = None"
| "raw_search tag (c # s) = (if raw_close tag (c # s) then Some 0 else map_option Suc (raw_search tag s))"

definition nextMarkup :: "jsstr \<Rightarrow> nat \<Rightarrow> jsstr option \<Rightarrow> nat option" where
  "nextMarkup html from raw =
     (case raw of
        None \<Rightarrow> js_index 60 html from
      | Some tag \<Rightarrow> map_option (\<lambda>n. from + n) (raw_search tag (drop from html)))"

section \<open>Inline scripts and pages\<close>

text \<open>
  \<open>INLINE_IMPORT\<close> at the start of a text after the code unit \<open>p\<close> (a space before the first): the module and the length.
\<close>

definition import_at :: "nat \<Rightarrow> jsstr \<Rightarrow> (jsstr \<times> nat) option" where
  "import_at p s =
     (if word_unit p \<or> \<not> js_starts s (js ''import('') then None
      else
        (let a = length (takeWhile js_space (drop 7 s)); r = drop (7 + a) s in
         case r of
           [] \<Rightarrow> None
         | q # u \<Rightarrow>
             if q \<noteq> 39 \<and> q \<noteq> 34 then None
             else
               (let url = takeWhile (\<lambda>c. c \<noteq> 39 \<and> c \<noteq> 34 \<and> c \<noteq> 10) u; v = drop (length url) u;
                    b = length (takeWhile js_space (drop 1 v)); w = drop (1 + b) v in
                if url \<noteq> [] \<and> js_starts v [q] \<and> js_starts w [41] then Some (url, 7 + a + 1 + length url + 1 + b + 1) else None)))"

lemma import_at_pos: "import_at p s = Some (url, n) \<Longrightarrow> 0 < n"
  by (auto simp: import_at_def Let_def split: if_splits list.splits)

function import_matches :: "nat \<Rightarrow> jsstr \<Rightarrow> jsstr list" where
  "import_matches p s =
     (case s of
        [] \<Rightarrow> []
      | c # r \<Rightarrow>
          (case import_at p s of
             None \<Rightarrow> import_matches c r
           | Some (url, n) \<Rightarrow> url # import_matches (last (take n s)) (drop n s)))"
  by pat_completeness auto
termination
  by (relation "measure (\<lambda>(p, s). length s)") (auto dest!: import_at_pos)

declare import_matches.simps [simp del]

definition inlineImports :: "jsstr \<Rightarrow> nat \<Rightarrow> page_scan \<Rightarrow> page_scan" where
  "inlineImports html from sc =
     (let stop = (case nextMarkup html from (Some (js ''script'')) of None \<Rightarrow> length html | Some k \<Rightarrow> k);
          code = js_slice html from stop in
      sc\<lparr>sc_scripts := sc_scripts sc @ take MAX_FIGURES (import_matches 32 code)\<rparr>)"

text \<open>The loop of \<open>scanPage\<close>; the code itself stops it after one step more than the page is long.\<close>

fun scan_loop :: "nat \<Rightarrow> jsstr \<Rightarrow> nat \<Rightarrow> jsstr option \<Rightarrow> page_scan \<Rightarrow> page_scan" where
  "scan_loop 0 html at raw sc = sc"
| "scan_loop (Suc guard) html at raw sc =
     (if at \<ge> length html then sc
      else
        (case nextMarkup html at raw of
           None \<Rightarrow> sc
         | Some start \<Rightarrow>
             (case markupAt html start sc of
                (None, _, sc') \<Rightarrow> sc'
              | (Some at', raw', sc') \<Rightarrow>
                  scan_loop guard html at' raw'
                    ((if raw' = Some (js ''script'') \<and> sc_inline sc' then inlineImports html at' sc' else sc')\<lparr>sc_inline := False\<rparr>))))"

record scanned_page =
  sp_mermaid :: nat
  sp_figures :: "page_figure list"
  sp_scripts :: "jsstr list"

definition empty_scan :: page_scan where
  "empty_scan = \<lparr>sc_mermaid = 0, sc_figures = [], sc_scripts = [], sc_depth = 0, sc_inline = False\<rparr>"

definition scanPage :: "jsstr \<Rightarrow> scanned_page" where
  "scanPage html =
     (let sc = scan_loop (length html + 1) html 0 None empty_scan in
      \<lparr>sp_mermaid = sc_mermaid sc, sp_figures = sc_figures sc, sp_scripts = sc_scripts sc\<rparr>)"

definition renderedDiagrams :: "jsstr \<Rightarrow> nat" where "renderedDiagrams html = sp_mermaid (scanPage html)"

section \<open>Lemmas: serialized markup\<close>

text \<open>
  Plain markup: text without \<open><\<close>, start tags whose attributes are in double quotes, and end tags. Names are written
  in lower case.
\<close>

datatype piece = PText jsstr | POpen jsstr "(jsstr \<times> jsstr) list" | PClose jsstr

definition lower_name :: "jsstr \<Rightarrow> bool" where
  "lower_name n \<longleftrightarrow> n \<noteq> [] \<and> 97 \<le> hd n \<and> hd n \<le> 122 \<and> (\<forall>c \<in> set n. 97 \<le> c \<and> c \<le> 122 \<or> 48 \<le> c \<and> c \<le> 57 \<or> c = 45)"

definition attributes_text :: "(jsstr \<times> jsstr) list \<Rightarrow> jsstr" where
  "attributes_text as = concat (map (\<lambda>(n, v). 32 # n @ 61 # 34 # v @ [34]) as)"

fun piece_text :: "piece \<Rightarrow> jsstr" where
  "piece_text (PText s) = s"
| "piece_text (POpen t as) = 60 # t @ attributes_text as @ [62]"
| "piece_text (PClose t) = 60 # 47 # t @ [62]"

fun piece_ok :: "piece \<Rightarrow> bool" where
  "piece_ok (PText s) = (60 \<notin> set s)"
| "piece_ok (POpen t as) = (lower_name t \<and> t \<notin> set RAW_TEXT \<and> (\<forall>(n, v) \<in> set as. lower_name n \<and> 34 \<notin> set v))"
| "piece_ok (PClose t) = lower_name t"

fun play :: "piece \<Rightarrow> page_scan \<Rightarrow> page_scan" where
  "play (PText s) sc = sc"
| "play (POpen t as) sc = handleStart sc t (map (\<lambda>(n, v). (n, Some (decodeAttribute v))) as)"
| "play (PClose t) sc = handleEnd sc t"

lemma attributes_text_simps [simp]:
  "attributes_text [] = []"
  "attributes_text ((n, v) # as) = 32 # n @ 61 # 34 # v @ 34 # attributes_text as"
  by (simp_all add: attributes_text_def)

lemma lower_name_units:
  assumes "lower_name n" and "c \<in> set n"
  shows "name_part c" "c \<noteq> 61" "lower_unit c = [c]" "\<not> tag_space c" "c \<noteq> 47" "c \<noteq> 62"
  using assms by (auto simp: lower_name_def name_part_def tag_space_def lower_unit_def)

lemma lower_name_lower: "lower_name n \<Longrightarrow> js_lower n = n"
proof -
  have "\<forall>c \<in> set n. lower_unit c = [c] \<Longrightarrow> concat (map lower_unit n) = n" by (induction n) auto
  then show "lower_name n \<Longrightarrow> js_lower n = n" using lower_name_units(3) by (simp add: js_lower_def)
qed

lemma takeWhile_stop: "\<forall>c \<in> set xs. P c \<Longrightarrow> \<not> P y \<Longrightarrow> takeWhile P (xs @ y # ys) = xs"
  by (simp add: takeWhile_append2)

lemma find_unit_stop: "c \<notin> set xs \<Longrightarrow> find_unit c (xs @ c # ys) = Some (length xs)"
  by (induction xs) auto

lemma attribute_core_plain:
  assumes "lower_name n" and "34 \<notin> set v"
  shows "attribute_core 32 (n @ 61 # 34 # v @ 34 # r) = Some (n, Some (34 # v @ [34]), length (n @ 61 # 34 # v @ [34]))"
proof -
  obtain c m where n: "n = c # m" using assms(1) by (cases n) (auto simp: lower_name_def)
  have c: "name_part c" using lower_name_units(1) [OF assms(1)] n by simp
  have "\<forall>x \<in> set m. name_part x \<and> x \<noteq> 61" using lower_name_units(1,2) [OF assms(1)] n by simp
  then have m: "takeWhile (\<lambda>x. name_part x \<and> x \<noteq> 61) (m @ 61 # 34 # v @ 34 # r) = m" by (intro takeWhile_stop) auto
  have "find_unit 34 (v @ 34 # r) = Some (length v)" using assms(2) by (rule find_unit_stop)
  then have val: "attribute_value_part (61 # 34 # v @ 34 # r) = Some (34 # v @ [34], length v + 3)"
    by (simp add: attribute_value_part_def raw_value_def tag_space_def js_starts_iff)
  show ?thesis using c m val by (simp add: n attribute_core_def before_attribute_def tag_space_def)
qed

lemma attribute_core_gt: "attribute_core p (62 # r) = None"
  by (simp add: attribute_core_def name_part_def)

lemma skip_next:
  "hard_skip (62 # r) = 0" "soft_skip (62 # r) = 0"
  "lower_name n \<Longrightarrow> hard_skip (32 # n @ r) = 1" "lower_name n \<Longrightarrow> soft_skip (32 # n @ r) = 1"
  by (cases n; auto simp: hard_skip_def tag_space_def lower_name_def)+

lemma attributes_end_step:
  assumes "attribute_core p (a @ b) = Some (x, y, length a)" and "a \<noteq> []"
  shows "attributes_end p (a @ b) = length a + hard_skip b + attributes_end (last (a @ take (hard_skip b) b)) (drop (hard_skip b) b)"
proof -
  have "hard_skip b \<le> length b" by (simp add: hard_skip_def length_takeWhile_le)
  then show ?thesis using assms by (subst attributes_end.simps) (simp add: Let_def)
qed

lemma attributes_end_gt: "attributes_end p (62 # r) = 1"
  by (subst attributes_end.simps) (simp add: attribute_core_gt js_starts_iff)

lemma attributes_end_plain:
  "\<forall>(n, v) \<in> set ((n, v) # as). lower_name n \<and> 34 \<notin> set v \<Longrightarrow>
     attributes_end 32 (n @ 61 # 34 # v @ 34 # attributes_text as @ 62 # r) = length (n @ 61 # 34 # v @ [34]) + length (attributes_text as) + 1"
proof (induction as arbitrary: n v)
  case Nil
  let ?a = "n @ 61 # 34 # v @ [34]"
  have "attribute_core 32 (?a @ 62 # r) = Some (n, Some (34 # v @ [34]), length ?a)"
    using Nil attribute_core_plain [of n v "62 # r"] by simp
  from attributes_end_step [OF this] show ?case by (simp add: skip_next attributes_end_gt)
next
  case (Cons b as)
  obtain n' v' where b: "b = (n', v')" by (cases b)
  let ?a = "n @ 61 # 34 # v @ [34]" and ?rest = "n' @ 61 # 34 # v' @ 34 # attributes_text as @ 62 # r"
  have core: "attribute_core 32 (?a @ 32 # ?rest) = Some (n, Some (34 # v @ [34]), length ?a)"
    using Cons.prems attribute_core_plain [of n v "32 # ?rest"] by simp
  have skip: "hard_skip (32 # ?rest) = 1" using Cons.prems b by (intro skip_next) auto
  have "attributes_end 32 ?rest = length (n' @ 61 # 34 # v' @ [34]) + length (attributes_text as) + 1"
    using Cons.prems b by (intro Cons.IH) auto
  then show ?case using attributes_end_step [OF core] by (simp add: b skip)
qed

text \<open>The tag that starts with the name \<open>t\<close>.\<close>

definition attributes_ok :: "(jsstr \<times> jsstr) list \<Rightarrow> bool" where
  "attributes_ok as \<longleftrightarrow> (\<forall>(n, v) \<in> set as. lower_name n \<and> 34 \<notin> set v)"

lemma tag_name_plain:
  assumes "lower_name t"
  shows "tag_name_length (t @ attributes_text as @ 62 # r) = length t"
proof -
  have "\<exists>y ys. attributes_text as @ 62 # r = y # ys \<and> \<not> name_part y"
    by (cases as) (auto simp: name_part_def tag_space_def)
  then obtain y ys where y: "attributes_text as @ 62 # r = y # ys" "\<not> name_part y" by blast
  show ?thesis unfolding tag_name_length_def y(1) using lower_name_units(1) [OF assms] y(2) by (simp add: takeWhile_stop)
qed

lemma tagEnd_plain:
  assumes t: "lower_name t" and as: "attributes_ok as" and html: "html = pre @ t @ attributes_text as @ 62 # post"
  shows "tagEnd html (length pre) = Some (length pre + length t + length (attributes_text as) + 1)"
proof -
  let ?s = "t @ attributes_text as @ 62 # post"
  have drop: "drop (length pre) html = ?s" using html by simp
  have name: "tag_name_length ?s = length t" using tag_name_plain [OF t] .
  let ?k = "length t + hard_skip (drop (length t) ?s)"
  have reach: "?k + attributes_end (last (0 # take ?k ?s)) (drop ?k ?s) = length t + length (attributes_text as) + 1"
  proof (cases as)
    case Nil
    then show ?thesis by (simp add: skip_next attributes_end_gt)
  next
    case (Cons b bs)
    obtain n v where b: "b = (n, v)" by (cases b)
    have "lower_name n" using as Cons b by (simp add: attributes_ok_def)
    then have skip: "hard_skip (32 # n @ 61 # 34 # v @ 34 # attributes_text bs @ 62 # post) = 1" by (rule skip_next)
    have "attributes_end 32 (n @ 61 # 34 # v @ 34 # attributes_text bs @ 62 # post) = length (n @ 61 # 34 # v @ [34]) + length (attributes_text bs) + 1"
      using as Cons b by (intro attributes_end_plain) (auto simp: attributes_ok_def)
    then show ?thesis by (simp add: Cons b skip)
  qed
  have "js_at html (length pre + (length t + length (attributes_text as) + 1) - 1) = Some 62"
    by (simp add: html js_at_def nth_append)
  then show ?thesis unfolding tagEnd_def Let_def drop name reach by simp
qed

lemma attributes_loop_step:
  "k < stop \<Longrightarrow> k \<noteq> 0 \<Longrightarrow> attribute_core (html ! (k - 1)) (drop k html) = Some (name, raw, n) \<Longrightarrow>
     attributes_loop html stop k acc = attributes_loop html stop (k + n + soft_skip (drop (k + n) html)) (acc @ [(js_lower name, attributeValue raw)])"
  by (subst attributes_loop.simps) simp

lemma attributes_loop_plain:
  assumes as: "attributes_ok as" and html: "html = pre @ attributes_text as @ 62 # post"
    and start: "k = length pre + (if as = [] then 0 else 1)" and stop: "stop = length pre + length (attributes_text as) + 1" and "pre \<noteq> []"
  shows "attributes_loop html stop k acc = (stop - 1, acc @ map (\<lambda>(n, v). (n, Some (decodeAttribute v))) as)"
  using assms
proof (induction as arbitrary: pre k acc)
  case Nil
  then show ?case by (subst attributes_loop.simps) (simp add: attribute_core_gt)
next
  case (Cons b as)
  obtain n v where b: "b = (n, v)" by (cases b)
  have n: "lower_name n" and v: "34 \<notin> set v" and as: "attributes_ok as" using Cons.prems(1) b by (auto simp: attributes_ok_def)
  let ?a = "n @ 61 # 34 # v @ [34]" and ?rest = "attributes_text as @ 62 # post"
  let ?pre = "pre @ 32 # ?a"
  have html: "html = pre @ 32 # ?a @ ?rest" using Cons.prems(2) b by simp
  have k: "k = length pre + 1" using Cons.prems(3) by simp
  have prev: "html ! (k - 1) = 32" and drop: "drop k html = ?a @ ?rest" by (simp_all add: html k nth_append)
  have core: "attribute_core 32 (?a @ ?rest) = Some (n, Some (34 # v @ [34]), length ?a)"
    using attribute_core_plain [OF n v, of ?rest] by simp
  have skip: "soft_skip ?rest = (if as = [] then 0 else 1)"
    using as skip_next by (cases as) (auto simp: attributes_ok_def)
  have val: "attributeValue (Some (34 # v @ [34])) = Some (decodeAttribute v)" by (simp add: attributeValue_def)
  have after: "drop (k + length ?a) html = ?rest" using drop by (metis add.commute append_eq_conv_conj drop_drop)
  have len: "k < stop" using Cons.prems(4) by (simp add: k b)
  have "attributes_loop html stop k acc =
      attributes_loop html stop (k + length ?a + soft_skip (drop (k + length ?a) html)) (acc @ [(js_lower n, attributeValue (Some (34 # v @ [34])))])"
  proof (rule attributes_loop_step)
    show "attribute_core (html ! (k - 1)) (drop k html) = Some (n, Some (34 # v @ [34]), length ?a)" unfolding prev drop by (rule core)
  qed (use len k in simp_all)
  also have "\<dots> = attributes_loop html stop (length ?pre + (if as = [] then 0 else 1)) (acc @ [(n, Some (decodeAttribute v))])"
    unfolding after skip val lower_name_lower [OF n] by (simp add: k)
  also have "\<dots> = (stop - 1, (acc @ [(n, Some (decodeAttribute v))]) @ map (\<lambda>(n, v). (n, Some (decodeAttribute v))) as)"
    using Cons.prems(4) as html b by (intro Cons.IH [where pre = ?pre]) simp_all
  finally show ?case using b by simp
qed

lemma strip_gt: "strip [62] = [62]"
  by (simp add: strip_def py_space_def)

lemma startTag_plain:
  assumes ok: "piece_ok (POpen t as)" and html: "html = pre @ piece_text (POpen t as) @ post"
  shows "startTag html (length pre) sc = (Some (length pre + length (piece_text (POpen t as))), None, play (POpen t as) sc)"
proof -
  have t: "lower_name t" "t \<notin> set RAW_TEXT" and as: "attributes_ok as" using ok by (auto simp: attributes_ok_def)
  let ?s = "t @ attributes_text as @ 62 # post"
  have split: "html = (pre @ [60]) @ ?s" using html by simp
  have "tagEnd html (length (pre @ [60])) = Some (length (pre @ [60]) + length t + length (attributes_text as) + 1)"
    using tagEnd_plain [OF t(1) as split] .
  then have stop: "tagEnd html (length pre + 1) = Some (length pre + length t + length (attributes_text as) + 2)" by simp
  have drop: "drop (length pre + 1) html = ?s" by (simp add: split)
  have name: "tag_name_length ?s = length t" using tag_name_plain [OF t(1)] .
  have skip: "soft_skip (drop (length t) ?s) = (if as = [] then 0 else 1)"
    using as skip_next by (cases as) (auto simp: attributes_ok_def)
  let ?pre = "pre @ 60 # t"
  have "attributes_loop html (length pre + length t + length (attributes_text as) + 2) (length ?pre + (if as = [] then 0 else 1)) [] =
      (length pre + length t + length (attributes_text as) + 2 - 1, [] @ map (\<lambda>(n, v). (n, Some (decodeAttribute v))) as)"
    using as by (intro attributes_loop_plain [where pre = ?pre]) (simp_all add: split)
  then have loop: "attributes_loop html (length pre + length t + length (attributes_text as) + 2) (length pre + 1 + length t + (if as = [] then 0 else 1)) [] =
      (length pre + length t + length (attributes_text as) + 1, map (\<lambda>(n, v). (n, Some (decodeAttribute v))) as)" by simp
  have rest: "js_slice html (length pre + length t + length (attributes_text as) + 1) (length pre + length t + length (attributes_text as) + 2) = [62]"
    by (simp add: js_slice_def split)
  have tag: "take (length t) ?s = t" by simp
  show ?thesis
    unfolding startTag_def stop option.case Let_def drop name skip tag loop prod.case rest strip_gt lower_name_lower [OF t(1)]
    using t(2) by simp
qed

lemma endTag_plain:
  assumes t: "lower_name t" and html: "html = pre @ piece_text (PClose t) @ post"
  shows "endTag html (length pre) sc = (Some (length pre + length (piece_text (PClose t))), play (PClose t) sc)"
proof -
  have split: "html = (pre @ [60, 47]) @ t @ attributes_text [] @ 62 # post" using html by simp
  have "tagEnd html (length (pre @ [60, 47])) = Some (length (pre @ [60, 47]) + length t + length (attributes_text []) + 1)"
    using t by (intro tagEnd_plain [OF _ _ split]) (simp_all add: attributes_ok_def)
  then have stop: "tagEnd html (length pre + 2) = Some (length pre + length t + 3)" by simp
  have drop: "drop (length pre + 2) html = t @ 62 # post" by (simp add: split)
  have name: "tag_name_length (t @ 62 # post) = length t" using tag_name_plain [OF t, of "[]" post] by simp
  have found: "js_find [62] html (length pre + 2) \<noteq> None"
  proof -
    have "js_starts (List.drop (length t) (t @ 62 # post)) [62]" by (simp add: js_starts_iff)
    from find_sub_le [OF this] show ?thesis unfolding js_find_def drop by auto
  qed
  have "letter_at html (length pre + 2)"
    using t by (cases t) (auto simp: letter_at_def js_at_def split nth_append lower_name_def is_alpha_def)
  with found show ?thesis
    unfolding endTag_def stop Let_def drop name using lower_name_lower [OF t] by simp
qed

lemma markupAt_plain:
  assumes ok: "piece_ok p" and html: "html = pre @ piece_text p @ post" and tag: "\<forall>s. p \<noteq> PText s"
  shows "markupAt html (length pre) sc = (Some (length pre + length (piece_text p)), None, play p sc)"
proof (cases p)
  case (PText s)
  then show ?thesis using tag by simp
next
  case (POpen t as)
  have "letter_at html (length pre + 1)"
    using ok html POpen by (cases t) (auto simp: letter_at_def js_at_def nth_append lower_name_def is_alpha_def)
  then show ?thesis using startTag_plain ok html POpen by (simp add: markupAt_def)
next
  case (PClose t)
  have slash: "\<not> letter_at html (length pre + 1)" using html PClose by (simp add: letter_at_def js_at_def nth_append is_alpha_def)
  have "drop (length pre) html = 60 # 47 # t @ 62 # post" using html PClose by simp
  with slash show ?thesis using endTag_plain [of t html pre post sc] ok html PClose by (simp add: markupAt_def js_starts_iff)
qed

lemma play_inline: "piece_ok p \<Longrightarrow> \<not> sc_inline sc \<Longrightarrow> \<not> sc_inline (play p sc)"
  by (cases p) (auto simp: handleStart_def handleEnd_def figureStart_def add_url_def Let_def RAW_TEXT_def)

lemma next_plain:
  assumes "60 \<notin> set s"
  shows "nextMarkup (pre @ s @ r) (length pre) None = nextMarkup (pre @ s @ r) (length (pre @ s)) None"
proof -
  have "find_unit 60 (s @ r) = map_option (\<lambda>k. k + length s) (find_unit 60 r)" using assms
    by (induction s) (auto simp: option.map_comp comp_def option.map_ident)
  then show ?thesis by (simp add: nextMarkup_def js_index_def option.map_comp comp_def ac_simps)
qed

text \<open>A scan that starts before text without markup goes on as one that starts behind it.\<close>

lemma scan_skip_text:
  assumes "60 \<notin> set s" and html: "html = pre @ s @ r"
  shows "scan_loop (Suc guard) html (length pre) None sc = scan_loop (Suc guard) html (length (pre @ s)) None sc"
proof (cases "r = []")
  case True
  have "nextMarkup html (length pre) None = None" using assms True by (simp add: nextMarkup_def js_index_None_iff)
  then show ?thesis using True html by simp
next
  case False
  then have "length pre < length html" "length (pre @ s) < length html" using html by auto
  then show ?thesis using next_plain [OF assms(1), of pre r] html by simp
qed

fun is_tag :: "piece \<Rightarrow> bool" where
  "is_tag (PText s) = False"
| "is_tag p = True"

lemma scan_plain:
  "\<forall>p \<in> set ps. piece_ok p \<Longrightarrow> \<not> sc_inline sc \<Longrightarrow> html = pre @ concat (map piece_text ps) \<Longrightarrow>
     length (filter is_tag ps) < guard \<Longrightarrow> scan_loop guard html (length pre) None sc = fold play ps sc"
proof (induction ps arbitrary: pre guard sc)
  case Nil
  then show ?case by (cases guard) auto
next
  case (Cons p ps)
  obtain g where g: "guard = Suc g" using Cons.prems(4) by (cases guard) auto
  show ?case
  proof (cases "\<exists>s. p = PText s")
    case True
    then obtain s where p: "p = PText s" by blast
    have "scan_loop guard html (length pre) None sc = scan_loop guard html (length (pre @ s)) None sc"
      using Cons.prems(1,3) p unfolding g by (intro scan_skip_text [where r = "concat (map piece_text ps)"]) auto
    also have "\<dots> = fold play ps sc" using Cons.prems p by (intro Cons.IH) auto
    finally show ?thesis using p by simp
  next
    case False
    let ?post = "concat (map piece_text ps)" and ?pre = "pre @ piece_text p"
    have ok: "piece_ok p" using Cons.prems(1) by simp
    have tag: "is_tag p" using False by (cases p) auto
    have html: "html = pre @ piece_text p @ ?post" using Cons.prems(3) by simp
    obtain r where r: "piece_text p = 60 # r" using False by (cases p) auto
    have start: "nextMarkup html (length pre) None = Some (length pre)" by (simp add: nextMarkup_def js_index_def html r)
    have at: "markupAt html (length pre) sc = (Some (length ?pre), None, play p sc)" using markupAt_plain [OF ok html] False by simp
    have inline: "\<not> sc_inline (play p sc)" using play_inline [OF ok Cons.prems(2)] .
    then have "(play p sc)\<lparr>sc_inline := False\<rparr> = play p sc" by simp
    then have "scan_loop guard html (length pre) None sc = scan_loop g html (length ?pre) None (play p sc)"
      using start at html r unfolding g by simp
    also have "\<dots> = fold play ps (play p sc)" using Cons.prems inline g tag by (intro Cons.IH) auto
    finally show ?thesis by simp
  qed
qed

lemma tags_bound: "length (filter is_tag ps) \<le> length (concat (map piece_text ps))"
proof (induction ps)
  case (Cons p ps)
  then show ?case by (cases p) auto
qed simp

lemma scanPage_pieces:
  assumes "\<forall>p \<in> set ps. piece_ok p"
  shows "scanPage (concat (map piece_text ps)) =
    (let sc = fold play ps empty_scan in \<lparr>sp_mermaid = sc_mermaid sc, sp_figures = sc_figures sc, sp_scripts = sc_scripts sc\<rparr>)"
proof -
  let ?html = "concat (map piece_text ps)"
  have "scan_loop (length ?html + 1) ?html (length ([] :: jsstr)) None empty_scan = fold play ps empty_scan"
    using assms tags_bound [of ps] by (intro scan_plain) (auto simp: empty_scan_def)
  then show ?thesis by (simp add: scanPage_def)
qed

section \<open>Lemmas: the markup of a figure\<close>

abbreviation newline :: piece where "newline \<equiv> PText [10]"

definition item_pieces :: "jsstr \<Rightarrow> piece list" where
  "item_pieces line = [POpen (js ''li'') [], PText (escapeHtml line), PClose (js ''li'')]"

fun items_pieces :: "jsstr list \<Rightarrow> piece list" where
  "items_pieces [] = []"
| "items_pieces [l] = item_pieces l"
| "items_pieces (l # m # ls) = item_pieces l @ newline # items_pieces (m # ls)"

definition figure_pieces :: "jsstr \<Rightarrow> meta \<Rightarrow> piece list" where
  "figure_pieces base m =
     (let slug = me_slug m in
      [POpen (js ''figure'')
         [(js ''class'', js ''praetor-figure''), (js ''id'', js ''fig-'' @ slug), (js ''data-figure'', slug), (js ''aria-describedby'', js ''fig-'' @ slug @ js ''-text'')],
       newline, POpen (js ''picture'') [], newline,
       POpen (js ''source'')
         [(js ''media'', js ''(prefers-reduced-motion: reduce)''), (js ''srcset'', base @ js ''/'' @ slug @ js ''.static.svg''),
          (js ''width'', me_static_width m), (js ''height'', me_static_height m)],
       newline,
       POpen (js ''img'')
         [(js ''src'', base @ js ''/'' @ slug @ js ''.svg''), (js ''alt'', escapeHtml (me_alt m)), (js ''width'', me_width m), (js ''height'', me_height m),
          (js ''loading'', js ''lazy'')],
       newline, PClose (js ''picture''), newline, POpen (js ''figcaption'') [], PText (escapeHtml (me_title m)), PClose (js ''figcaption''), newline,
       PClose (js ''figure'')])"

definition description_pieces :: "jsstr \<Rightarrow> meta \<Rightarrow> piece list" where
  "description_pieces link m =
     (let slug = me_slug m in
      [newline, POpen (js ''p'') [], POpen (js ''a'') [(js ''href'', link)], PText (js ''Open the interactive figure''), PClose (js ''a''), PClose (js ''p''),
       newline, POpen (js ''details'') [(js ''class'', js ''praetor-figure__text''), (js ''id'', js ''fig-'' @ slug @ js ''-text'')],
       POpen (js ''summary'') [], PText (js ''Text description''), PClose (js ''summary''), newline, POpen (js ''ul'') [], newline] @
      items_pieces (me_text m) @ [newline, PClose (js ''ul''), newline, PClose (js ''details'')])"

lemma items_text: "concat (map piece_text (items_pieces ls)) = js_join [10] (map (\<lambda>line. js ''<li>'' @ escapeHtml line @ js ''</li>'') ls)"
  by (induction ls rule: items_pieces.induct) (simp_all add: item_pieces_def)

lemma markup_pieces: "markup_with base link m = concat (map piece_text (figure_pieces base m @ description_pieces link m))"
  by (simp add: markup_with_def figure_pieces_def description_pieces_def attr_text_def Let_def items_text)

lemma escape_units: "c \<in> set (escapeHtml s) \<Longrightarrow> c \<noteq> 60 \<and> c \<noteq> 34"
  using escape_braces_safe [OF entities_safe [of s]] by (auto simp: escapeHtml_def list_all_iff html_special_def)

lemma items_ok: "p \<in> set (items_pieces ls) \<Longrightarrow> piece_ok p"
  by (induction ls rule: items_pieces.induct) (auto simp: item_pieces_def lower_name_def RAW_TEXT_def dest: escape_units)

text \<open>What the scanner needs of a figure's record: a slug, sizes without quotes.\<close>

definition quotable :: "meta \<Rightarrow> bool" where
  "quotable m \<longleftrightarrow> SLUG (me_slug m) \<and> 34 \<notin> set (me_width m) \<and> 34 \<notin> set (me_height m) \<and> 34 \<notin> set (me_static_width m) \<and> 34 \<notin> set (me_static_height m)"

lemma slug_units: "SLUG s \<Longrightarrow> c \<in> set s \<Longrightarrow> c = 45 \<or> slug_unit c"
proof -
  assume h: "SLUG s" and c: "c \<in> set s"
  have "set (js_join [c] xs) \<subseteq> insert c (\<Union> (set ` set xs))" for c :: nat and xs
    by (induction xs rule: induct_list012) auto
  from this [of 45 "js_split 45 s"] show ?thesis using h c by (auto simp: SLUG_def)
qed

lemma figure_ok: "quotable m \<Longrightarrow> 34 \<notin> set base \<Longrightarrow> p \<in> set (figure_pieces base m) \<Longrightarrow> piece_ok p"
  using slug_units [of "me_slug m" 34]
  by (auto simp: figure_pieces_def quotable_def lower_name_def RAW_TEXT_def slug_unit_def Let_def dest: escape_units)

lemma description_ok: "quotable m \<Longrightarrow> 34 \<notin> set link \<Longrightarrow> p \<in> set (description_pieces link m) \<Longrightarrow> piece_ok p"
  using slug_units [of "me_slug m" 34]
  by (auto simp: description_pieces_def quotable_def lower_name_def RAW_TEXT_def slug_unit_def Let_def dest: items_ok)

lemma decode_plain: "38 \<notin> set s \<Longrightarrow> decodeAttribute s = s"
proof (induction s)
  case Nil
  then show ?case by (simp add: decodeAttribute.simps)
next
  case (Cons c s)
  then show ?case by (subst decodeAttribute.simps) (simp add: reference_length_def js_starts_iff)
qed

lemma play_figure:
  assumes m: "quotable m" and base: "38 \<notin> set base" and sc: "sc_depth sc = 0" "length (sc_figures sc) < MAX_FIGURES"
  shows "fold play (figure_pieces base m) sc =
    sc\<lparr>sc_figures := sc_figures sc @ [\<lparr>pf_slug = me_slug m, pf_urls = [base @ js ''/'' @ me_slug m @ js ''.static.svg'', base @ js ''/'' @ me_slug m @ js ''.svg'']\<rparr>]\<rparr>"
proof -
  have slug: "38 \<notin> set (me_slug m)" "me_slug m \<noteq> []"
    using m slug_units [of "me_slug m" 38] slug_plain [of "me_slug m"] by (auto simp: quotable_def slug_unit_def)
  have decode: "decodeAttribute (me_slug m) = me_slug m" "decodeAttribute (js ''praetor-figure'') = js ''praetor-figure''"
      "decodeAttribute (base @ js ''/'' @ me_slug m @ js ''.static.svg'') = base @ js ''/'' @ me_slug m @ js ''.static.svg''"
      "decodeAttribute (base @ js ''/'' @ me_slug m @ js ''.svg'') = base @ js ''/'' @ me_slug m @ js ''.svg''"
    using base slug by (intro decode_plain; simp)+
  have page_words: "js ''praetor-figure'' \<in> set (page_words (js ''praetor-figure''))" by (simp add: page_words_def py_space_def)
  show ?thesis
    using sc slug decode page_words
    by (simp add: figure_pieces_def Let_def handleStart_def handleEnd_def figureStart_def attribute_text_def add_url_def)
qed

lemma play_outside:
  "sc_depth sc = 0 \<Longrightarrow> t \<notin> {js ''pre'', js ''script'', js ''figure''} \<Longrightarrow> play (POpen t as) sc = sc"
  by (simp add: handleStart_def Let_def)

lemma play_close_outside: "sc_depth sc = 0 \<Longrightarrow> play (PClose t) sc = sc"
  by (simp add: handleEnd_def)

lemma play_items: "sc_depth sc = 0 \<Longrightarrow> fold play (items_pieces ls) sc = sc"
  by (induction ls rule: items_pieces.induct) (simp_all add: item_pieces_def handleStart_def handleEnd_def Let_def)

lemma play_description: "sc_depth sc = 0 \<Longrightarrow> fold play (description_pieces link m) sc = sc"
  by (simp add: description_pieces_def Let_def handleStart_def handleEnd_def play_items)

text \<open>Markup around the figures of a page: no diagram, script or figure element of its own.\<close>

fun neutral :: "piece \<Rightarrow> bool" where
  "neutral (POpen t as) = (t \<notin> {js ''pre'', js ''script'', js ''figure''})"
| "neutral _ = True"

lemma play_neutral: "sc_depth sc = 0 \<Longrightarrow> \<forall>p \<in> set ps. neutral p \<Longrightarrow> fold play ps sc = sc"
proof (induction ps)
  case (Cons p ps)
  have "play p sc = sc" using Cons.prems play_outside play_close_outside by (cases p) auto
  with Cons show ?case by simp
qed simp

definition figure_entry :: "jsstr \<Rightarrow> meta \<Rightarrow> page_figure" where
  "figure_entry base m =
     \<lparr>pf_slug = me_slug m, pf_urls = [base @ js ''/'' @ me_slug m @ js ''.static.svg'', base @ js ''/'' @ me_slug m @ js ''.svg'']\<rparr>"

definition section_pieces :: "jsstr \<Rightarrow> jsstr \<Rightarrow> piece list \<times> meta \<Rightarrow> piece list" where
  "section_pieces base link sec = fst sec @ figure_pieces base (snd sec) @ description_pieces link (snd sec)"

lemma play_sections:
  "\<forall>(ps, m) \<in> set secs. quotable m \<and> (\<forall>p \<in> set ps. neutral p) \<Longrightarrow> 38 \<notin> set base \<Longrightarrow> sc_depth sc = 0 \<Longrightarrow>
     length (sc_figures sc) + length secs \<le> MAX_FIGURES \<Longrightarrow>
     fold play (concat (map (section_pieces base link) secs)) sc = sc\<lparr>sc_figures := sc_figures sc @ map (figure_entry base \<circ> snd) secs\<rparr>"
proof (induction secs arbitrary: sc)
  case (Cons sec secs)
  obtain ps m where sec: "sec = (ps, m)" by (cases sec)
  let ?sc = "sc\<lparr>sc_figures := sc_figures sc @ [figure_entry base m]\<rparr>"
  have "fold play ps sc = sc" using Cons.prems sec by (intro play_neutral) auto
  moreover have "fold play (figure_pieces base m) sc = ?sc"
    unfolding figure_entry_def using Cons.prems sec by (intro play_figure) auto
  moreover have "fold play (description_pieces link m) ?sc = ?sc" using Cons.prems by (intro play_description) simp
  ultimately have one: "fold play (section_pieces base link sec) sc = ?sc" by (simp add: section_pieces_def sec)
  have "fold play (concat (map (section_pieces base link) secs)) ?sc = ?sc\<lparr>sc_figures := sc_figures ?sc @ map (figure_entry base \<circ> snd) secs\<rparr>"
    using Cons.prems by (intro Cons.IH) auto
  with one show ?case by (simp add: sec)
qed simp

section \<open>Properties\<close>

text \<open>
  C35. The page checker sees every figure the renderer writes: on a page of any number of sections, each plain markup
  followed by the markup of a figure, \<open>scanPage\<close> finds exactly those figures, in order, each with its slug and its
  two image URLs, and no diagram or script. Text, titles and descriptions are arbitrary; they are escaped.
\<close>

theorem scanPage_finds_figures:
  assumes "\<forall>(ps, m) \<in> set secs. quotable m \<and> (\<forall>p \<in> set ps. piece_ok p \<and> neutral p)" and "\<forall>p \<in> set rest. piece_ok p \<and> neutral p"
    and "34 \<notin> set base" and "38 \<notin> set base" and "34 \<notin> set link" and "length secs \<le> MAX_FIGURES"
  shows "scanPage (concat (map (\<lambda>(ps, m). concat (map piece_text ps) @ markup_with base link m) secs) @ concat (map piece_text rest)) =
    \<lparr>sp_mermaid = 0, sp_figures = map (figure_entry base \<circ> snd) secs, sp_scripts = []\<rparr>"
proof -
  let ?all = "concat (map (section_pieces base link) secs) @ rest"
  have one: "concat (map piece_text (section_pieces base link (ps, m))) = concat (map piece_text ps) @ markup_with base link m" for ps m
    by (simp add: section_pieces_def markup_pieces)
  have html: "concat (map (\<lambda>(ps, m). concat (map piece_text ps) @ markup_with base link m) secs) @ concat (map piece_text rest) =
      concat (map piece_text ?all)"
    using one by (induction secs) auto
  have ok: "\<forall>p \<in> set ?all. piece_ok p"
    using assms(1-5) figure_ok description_ok by (fastforce simp: section_pieces_def)
  have "fold play (concat (map (section_pieces base link) secs)) empty_scan =
      empty_scan\<lparr>sc_figures := sc_figures empty_scan @ map (figure_entry base \<circ> snd) secs\<rparr>"
    using assms by (intro play_sections) (auto simp: empty_scan_def)
  moreover have "fold play rest sc = sc" if "sc_depth sc = 0" for sc
    using that assms(2) by (intro play_neutral) auto
  ultimately have "fold play ?all empty_scan = empty_scan\<lparr>sc_figures := map (figure_entry base \<circ> snd) secs\<rparr>"
    by (simp add: empty_scan_def)
  then show ?thesis unfolding html scanPage_pieces [OF ok] by (simp add: empty_scan_def)
qed

lemma scanPage_finds_figures_witness:
  "scanPage (concat (map piece_text [POpen (js ''h1'') [], PText (js ''Flow''), PClose (js ''h1'')]) @ markup_with (js ''../a'') (js ''u'') sample_meta) =
     \<lparr>sp_mermaid = 0, sp_figures = [figure_entry (js ''../a'') sample_meta], sp_scripts = []\<rparr>"
proof -
  show ?thesis
    using scanPage_finds_figures [of "[([POpen (js ''h1'') [], PText (js ''Flow''), PClose (js ''h1'')], sample_meta)]" "[]" "js ''../a''" "js ''u''"]
    by (simp add: quotable_def sample_meta_def SLUG_def slug_unit_def lower_name_def RAW_TEXT_def MAX_FIGURES_def)
qed

end
