(* ===== verification/NodeDisk.thy ===== *)
theory NodeDisk
  imports WhatwgURL "HOL-Library.List_Lexorder"
begin

text \<open>
  A file tree and the calls of Node's \<open>fs\<close> module the figure tools make on it: \<open>statSync\<close>,
  \<open>existsSync\<close>, \<open>readdirSync\<close>, \<open>readFileSync\<close>, \<open>writeFileSync\<close>, \<open>copyFileSync\<close>, \<open>mkdirSync\<close> with
  \<open>recursive\<close> and \<open>rmSync\<close>. A path is its resolved parts. Symbolic links are followed before
  a path reaches the tree, so the tree holds none; \<open>Denied\<close> is a path whose status cannot be read.
\<close>

datatype node = RegularFile jsstr | Directory | Special | Denied

record disk =
  dk_cwd :: jsstr
  dk_nodes :: "(jsstr list \<times> node) list"

datatype disk_error =
    StatFailed jsstr
  | NoSuchFile jsstr
  | NotWritable jsstr
  | NotADirectory "jsstr list"

definition disk_parts :: "disk \<Rightarrow> jsstr \<Rightarrow> jsstr list" where
  "disk_parts d p = path_parts (path_resolve (dk_cwd d) [p])"

definition node_of :: "disk \<Rightarrow> jsstr list \<Rightarrow> node option" where
  "node_of d ps = (if ps = [] then Some Directory else map_of (dk_nodes d) ps)"

definition node_at :: "disk \<Rightarrow> jsstr \<Rightarrow> node option" where
  "node_at d p = node_of d (disk_parts d p)"

definition put_node :: "jsstr list \<Rightarrow> node \<Rightarrow> disk \<Rightarrow> disk" where
  "put_node ps n d = d\<lparr>dk_nodes := (ps, n) # filter (\<lambda>e. fst e \<noteq> ps) (dk_nodes d)\<rparr>"

definition drop_node :: "jsstr list \<Rightarrow> disk \<Rightarrow> disk" where
  "drop_node ps d = d\<lparr>dk_nodes := filter (\<lambda>e. fst e \<noteq> ps) (dk_nodes d)\<rparr>"

definition existsSync :: "disk \<Rightarrow> jsstr \<Rightarrow> bool" where
  "existsSync d p \<longleftrightarrow> node_at d p \<noteq> None \<and> node_at d p \<noteq> Some Denied"

definition readFileSync :: "disk \<Rightarrow> jsstr \<Rightarrow> (disk_error, jsstr) res" where
  "readFileSync d p = (case node_at d p of Some (RegularFile content) \<Rightarrow> Inr content | _ \<Rightarrow> Inl (NoSuchFile p))"

text \<open>The names in a directory, each once, with whether the entry is a regular file.\<close>

definition is_regular :: "node option \<Rightarrow> bool" where
  "is_regular n \<longleftrightarrow> (case n of Some (RegularFile _) \<Rightarrow> True | _ \<Rightarrow> False)"

definition readdirSync :: "disk \<Rightarrow> jsstr \<Rightarrow> (jsstr \<times> bool) list" where
  "readdirSync d p =
     map (\<lambda>ps. (last ps, is_regular (node_of d ps)))
       (js_uniq (filter (\<lambda>ps. ps \<noteq> [] \<and> butlast ps = disk_parts d p) (map fst (dk_nodes d))))"

definition write_node :: "jsstr \<Rightarrow> jsstr list \<Rightarrow> jsstr \<Rightarrow> disk \<Rightarrow> (disk_error, disk) res" where
  "write_node p ps content d =
     throw_if (ps = [] \<or> node_of d (butlast ps) \<noteq> Some Directory) (NoSuchFile p)
       (case node_of d ps of
          None \<Rightarrow> Inr (put_node ps (RegularFile content) d)
        | Some (RegularFile _) \<Rightarrow> Inr (put_node ps (RegularFile content) d)
        | Some _ \<Rightarrow> Inl (NotWritable p))"

text \<open>Text is written as UTF-8, which replaces a lone surrogate.\<close>

definition writeFileSync :: "jsstr \<Rightarrow> jsstr \<Rightarrow> disk \<Rightarrow> (disk_error, disk) res" where
  "writeFileSync p content d = write_node p (disk_parts d p) (to_well_formed content) d"

definition copyFileSync :: "jsstr \<Rightarrow> jsstr \<Rightarrow> disk \<Rightarrow> (disk_error, disk) res" where
  "copyFileSync source target d =
     res_bind (readFileSync d source) (\<lambda>content. write_node target (disk_parts d target) content d)"

definition rmSync :: "jsstr \<Rightarrow> disk \<Rightarrow> (disk_error, disk) res" where
  "rmSync p d =
     (case node_at d p of
        Some (RegularFile _) \<Rightarrow> Inr (drop_node (disk_parts d p) d)
      | _ \<Rightarrow> Inl (NoSuchFile p))"

definition make_dir :: "jsstr list \<Rightarrow> disk \<Rightarrow> (disk_error, disk) res" where
  "make_dir ps d =
     (case node_of d ps of
        None \<Rightarrow> Inr (put_node ps Directory d)
      | Some Directory \<Rightarrow> Inr d
      | Some _ \<Rightarrow> Inl (NotADirectory ps))"

definition mkdirSync :: "jsstr \<Rightarrow> disk \<Rightarrow> (disk_error, disk) res" where
  "mkdirSync p d = fold_res make_dir (prefixes (disk_parts d p)) d"

section \<open>Lemmas\<close>

lemma map_of_filter_other: "k \<noteq> k' \<Longrightarrow> map_of (filter (\<lambda>e. fst e \<noteq> k') xs) k = map_of xs k"
  by (induction xs) auto

lemma map_of_filter_same: "map_of (filter (\<lambda>e. fst e \<noteq> k) xs) k = None"
  by (induction xs) auto

lemma node_of_put: "ps \<noteq> [] \<Longrightarrow> node_of (put_node ps n d) qs = (if qs = ps then Some n else node_of d qs)"
  by (auto simp: node_of_def put_node_def map_of_filter_other)

lemma node_of_drop: "ps \<noteq> [] \<Longrightarrow> node_of (drop_node ps d) qs = (if qs = ps then None else node_of d qs)"
  by (auto simp: node_of_def drop_node_def map_of_filter_other map_of_filter_same)

lemma cwd_kept [simp]: "dk_cwd (put_node ps n d) = dk_cwd d" "dk_cwd (drop_node ps d) = dk_cwd d"
  by (simp_all add: put_node_def drop_node_def)

lemma disk_parts_cwd: "dk_cwd d = dk_cwd e \<Longrightarrow> disk_parts d p = disk_parts e p"
  by (simp add: disk_parts_def)

lemma write_node_Inr:
  assumes "write_node p ps content d = Inr d'"
  shows "dk_cwd d' = dk_cwd d \<and> ps \<noteq> [] \<and> (\<forall>qs. node_of d' qs = (if qs = ps then Some (RegularFile content) else node_of d qs))"
proof -
  from assms have ps: "ps \<noteq> []" and "d' = put_node ps (RegularFile content) d"
    by (auto simp: write_node_def throw_if_Inr_iff split: option.splits node.splits)
  then show ?thesis by (simp add: node_of_put)
qed

text \<open>A change that keeps every entry of the tree.\<close>

definition extends :: "disk \<Rightarrow> disk \<Rightarrow> bool" where
  "extends d d' \<longleftrightarrow> dk_cwd d' = dk_cwd d \<and> (\<forall>ps n. node_of d ps = Some n \<longrightarrow> node_of d' ps = Some n)"

lemma extends_refl [simp]: "extends d d"
  by (simp add: extends_def)

lemma extends_trans [trans]: "extends a b \<Longrightarrow> extends b c \<Longrightarrow> extends a c"
  by (simp add: extends_def)

lemma extends_parts: "extends d d' \<Longrightarrow> disk_parts d' p = disk_parts d p"
  by (simp add: extends_def disk_parts_def)

lemma extends_node_at: "extends d d' \<Longrightarrow> node_at d p = Some n \<Longrightarrow> node_at d' p = Some n"
  unfolding extends_def node_at_def using disk_parts_cwd by metis

lemma make_dir_extends: "make_dir ps d = Inr d' \<Longrightarrow> extends d d'"
proof -
  assume made: "make_dir ps d = Inr d'"
  show ?thesis
  proof (cases "node_of d ps = None")
    case True
    then have "ps \<noteq> []" by (auto simp: node_of_def)
    with made True show ?thesis by (auto simp: make_dir_def extends_def node_of_put)
  next
    case False
    with made show ?thesis by (auto simp: make_dir_def split: option.splits node.splits)
  qed
qed

lemma mkdirSync_extends: "mkdirSync p d = Inr d' \<Longrightarrow> extends d d'"
proof -
  have "fold_res make_dir xs e = Inr e' \<Longrightarrow> extends e e'" for xs e e'
    by (induction xs arbitrary: e) (auto simp: res_bind_Inr_iff dest!: make_dir_extends intro: extends_trans)
  then show "mkdirSync p d = Inr d' \<Longrightarrow> extends d d'" by (simp add: mkdirSync_def)
qed

text \<open>Making directories adds nothing but directories, on the way to the one asked for.\<close>

lemma make_dir_new: "make_dir ps d = Inr d' \<Longrightarrow> node_of d qs = None \<Longrightarrow> node_of d' qs = Some n \<Longrightarrow> n = Directory \<and> qs = ps"
proof -
  assume made: "make_dir ps d = Inr d'" and new: "node_of d qs = None" "node_of d' qs = Some n"
  then have "node_of d ps = None" "d' = put_node ps Directory d"
    by (auto simp: make_dir_def split: option.splits node.splits)
  moreover from this have "ps \<noteq> []" by (auto simp: node_of_def)
  ultimately show ?thesis using new by (simp add: node_of_put split: if_splits)
qed

lemma mkdirSync_new:
  assumes "mkdirSync p d = Inr d'" and "node_of d qs = None" and "node_of d' qs = Some n"
  shows "n = Directory \<and> prefix qs (disk_parts d p)"
proof -
  have "n = Directory \<and> qs \<in> set xs" if "fold_res make_dir xs e = Inr e'" "node_of e qs = None" "node_of e' qs = Some n" for xs e e'
    using that
  proof (induction xs arbitrary: e)
    case (Cons x xs)
    then obtain mid where mid: "make_dir x e = Inr mid" "fold_res make_dir xs mid = Inr e'" by (auto simp: res_bind_Inr_iff)
    show ?case
    proof (cases "node_of mid qs")
      case None
      then show ?thesis using Cons mid(2) by auto
    next
      case (Some k)
      have "extends mid e'" using mid(2)
        by (induction xs arbitrary: mid) (auto simp: res_bind_Inr_iff dest!: make_dir_extends intro: extends_trans)
      then have "k = n" using Some Cons.prems(3) by (auto simp: extends_def)
      then show ?thesis using make_dir_new [OF mid(1) Cons.prems(2) Some] by simp
    qed
  qed simp
  from this [of "prefixes (disk_parts d p)" d d'] assms show ?thesis by (simp add: mkdirSync_def)
qed

lemma is_regular_iff: "is_regular n \<longleftrightarrow> (\<exists>content. n = Some (RegularFile content))"
  by (auto simp: is_regular_def split: option.splits node.splits)

lemma readdir_file: "(name, True) \<in> set (readdirSync d p) \<longleftrightarrow> is_regular (node_of d (disk_parts d p @ [name]))"
proof
  assume "(name, True) \<in> set (readdirSync d p)"
  then obtain ps where ps: "ps \<noteq> []" "butlast ps = disk_parts d p" "name = last ps" "is_regular (node_of d ps)"
    by (auto simp: readdirSync_def)
  then have "ps = disk_parts d p @ [name]" by (metis append_butlast_last_id)
  with ps(4) show "is_regular (node_of d (disk_parts d p @ [name]))" by simp
next
  let ?ps = "disk_parts d p @ [name]"
  assume reg: "is_regular (node_of d ?ps)"
  then have "?ps \<in> set (map fst (dk_nodes d))"
    by (auto simp: is_regular_iff node_of_def dest!: map_of_SomeD intro!: image_eqI)
  with reg have "(last ?ps, is_regular (node_of d ?ps)) \<in> set (readdirSync d p)"
    unfolding readdirSync_def by (auto intro!: image_eqI [where x = ?ps])
  with reg show "(name, True) \<in> set (readdirSync d p)" by simp
qed

end
