(* ===== verification/FigureServe.thy ===== *)
theory FigureServe
  imports NodeDisk
begin

text \<open>
  The static file server and the publisher of the figure files (\<^verbatim>\<open>src/tools/figures/serve.mjs\<close>):
  which file a request gets from the mounts, the handler's answer, and the copy of the mounts into a built
  site. The URL of a request is parsed by \<open>URL\<close>, whose \<open>pathname\<close> is a parameter.
\<close>

definition FIGURES_URI :: jsstr where "FIGURES_URI = js ''assets/figures''"
definition PLAYER_URI :: jsstr where "PLAYER_URI = js ''assets/javascripts/figures''"
definition MAX_MOUNT_FILES :: nat where "MAX_MOUNT_FILES = 1024"

definition TYPES :: "(jsstr \<times> jsstr) list" where
  "TYPES =
     [(js ''.html'', js ''text/html; charset=utf-8''), (js ''.js'', js ''text/javascript; charset=utf-8''),
      (js ''.css'', js ''text/css; charset=utf-8''), (js ''.json'', js ''application/json''), (js ''.svg'', js ''image/svg+xml''),
      (js ''.png'', js ''image/png''), (js ''.ico'', js ''image/x-icon''), (js ''.xml'', js ''application/xml''),
      (js ''.txt'', js ''text/plain; charset=utf-8''), (js ''.woff2'', js ''font/woff2'')]"

definition basePath :: "jsstr \<Rightarrow> jsstr" where
  "basePath base =
     (let inner = js_join [SLASH] (path_parts base) in if inner \<noteq> [] then [SLASH] @ inner @ [SLASH] else [SLASH])"

record mount =
  mt_uri :: jsstr
  mt_dir :: jsstr

text \<open>
  \<open>statOrNull\<close>: \<open>None\<close> for a path with nothing readable (\<open>ENOENT\<close> and its like), an error that names the
  path for any other failure, a path with a NUL among them.
\<close>

definition statOrNull :: "disk \<Rightarrow> jsstr \<Rightarrow> (disk_error, node option) res" where
  "statOrNull d p = (if 0 \<in> set p \<or> node_at d p = Some Denied then Inl (StatFailed p) else Inr (node_at d p))"

section \<open>Requests\<close>

text \<open>The bytes of a run of percent triplets, and \<open>decodeURIComponent\<close>: \<open>None\<close> is a \<open>URIError\<close>.\<close>

definition triplet :: "jsstr \<Rightarrow> nat option" where
  "triplet s =
     (case s of
        c # a # b # _ \<Rightarrow> if c = 37 \<and> is_hex a \<and> is_hex b then Some (hex_value a * 16 + hex_value b) else None
      | _ \<Rightarrow> None)"

fun triplets :: "nat \<Rightarrow> jsstr \<Rightarrow> nat list option" where
  "triplets 0 s = Some []"
| "triplets (Suc n) s =
     (case triplet s of
        None \<Rightarrow> None
      | Some b \<Rightarrow> map_option (\<lambda>bs. b # bs) (triplets n (drop 3 s)))"

definition sequence_length :: "nat \<Rightarrow> nat" where
  "sequence_length b = (if b < 0xC0 then 1 else if b < 0xE0 then 2 else if b < 0xF0 then 3 else 4)"

function decodeURIComponent :: "jsstr \<Rightarrow> jsstr option" where
  "decodeURIComponent s =
     (case s of
        [] \<Rightarrow> Some []
      | c # r \<Rightarrow>
          if c \<noteq> 37 then map_option (\<lambda>t. c # t) (decodeURIComponent r)
          else
            (case triplet s of
               None \<Rightarrow> None
             | Some b \<Rightarrow>
                 (let n = sequence_length b in
                  case Option.bind (triplets n s) utf8_decode of
                    None \<Rightarrow> None
                  | Some units \<Rightarrow> map_option (\<lambda>t. units @ t) (decodeURIComponent (drop (3 * n) s)))))"
  by pat_completeness auto
termination
  by (relation "measure length") (auto simp: sequence_length_def split: if_splits)

declare decodeURIComponent.simps [simp del]

datatype found = Status nat | Found jsstr jsstr

definition mount_prefix :: "jsstr \<Rightarrow> mount \<Rightarrow> jsstr" where
  "mount_prefix site_root m = (if mt_uri m \<noteq> [] then site_root @ mt_uri m @ [SLASH] else site_root)"

definition content_type :: "jsstr \<Rightarrow> jsstr" where
  "content_type p =
     (case map_of TYPES (js_lower (path_extname p)) of None \<Rightarrow> js ''application/octet-stream'' | Some t \<Rightarrow> t)"

text \<open>The file of a request inside one directory, after the prefix of its mount.\<close>

definition locate_in :: "disk \<Rightarrow> jsstr \<Rightarrow> jsstr \<Rightarrow> (disk_error, found) res" where
  "locate_in d mount_dir rest =
     (let dir = path_resolve (dk_cwd d) [mount_dir]; requested = path_resolve (dk_cwd d) [dir, [DOT, SLASH] @ rest] in
      if requested \<noteq> dir \<and> \<not> js_starts requested (dir @ [SLASH]) then Inr (Status 403)
      else
        res_bind (statOrNull d requested) (\<lambda>first.
          let name = (if first = Some Directory then path_join [requested, js ''index.html''] else requested) in
          res_bind (statOrNull d name) (\<lambda>st.
            if is_regular st then Inr (Found name (content_type name)) else Inr (Status 404))))"

definition locate :: "disk \<Rightarrow> mount list \<Rightarrow> jsstr \<Rightarrow> jsstr \<Rightarrow> (disk_error, found) res" where
  "locate d mounts base pathname =
     (case decodeURIComponent pathname of
        None \<Rightarrow> Inr (Status 400)
      | Some decoded \<Rightarrow>
          (let site_root = basePath base in
           case find (\<lambda>m. js_starts decoded (mount_prefix site_root m)) mounts of
             None \<Rightarrow> Inr (Status 0)
           | Some m \<Rightarrow> locate_in d (mt_dir m) (drop (length (mount_prefix site_root m)) decoded)))"

datatype answer = CallNext | Respond nat "jsstr option" jsstr

text \<open>\<open>staticHandler\<close>: \<open>has_next\<close> tells whether the caller passed a next handler.\<close>

definition staticHandler ::
  "(jsstr \<Rightarrow> jsstr option) \<Rightarrow> disk \<Rightarrow> mount list \<Rightarrow> jsstr \<Rightarrow> jsstr option \<Rightarrow> bool \<Rightarrow> answer" where
  "staticHandler url_pathname d mounts base request_url has_next =
     (let located =
        (case url_pathname (case request_url of None \<Rightarrow> [SLASH] | Some u \<Rightarrow> u) of
           None \<Rightarrow> None
         | Some pathname \<Rightarrow>
             (case locate d mounts base pathname of
                Inl _ \<Rightarrow> None
              | Inr (Found name ctype) \<Rightarrow>
                  (case readFileSync d name of Inl _ \<Rightarrow> None | Inr body \<Rightarrow> Some (Respond 200 (Some ctype) body))
              | Inr (Status n) \<Rightarrow>
                  Some (if n = 0 \<and> has_next then CallNext else Respond (if n = 0 then 404 else n) None []))) in
      case located of None \<Rightarrow> Respond 500 None [] | Some a \<Rightarrow> a)"

section \<open>Publishing\<close>

datatype publish_error = DiskFailed disk_error | TooManyMountFiles jsstr

definition lift_disk :: "(disk_error, 'a) res \<Rightarrow> (publish_error, 'a) res" where
  "lift_disk r = (case r of Inl e \<Rightarrow> Inl (DiskFailed e) | Inr x \<Rightarrow> Inr x)"

definition mountFiles :: "disk \<Rightarrow> jsstr \<Rightarrow> (publish_error, jsstr list) res" where
  "mountFiles d dir =
     res_bind (lift_disk (statOrNull d dir)) (\<lambda>st.
       if st \<noteq> Some Directory then Inr []
       else
         (let names = sort (map fst (filter snd (readdirSync d dir))) in
          throw_if (length names > MAX_MOUNT_FILES) (TooManyMountFiles dir) (Inr names)))"

record published =
  pu_disk :: disk
  pu_copied :: "jsstr list"
  pu_kept :: "jsstr list"

definition publish_name :: "jsstr \<Rightarrow> mount \<Rightarrow> jsstr \<Rightarrow> published \<Rightarrow> (publish_error, published) res" where
  "publish_name outDir m name pu =
     (let uri = (if mt_uri m \<noteq> [] then mt_uri m @ [SLASH] @ name else name);
          target = path_join [outDir, mt_uri m, name]; d = pu_disk pu in
      res_bind (lift_disk (statOrNull d target)) (\<lambda>st.
        if st \<noteq> None then Inr (pu\<lparr>pu_kept := pu_kept pu @ [uri]\<rparr>)
        else
          res_bind (lift_disk (copyFileSync (path_join [mt_dir m, name]) target d)) (\<lambda>d'.
            Inr (pu\<lparr>pu_disk := d', pu_copied := pu_copied pu @ [uri]\<rparr>))))"

definition publish_mount :: "jsstr \<Rightarrow> mount \<Rightarrow> published \<Rightarrow> (publish_error, published) res" where
  "publish_mount outDir m pu =
     res_bind (mountFiles (pu_disk pu) (mt_dir m)) (\<lambda>names.
     res_bind (if names \<noteq> [] then lift_disk (mkdirSync (path_join [outDir, mt_uri m]) (pu_disk pu)) else Inr (pu_disk pu)) (\<lambda>d.
       fold_res (publish_name outDir m) names (pu\<lparr>pu_disk := d\<rparr>)))"

definition publish :: "mount list \<Rightarrow> jsstr \<Rightarrow> disk \<Rightarrow> (publish_error, published) res" where
  "publish mounts outDir d =
     fold_res (publish_mount outDir) mounts \<lparr>pu_disk = d, pu_copied = [], pu_kept = []\<rparr>"

section \<open>Lemmas: paths below a directory\<close>

lemma js_split_append_sep: "js_split c (a @ c # b) = js_split c a @ js_split c b"
proof (induction a)
  case (Cons x a)
  show ?case using Cons by (cases "js_split c a") auto
qed simp

lemma path_parts_append_slash: "path_parts (a @ SLASH # b) = path_parts a @ path_parts b"
  by (simp add: path_parts_def js_split_append_sep)

lemma resolved_parts:
  obtains xs where "path_resolve cwd ps = abs_path xs" "path_parts (path_resolve cwd ps) = xs" "\<forall>s \<in> set xs. plain_seg s"
proof -
  let ?xs = "resolve_parts (norm_parts False (path_parts cwd)) ps"
  have plain: "\<forall>s \<in> set ?xs. plain_seg s"
    using norm_parts_path_normal [of False cwd] by (intro resolve_parts_plain) (simp add: normal_parts_False)
  moreover have "path_parts (abs_path ?xs) = ?xs" using plain by (intro path_parts_abs_path) (auto simp: plain_seg_def)
  ultimately show ?thesis using that by (simp add: path_resolve_def)
qed

lemma is_absolute_abs_path [simp]: "is_absolute (abs_path xs)"
  by (simp add: is_absolute_def abs_path_def)

lemma disk_parts_absolute:
  assumes "is_absolute p" and "\<forall>s \<in> set (path_parts p). plain_seg s"
  shows "disk_parts d p = path_parts p"
proof -
  have "norm_parts False (path_parts p) = path_parts p" using assms(2) by (simp add: norm_parts_def fold_norm_plain)
  then have "path_resolve (dk_cwd d) [p] = abs_path (path_parts p)" using assms(1) by (simp add: path_resolve_def)
  moreover have "path_parts (abs_path (path_parts p)) = path_parts p"
    using assms(2) by (intro path_parts_abs_path) (auto simp: plain_seg_def)
  ultimately show ?thesis by (simp add: disk_parts_def)
qed

lemma join_relative:
  assumes "is_absolute p" and "\<forall>s \<in> set (path_parts p). plain_seg s"
    and "path_parts n \<noteq> []" and "\<forall>s \<in> set (path_parts n). plain_seg s"
  shows "path_parts (path_join [p, n]) = path_parts p @ path_parts n" and "is_absolute (path_join [p, n])"
proof -
  let ?q = "p @ SLASH # n"
  have p: "p \<noteq> []" using assms(1) by (auto simp: is_absolute_def)
  have "n \<noteq> []" using assms(3) by (auto simp: path_parts_def)
  with p have join: "path_join [p, n] = path_normalize ?q" by (simp add: path_join_def)
  have absolute: "is_absolute ?q" using assms(1) p by (cases p) (auto simp: is_absolute_def)
  have parts: "path_parts ?q = path_parts p @ path_parts n" using path_parts_append_slash [of p n] by simp
  have norm: "norm_parts False (path_parts ?q) = path_parts ?q"
    using assms(2,4) by (simp only: parts norm_parts_def) (subst fold_norm_plain, auto)
  have ne: "?q \<noteq> []" by simp
  have "path_parts (path_normalize ?q) = path_parts ?q"
    using path_normalize_parts [OF ne] absolute norm parts assms(3) by simp
  with join parts show "path_parts (path_join [p, n]) = path_parts p @ path_parts n" by simp
  show "is_absolute (path_join [p, n])"
    using absolute ne unfolding join path_normalize_def Let_def by (auto simp: is_absolute_def)
qed

lemma plain_seg_parts: "plain_seg n \<Longrightarrow> path_parts n = [n]"
  using path_parts_join [of "[n]"] by (simp add: plain_seg_def)

lemma join_plain:
  assumes "is_absolute p" and "\<forall>s \<in> set (path_parts p). plain_seg s" and "plain_seg n"
  shows "path_parts (path_join [p, n]) = path_parts p @ [n]" and "is_absolute (path_join [p, n])"
  using join_relative [OF assms(1,2), of n] assms(3) plain_seg_parts by simp_all

lemma plain_index: "plain_seg (js ''index.html'')"
  by (simp add: plain_seg_def dot_seg_def dotdot_seg_def)

lemmas join_index = join_plain [OF _ _ plain_index]

lemma below_directory:
  assumes "requested = path_resolve cwd ps" and "dir = path_resolve cwd qs"
    and "requested = dir \<or> js_starts requested (dir @ [SLASH])"
  shows "prefix (path_parts dir) (path_parts requested)"
proof (cases "requested = dir")
  case False
  with assms(3) obtain t where "requested = dir @ SLASH # t" by (auto simp: js_starts_iff)
  then show ?thesis by (simp add: path_parts_append_slash)
qed simp

lemma locate_in_confined:
  assumes "locate_in d mount_dir rest = Inr (Found name ctype)"
  shows "\<exists>ps. path_parts name = ps \<and> prefix (disk_parts d mount_dir) ps \<and> (\<forall>s \<in> set ps. plain_seg s) \<and>
    disk_parts d name = ps \<and> is_regular (node_of d ps)"
proof -
  define dir where "dir = path_resolve (dk_cwd d) [mount_dir]"
  define requested where "requested = path_resolve (dk_cwd d) [dir, [DOT, SLASH] @ rest]"
  have "(requested = dir \<or> js_starts requested (dir @ [SLASH])) \<and>
      (name = requested \<or> name = path_join [requested, js ''index.html'']) \<and> is_regular (node_at d name)"
    using assms unfolding locate_in_def Let_def dir_def [symmetric] requested_def [symmetric]
    by (auto simp: res_bind_Inr_iff statOrNull_def split: if_splits)
  then have inside: "requested = dir \<or> js_starts requested (dir @ [SLASH])"
    and name: "name = requested \<or> name = path_join [requested, js ''index.html'']" and reg: "is_regular (node_at d name)"
    by blast+
  obtain xs where xs: "requested = abs_path xs" "path_parts requested = xs" "\<forall>s \<in> set xs. plain_seg s"
    unfolding requested_def by (rule resolved_parts)
  have absolute: "is_absolute requested" and plain: "\<forall>s \<in> set (path_parts requested). plain_seg s" using xs by simp_all
  have below: "prefix (disk_parts d mount_dir) (path_parts requested)"
    using below_directory [OF requested_def dir_def inside] by (simp add: disk_parts_def dir_def)
  have "is_absolute name \<and> prefix (path_parts requested) (path_parts name) \<and> (\<forall>s \<in> set (path_parts name). plain_seg s)"
    using name
  proof
    assume "name = path_join [requested, js ''index.html'']"
    with join_index [OF absolute plain] plain show ?thesis by (simp add: plain_seg_def dot_seg_def dotdot_seg_def)
  qed (use absolute plain in simp)
  moreover from this have "disk_parts d name = path_parts name" by (intro disk_parts_absolute) auto
  ultimately show ?thesis using below reg by (auto simp: node_at_def intro: prefix_order.trans)
qed

text \<open>A directory named by an absolute path without dot parts, and files written into it.\<close>

definition clean_dir :: "jsstr \<Rightarrow> bool" where
  "clean_dir dir \<longleftrightarrow> is_absolute dir \<and> (\<forall>s \<in> set (path_parts dir). plain_seg s)"

lemma clean_dir_parts: "clean_dir dir \<Longrightarrow> disk_parts d dir = path_parts dir"
  by (simp add: clean_dir_def disk_parts_absolute)

lemma clean_dir_join:
  assumes "clean_dir dir" and "plain_seg n"
  shows "disk_parts d (path_join [dir, n]) = path_parts dir @ [n]"
proof -
  have "is_absolute (path_join [dir, n])" "path_parts (path_join [dir, n]) = path_parts dir @ [n]"
    using assms join_plain by (auto simp: clean_dir_def)
  with assms show ?thesis by (subst disk_parts_absolute) (auto simp: clean_dir_def)
qed

lemma write_nodes_facts:
  assumes "clean_dir dir"
    and step: "\<And>x d. step x d = write_node (path_join [dir, fst x]) (disk_parts d (path_join [dir, fst x])) (g (snd x)) d"
  shows "fold_res step out d = Inr d' \<Longrightarrow> \<forall>n \<in> fst ` set out. plain_seg n \<Longrightarrow> distinct (map fst out) \<Longrightarrow>
     dk_cwd d' = dk_cwd d \<and> (\<forall>(n, c) \<in> set out. node_of d' (path_parts dir @ [n]) = Some (RegularFile (g c))) \<and>
     (\<forall>qs. (\<forall>n \<in> fst ` set out. qs \<noteq> path_parts dir @ [n]) \<longrightarrow> node_of d' qs = node_of d qs)"
proof (induction out arbitrary: d)
  case (Cons o1 out)
  obtain n c where o1: "o1 = (n, c)" by (cases o1)
  from Cons.prems(1) obtain e where one: "step o1 d = Inr e" and rest: "fold_res step out e = Inr d'"
    by (auto simp: res_bind_Inr_iff)
  have "disk_parts d (path_join [dir, n]) = path_parts dir @ [n]" using Cons.prems(2) o1 clean_dir_join [OF assms(1)] by simp
  with one o1 have "write_node (path_join [dir, n]) (path_parts dir @ [n]) (g c) d = Inr e" by (simp add: step)
  note w = write_node_Inr [OF this]
  have ih: "dk_cwd d' = dk_cwd e" "\<forall>(n, c) \<in> set out. node_of d' (path_parts dir @ [n]) = Some (RegularFile (g c))"
      "\<forall>qs. (\<forall>n \<in> fst ` set out. qs \<noteq> path_parts dir @ [n]) \<longrightarrow> node_of d' qs = node_of e qs"
    using Cons.IH [OF rest] Cons.prems(2,3) by simp_all
  have "\<forall>m \<in> fst ` set out. path_parts dir @ [n] \<noteq> path_parts dir @ [m]" using Cons.prems(3) o1 by auto
  with ih(3) w have "node_of d' (path_parts dir @ [n]) = Some (RegularFile (g c))" by (metis (lifting))
  then show ?case using ih w o1 by auto
qed simp

section \<open>Lemmas: publishing\<close>

lemma lift_disk_Inr [simp]: "lift_disk r = Inr x \<longleftrightarrow> r = Inr x"
  by (auto simp: lift_disk_def split: sum.splits)

lemma statOrNull_Inr: "statOrNull d p = Inr st \<longleftrightarrow> 0 \<notin> set p \<and> st = node_at d p \<and> st \<noteq> Some Denied"
  by (auto simp: statOrNull_def)

definition listed :: "disk \<Rightarrow> mount \<Rightarrow> jsstr \<Rightarrow> bool" where
  "listed d m name \<longleftrightarrow> node_at d (mt_dir m) = Some Directory \<and> is_regular (node_of d (disk_parts d (mt_dir m) @ [name]))"

lemma listed_extends: "extends d d' \<Longrightarrow> listed d m name \<Longrightarrow> listed d' m name"
  using disk_parts_cwd [of d' d] extends_node_at [of d d']
  by (auto simp: listed_def is_regular_iff extends_def)

text \<open>
  What publishing may add to a tree: directories on the way to a mount's place in the site, and at the site path of
  a mount's file a copy of that file.
\<close>

definition site_target :: "jsstr \<Rightarrow> mount \<Rightarrow> jsstr \<Rightarrow> jsstr" where
  "site_target outDir m name = path_join [outDir, mt_uri m, name]"

definition mount_file :: "mount \<Rightarrow> jsstr \<Rightarrow> jsstr" where
  "mount_file m name = path_join [mt_dir m, name]"

definition site_entry :: "mount set \<Rightarrow> jsstr \<Rightarrow> disk \<Rightarrow> jsstr list \<Rightarrow> node \<Rightarrow> bool" where
  "site_entry ms outDir d ps n \<longleftrightarrow>
     n = Directory \<and> (\<exists>m \<in> ms. prefix ps (disk_parts d (path_join [outDir, mt_uri m]))) \<or>
     (\<exists>m \<in> ms. \<exists>name content. listed d m name \<and> ps = disk_parts d (site_target outDir m name) \<and>
        n = RegularFile content \<and> node_at d (mount_file m name) = Some n)"

definition publishes :: "mount set \<Rightarrow> jsstr \<Rightarrow> disk \<Rightarrow> disk \<Rightarrow> bool" where
  "publishes ms outDir d d' \<longleftrightarrow>
     extends d d' \<and> (\<forall>ps n. node_of d ps = None \<longrightarrow> node_of d' ps = Some n \<longrightarrow> site_entry ms outDir d' ps n)"

lemma site_entry_extends: "extends d d' \<Longrightarrow> site_entry ms outDir d ps n \<Longrightarrow> site_entry ms outDir d' ps n"
proof -
  assume ext: "extends d d'" and entry: "site_entry ms outDir d ps n"
  then have cwd: "disk_parts d' p = disk_parts d p" for p by (blast intro: extends_parts)
  from entry show ?thesis
    unfolding site_entry_def cwd using listed_extends [OF ext] extends_node_at [OF ext] by blast
qed

lemma publishes_refl [simp]: "publishes ms outDir d d"
  by (simp add: publishes_def)

lemma publishes_trans: "publishes ms outDir a b \<Longrightarrow> publishes ms outDir b c \<Longrightarrow> publishes ms outDir a c"
proof -
  assume ab: "publishes ms outDir a b" and bc: "publishes ms outDir b c"
  then have ext: "extends b c" by (simp add: publishes_def)
  have "site_entry ms outDir c ps n" if "node_of a ps = None" "node_of c ps = Some n" for ps n
  proof (cases "node_of b ps")
    case None
    then show ?thesis using bc that by (simp add: publishes_def)
  next
    case (Some k)
    then have "k = n" using ext that(2) by (auto simp: extends_def)
    then show ?thesis using ab that(1) Some site_entry_extends [OF ext] by (simp add: publishes_def)
  qed
  then show ?thesis using ab bc extends_trans [of a b c] by (simp add: publishes_def)
qed

lemma mkdir_publishes:
  assumes "mkdirSync (path_join [outDir, mt_uri m]) d = Inr d'" and "m \<in> ms"
  shows "publishes ms outDir d d'"
  using mkdirSync_extends [OF assms(1)] mkdirSync_new [OF assms(1)] assms(2) disk_parts_cwd [of d' d]
  unfolding publishes_def site_entry_def extends_def by metis

lemma publish_name_facts:
  assumes "publish_name outDir m name pu = Inr pu'" and "m \<in> ms" and "listed (pu_disk pu) m name"
  shows "publishes ms outDir (pu_disk pu) (pu_disk pu') \<and> node_at (pu_disk pu') (site_target outDir m name) \<noteq> None"
proof (cases "node_at (pu_disk pu) (site_target outDir m name)")
  case None
  let ?t = "site_target outDir m name" and ?d = "pu_disk pu" and ?d' = "pu_disk pu'"
  from assms(1) None obtain content where source: "node_at ?d (mount_file m name) = Some (RegularFile content)"
    and "write_node ?t (disk_parts ?d ?t) content ?d = Inr ?d'"
    by (auto simp: publish_name_def Let_def res_bind_Inr_iff statOrNull_Inr copyFileSync_def readFileSync_def site_target_def
        mount_file_def split: option.splits node.splits)
  note w = write_node_Inr [OF this(2)]
  have cwd: "disk_parts ?d' p = disk_parts ?d p" for p using w disk_parts_cwd by blast
  have ext: "extends ?d ?d'" using w None by (auto simp: extends_def node_at_def)
  have "site_entry ms outDir ?d' ps n" if "node_of ?d ps = None" "node_of ?d' ps = Some n" for ps n
  proof -
    have "ps = disk_parts ?d' ?t" "n = RegularFile content" using that w cwd by (auto split: if_splits)
    with assms(2) extends_node_at [OF ext source] listed_extends [OF ext assms(3)] show ?thesis unfolding site_entry_def by blast
  qed
  with ext w cwd show ?thesis by (simp add: publishes_def node_at_def)
next
  case (Some n)
  with assms(1) have "pu_disk pu' = pu_disk pu"
    by (auto simp: publish_name_def Let_def res_bind_Inr_iff statOrNull_Inr site_target_def)
  with Some show ?thesis by simp
qed

lemma publishes_node_at: "publishes ms outDir d d' \<Longrightarrow> node_at d p \<noteq> None \<Longrightarrow> node_at d' p \<noteq> None"
  using extends_node_at [of d d' p] by (auto simp: publishes_def)

lemma publish_names_facts:
  "fold_res (publish_name outDir m) names pu = Inr pu' \<Longrightarrow> m \<in> ms \<Longrightarrow> \<forall>name \<in> set names. listed (pu_disk pu) m name \<Longrightarrow>
     publishes ms outDir (pu_disk pu) (pu_disk pu') \<and> (\<forall>name \<in> set names. node_at (pu_disk pu') (site_target outDir m name) \<noteq> None)"
proof (induction names arbitrary: pu)
  case (Cons name names)
  then obtain mid where one: "publish_name outDir m name pu = Inr mid" and rest: "fold_res (publish_name outDir m) names mid = Inr pu'"
    by (auto simp: res_bind_Inr_iff)
  have first: "publishes ms outDir (pu_disk pu) (pu_disk mid)" "node_at (pu_disk mid) (site_target outDir m name) \<noteq> None"
    using publish_name_facts [OF one Cons.prems(2)] Cons.prems(3) by auto
  have "\<forall>name \<in> set names. listed (pu_disk mid) m name"
    using Cons.prems(3) first(1) listed_extends by (auto simp: publishes_def)
  note ih = Cons.IH [OF rest Cons.prems(2) this]
  have "publishes ms outDir (pu_disk pu) (pu_disk pu')" using first(1) ih publishes_trans by blast
  moreover have "node_at (pu_disk pu') (site_target outDir m name) \<noteq> None" using first(2) ih publishes_node_at by blast
  ultimately show ?case using ih by simp
qed simp

lemma publish_mount_facts:
  assumes "publish_mount outDir m pu = Inr pu'" and "m \<in> ms"
  shows "publishes ms outDir (pu_disk pu) (pu_disk pu') \<and>
    (\<forall>name. listed (pu_disk pu) m name \<longrightarrow> node_at (pu_disk pu') (site_target outDir m name) \<noteq> None)"
proof -
  from assms(1) obtain names d where names: "mountFiles (pu_disk pu) (mt_dir m) = Inr names"
    and d: "(if names \<noteq> [] then lift_disk (mkdirSync (path_join [outDir, mt_uri m]) (pu_disk pu)) else Inr (pu_disk pu)) = Inr d"
    and run: "fold_res (publish_name outDir m) names (pu\<lparr>pu_disk := d\<rparr>) = Inr pu'"
    by (auto simp: publish_mount_def res_bind_Inr_iff)
  have made: "publishes ms outDir (pu_disk pu) d" using d mkdir_publishes [OF _ assms(2)] by (auto split: if_splits)
  have "name \<in> set names \<longleftrightarrow> listed (pu_disk pu) m name" for name
  proof (cases "node_at (pu_disk pu) (mt_dir m) = Some Directory")
    case True
    then have "set names = {n. (n, True) \<in> set (readdirSync (pu_disk pu) (mt_dir m))}"
      using names by (force simp: mountFiles_def res_bind_Inr_iff statOrNull_Inr Let_def throw_if_Inr_iff)
    with True show ?thesis by (simp add: listed_def readdir_file)
  next
    case False
    with names show ?thesis by (auto simp: mountFiles_def res_bind_Inr_iff statOrNull_Inr listed_def)
  qed
  moreover from this have "\<forall>name \<in> set names. listed (pu_disk (pu\<lparr>pu_disk := d\<rparr>)) m name"
    using made listed_extends by (auto simp: publishes_def)
  note run_facts = publish_names_facts [OF run assms(2) this]
  ultimately show ?thesis using made publishes_trans by auto
qed

lemma publish_mounts_facts:
  "fold_res (publish_mount outDir) mounts pu = Inr pu' \<Longrightarrow> set mounts \<subseteq> ms \<Longrightarrow>
     publishes ms outDir (pu_disk pu) (pu_disk pu') \<and>
     (\<forall>m \<in> set mounts. \<forall>name. listed (pu_disk pu) m name \<longrightarrow> node_at (pu_disk pu') (site_target outDir m name) \<noteq> None)"
proof (induction mounts arbitrary: pu)
  case (Cons m mounts)
  then obtain mid where one: "publish_mount outDir m pu = Inr mid" and rest: "fold_res (publish_mount outDir) mounts mid = Inr pu'"
    by (auto simp: res_bind_Inr_iff)
  have m: "m \<in> ms" "set mounts \<subseteq> ms" using Cons.prems(2) by auto
  note first = publish_mount_facts [OF one m(1)] and ih = Cons.IH [OF rest m(2)]
  have "node_at (pu_disk pu') (site_target outDir m name) \<noteq> None" if "listed (pu_disk pu) m name" for name
    using first ih that publishes_node_at by blast
  moreover have "listed (pu_disk mid) k name" if "listed (pu_disk pu) k name" for k name
    using first that listed_extends by (auto simp: publishes_def)
  ultimately show ?case using first ih by (auto intro: publishes_trans)
qed simp

text \<open>
  A file of a mount whose site path was free and is claimed by no mount's directory and by no other file of a mount.
\<close>

definition sole_claim :: "mount set \<Rightarrow> jsstr \<Rightarrow> disk \<Rightarrow> disk \<Rightarrow> mount \<Rightarrow> jsstr \<Rightarrow> bool" where
  "sole_claim ms outDir d d' m name \<longleftrightarrow>
     node_at d (site_target outDir m name) = None \<and>
     (\<forall>k \<in> ms. \<not> prefix (disk_parts d (site_target outDir m name)) (disk_parts d (path_join [outDir, mt_uri k]))) \<and>
     (\<forall>k \<in> ms. \<forall>other. listed d' k other \<longrightarrow> disk_parts d (site_target outDir k other) = disk_parts d (site_target outDir m name) \<longrightarrow> k = m \<and> other = name)"

lemma sole_claim_copied:
  assumes "publishes ms outDir d d'" and "node_at d' (site_target outDir m name) \<noteq> None"
    and "sole_claim ms outDir d d' m name" and "node_at d (mount_file m name) = Some n"
  shows "node_at d' (site_target outDir m name) = Some n"
proof -
  let ?ps = "disk_parts d (site_target outDir m name)"
  have ext: "extends d d'" using assms(1) by (simp add: publishes_def)
  then have cwd: "disk_parts d' p = disk_parts d p" for p by (blast intro: extends_parts)
  obtain k where k: "node_of d' ?ps = Some k" using assms(2) by (auto simp: node_at_def cwd)
  have "node_of d ?ps = None" using assms(3) by (simp add: sole_claim_def node_at_def)
  with assms(1) k have "site_entry ms outDir d' ?ps k" by (simp add: publishes_def)
  then consider x where "x \<in> ms" "prefix ?ps (disk_parts d (path_join [outDir, mt_uri x]))"
    | x other where "x \<in> ms" "listed d' x other" "?ps = disk_parts d (site_target outDir x other)" "node_at d' (mount_file x other) = Some k"
    by (auto simp: site_entry_def cwd)
  then show ?thesis
  proof cases
    case 1
    with assms(3) show ?thesis by (auto simp: sole_claim_def)
  next
    case 2
    with assms(3) have "x = m \<and> other = name" unfolding sole_claim_def by metis
    with 2(4) k extends_node_at [OF ext assms(4)] show ?thesis by (auto simp: node_at_def cwd)
  qed
qed

section \<open>Properties\<close>

text \<open>
  C27. The server never leaves its mounts: whatever the request, a 200 answer carries the content of a regular
  file whose path, free of dot segments, lies below the directory of one of the mounts; every other answer
  carries no content.
\<close>

theorem staticHandler_confined:
  assumes "staticHandler url_pathname d mounts base request_url has_next = Respond status ctype body"
  shows "(status = 200 \<longrightarrow> (\<exists>m \<in> set mounts. \<exists>ps. prefix (disk_parts d (mt_dir m)) ps \<and> (\<forall>s \<in> set ps. plain_seg s) \<and>
      node_of d ps = Some (RegularFile body))) \<and>
    (status \<noteq> 200 \<longrightarrow> ctype = None \<and> body = [])"
proof (cases "\<exists>pathname name t. locate d mounts base pathname = Inr (Found name t) \<and> readFileSync d name = Inr body \<and> status = 200")
  case True
  then obtain pathname name t where loc: "locate d mounts base pathname = Inr (Found name t)"
    and body: "readFileSync d name = Inr body" and "status = 200" by blast
  from loc obtain decoded m where "find (\<lambda>m. js_starts decoded (mount_prefix (basePath base) m)) mounts = Some m"
    and inside: "locate_in d (mt_dir m) (drop (length (mount_prefix (basePath base) m)) decoded) = Inr (Found name t)"
    by (auto simp: locate_def Let_def split: option.splits)
  then have "m \<in> set mounts" by (auto simp: find_Some_iff)
  moreover from body have "node_of d (disk_parts d name) = Some (RegularFile body)"
    by (auto simp: readFileSync_def node_at_def split: option.splits node.splits)
  ultimately show ?thesis using locate_in_confined [OF inside] \<open>status = 200\<close> by auto
next
  case False
  have status: "n \<noteq> 200" if "locate d mounts base pathname = Inr (Status n)" for pathname n
    using that by (auto simp: locate_def locate_in_def Let_def res_bind_Inr_iff split: option.splits if_splits)
  show ?thesis
    using assms False status unfolding staticHandler_def Let_def
    by (auto split: option.splits sum.splits found.splits if_splits)
qed

text \<open>
  C28. Publishing overwrites nothing, copies faithfully and leaves nothing out. After a publish every path that existed
  holds what it held. Whatever else is there is a directory on the way to a mount's place in the site, or stands at the
  site path of some file of a mount and has that file's content. Every regular file of every mount has something at its
  site path, and where that path was free and no other mount claims it, it is a regular file with the same content.
\<close>

theorem publish_keeps_and_completes:
  assumes "publish mounts outDir d = Inr pu"
  shows "(\<forall>ps n. node_of d ps = Some n \<longrightarrow> node_of (pu_disk pu) ps = Some n) \<and>
    (\<forall>ps n. node_of d ps = None \<longrightarrow> node_of (pu_disk pu) ps = Some n \<longrightarrow> site_entry (set mounts) outDir (pu_disk pu) ps n) \<and>
    (\<forall>m \<in> set mounts. \<forall>name. listed d m name \<longrightarrow> node_at (pu_disk pu) (site_target outDir m name) \<noteq> None \<and>
       (\<forall>content. sole_claim (set mounts) outDir d (pu_disk pu) m name \<longrightarrow> node_at d (mount_file m name) = Some (RegularFile content) \<longrightarrow>
          node_at (pu_disk pu) (site_target outDir m name) = Some (RegularFile content)))"
proof -
  have run: "fold_res (publish_mount outDir) mounts \<lparr>pu_disk = d, pu_copied = [], pu_kept = []\<rparr> = Inr pu"
    using assms by (simp add: publish_def)
  have pub: "publishes (set mounts) outDir d (pu_disk pu)"
    and all: "\<And>m name. m \<in> set mounts \<Longrightarrow> listed d m name \<Longrightarrow> node_at (pu_disk pu) (site_target outDir m name) \<noteq> None"
    using publish_mounts_facts [OF run subset_refl] by auto
  show ?thesis
    using pub all sole_claim_copied [OF pub] by (auto simp: publishes_def extends_def)
qed

text \<open>A player directory published into a site that already holds one of its files.\<close>

definition sample_disk :: disk where
  "sample_disk =
     \<lparr>dk_cwd = js ''/'',
      dk_nodes = [([js ''p''], Directory), ([js ''p'', js ''a.js''], RegularFile (js ''1'')), ([js ''p'', js ''b.js''], RegularFile (js ''2'')),
        ([js ''o''], Directory), ([js ''o'', js ''a.js''], RegularFile (js ''9''))]\<rparr>"

definition sample_mount :: mount where "sample_mount = \<lparr>mt_uri = [], mt_dir = js ''/p''\<rparr>"

lemmas disk_eval = node_at_def node_of_def disk_parts_def path_resolve_def abs_path_def path_parts_def norm_parts_def norm_step_def
  is_absolute_def dot_seg_def dotdot_seg_def path_join_def path_normalize_def

lemma sample_publish:
  "publish [sample_mount] (js ''/o'') sample_disk =
     Inr \<lparr>pu_disk = put_node [js ''o'', js ''b.js''] (RegularFile (js ''2'')) sample_disk, pu_copied = [js ''b.js''], pu_kept = [js ''a.js'']\<rparr>"
  by (simp add: publish_def publish_mount_def mountFiles_def sample_mount_def sample_disk_def statOrNull_def lift_disk_def
      readdirSync_def is_regular_def js_uniq_def MAX_MOUNT_FILES_def mkdirSync_def make_dir_def publish_name_def copyFileSync_def
      readFileSync_def write_node_def put_node_def Let_def disk_eval)

lemma publish_keeps_and_completes_witness:
  "node_of (put_node [js ''o'', js ''b.js''] (RegularFile (js ''2'')) sample_disk) [js ''o'', js ''a.js''] = Some (RegularFile (js ''9'')) \<and>
   node_at (put_node [js ''o'', js ''b.js''] (RegularFile (js ''2'')) sample_disk) (site_target (js ''/o'') sample_mount (js ''b.js'')) =
     Some (RegularFile (js ''2''))"
proof -
  have kept: "node_of sample_disk [js ''o'', js ''a.js''] = Some (RegularFile (js ''9''))" by (simp add: sample_disk_def node_of_def)
  have listed: "listed sample_disk sample_mount (js ''b.js'')"
    by (simp add: listed_def sample_mount_def sample_disk_def is_regular_def disk_eval)
  have source: "node_at sample_disk (mount_file sample_mount (js ''b.js'')) = Some (RegularFile (js ''2''))"
    by (simp add: mount_file_def sample_mount_def sample_disk_def disk_eval)
  let ?d = "put_node [js ''o'', js ''b.js''] (RegularFile (js ''2'')) sample_disk"
  have two: "other = js ''a.js'' \<or> other = js ''b.js''" if "listed ?d sample_mount other" for other
    using that by (auto simp: listed_def sample_mount_def sample_disk_def put_node_def is_regular_def disk_eval split: if_splits option.splits)
  have parts: "disk_parts sample_disk (site_target (js ''/o'') sample_mount (js ''a.js'')) = [js ''o'', js ''a.js'']"
    "disk_parts sample_disk (site_target (js ''/o'') sample_mount (js ''b.js'')) = [js ''o'', js ''b.js'']"
    "disk_parts sample_disk (path_join [js ''/o'', mt_uri sample_mount]) = [js ''o'']"
    by (simp_all add: site_target_def sample_mount_def sample_disk_def disk_eval)
  have free: "node_of sample_disk [js ''o'', js ''b.js''] = None" by (simp add: sample_disk_def node_of_def)
  have "\<not> prefix [js ''o'', js ''b.js''] [js ''o'']" "[js ''o'', js ''a.js''] \<noteq> [js ''o'', js ''b.js'']" by simp_all
  then have sole: "sole_claim (set [sample_mount]) (js ''/o'') sample_disk ?d sample_mount (js ''b.js'')"
    unfolding sole_claim_def node_at_def using two parts free by fastforce
  show ?thesis
    using publish_keeps_and_completes [OF sample_publish] kept listed source sole by (simp only: published.simps) auto
qed

lemma staticHandler_confined_witness:
  "\<exists>ps. prefix [js ''p''] ps \<and> node_of sample_disk ps = Some (RegularFile (js ''1''))"
proof -
  have "staticHandler Some sample_disk [sample_mount] (js ''/'') (Some (js ''/a.js'')) False =
      Respond 200 (Some (js ''text/javascript; charset=utf-8'')) (js ''1'')"
    by (simp add: staticHandler_def locate_def locate_in_def decodeURIComponent.simps basePath_def mount_prefix_def sample_mount_def
        statOrNull_def is_regular_def content_type_def path_extname_def last_part_def TYPES_def lower_unit_def readFileSync_def
        sample_disk_def disk_eval)
  from staticHandler_confined [OF this] show ?thesis
    by (auto simp: sample_mount_def sample_disk_def disk_parts_def path_resolve_def abs_path_def path_parts_def norm_parts_def
        norm_step_def is_absolute_def dot_seg_def dotdot_seg_def)
qed

end
