(* ===== verification/FigureSite.thy ===== *)
theory FigureSite
  imports FigurePage FigureServe
begin

text \<open>
  The check of a built site (\<^verbatim>\<open>src/tools/figures/checks.mjs\<close>): the pages of a documentation directory, the HTML file
  each page becomes, \<open>checkSite\<close>, which compares every page's diagrams with its built page, and \<open>sources\<close>, which checks
  the pages' fences against the figures. Listing a directory,
  reading a file, \<open>JSON.parse\<close>, full lower-casing and the Unicode classes of \<open>SLUG_DROP\<close> are parameters.
\<close>

definition MAX_PAGES :: nat where "MAX_PAGES = 4096"
definition MAX_ENTRIES :: nat where "MAX_ENTRIES = 131072"
definition LOADER :: jsstr where "LOADER = PLAYER_URI @ js ''/loader.js''"
definition PLAYER :: jsstr where "PLAYER = js ''player.js''"

record site_env =
  se_fs :: fs
  se_readdir :: "jsstr \<Rightarrow> jsstr + (jsstr \<times> bool) list"
  se_json :: "jsstr \<Rightarrow> jsv option"
  se_lower :: "jsstr \<Rightarrow> jsstr"
  se_kept :: "nat \<Rightarrow> bool"

datatype site_error =
    SiteCheck check_error
  | SiteSource source_error
  | CannotList jsstr jsstr
  | TooManyEntries
  | TooManyPages
  | SiteUnreadable jsstr
  | NotADocsDirectory jsstr
  | NoBuiltSite jsstr
  | BaseForMkDocs

definition lift_check :: "(check_error, 'a) res \<Rightarrow> (site_error, 'a) res" where
  "lift_check r = (case r of Inl e \<Rightarrow> Inl (SiteCheck e) | Inr x \<Rightarrow> Inr x)"

definition site_read :: "site_env \<Rightarrow> jsstr \<Rightarrow> (site_error, jsstr) res" where
  "site_read e p = (case fs_readText (se_fs e) p of None \<Rightarrow> Inl (SiteUnreadable p) | Some t \<Rightarrow> Inr t)"

definition clean_path :: "jsstr \<Rightarrow> jsstr" where
  "clean_path p = (let normal = path_normalize p in if length normal > 1 \<and> last normal = SLASH then butlast normal else normal)"

section \<open>Pages\<close>

definition hasSuffix :: "jsstr list \<Rightarrow> jsstr \<Rightarrow> bool" where
  "hasSuffix exts name \<longleftrightarrow> (\<exists>s \<in> set exts. js_ends name s)"

text \<open>A listing is the names with whether each is a directory, or the code of the error.\<close>

definition SKIPPED_CODES :: "jsstr list" where
  "SKIPPED_CODES = [js ''ENOENT'', js ''ENOTDIR'', js ''EACCES'', js ''EPERM'']"

definition dir_entries :: "(jsstr \<Rightarrow> jsstr + (jsstr \<times> bool) list) \<Rightarrow> jsstr \<Rightarrow> (site_error, (jsstr \<times> bool) list) res" where
  "dir_entries readdir dir =
     (case readdir dir of
        Inr ents \<Rightarrow> Inr ents
      | Inl code \<Rightarrow> if code \<in> set SKIPPED_CODES then Inr [] else Inl (CannotList dir code))"

text \<open>
  The walk of \<open>markdownParts\<close>: \<open>budget\<close> bounds the directories visited, \<open>seen\<close> counts the entries ents. The top of
  the stack is the head of the list.
\<close>

fun parts_loop ::
  "(jsstr \<Rightarrow> jsstr + (jsstr \<times> bool) list) \<Rightarrow> jsstr \<Rightarrow> jsstr list \<Rightarrow> nat \<Rightarrow> nat \<Rightarrow> jsstr list list \<Rightarrow> jsstr list list \<Rightarrow>
   (site_error, jsstr list list) res" where
  "parts_loop ls dir exts budget seen [] found = Inr found"
| "parts_loop ls dir exts 0 seen (parts # stack) found = Inl TooManyEntries"
| "parts_loop ls dir exts (Suc budget) seen (parts # stack) found =
     res_bind (dir_entries ls (path_join (dir # parts))) (\<lambda>ents.
      if seen + length ents > MAX_ENTRIES then Inl TooManyEntries
      else
        parts_loop ls dir exts budget (seen + length ents)
          (rev (map (\<lambda>e. parts @ [fst e]) (filter snd ents)) @ stack)
          (found @ map (\<lambda>e. parts @ [fst e]) (filter (\<lambda>e. hasSuffix exts (fst e)) ents)))"

text \<open>
  \<open>compareParts\<close> without case folding, as \<open>sort\<close> calls it; it is the lexicographic order of paths as lists of names
  (\<open>compareParts_order\<close> below), so \<open>found.sort(compareParts)\<close> is the library's \<open>sort\<close>.
\<close>

fun compareParts :: "jsstr list \<Rightarrow> jsstr list \<Rightarrow> int" where
  "compareParts (x # a) (y # b) = (if x \<noteq> y then (if x < y then -1 else 1) else compareParts a b)"
| "compareParts a b = int (length a) - int (length b)"

definition markdownParts :: "site_env \<Rightarrow> jsstr \<Rightarrow> jsstr list \<Rightarrow> (site_error, jsstr list list) res" where
  "markdownParts e dir exts = res_bind (parts_loop (se_readdir e) dir exts MAX_ENTRIES 0 [[]] []) (\<lambda>found. Inr (sort found))"

definition page_list_step :: "jsstr \<Rightarrow> (jsstr list \<Rightarrow> (check_error, bool) res) \<Rightarrow> jsstr list \<Rightarrow> jsstr list \<Rightarrow> (site_error, jsstr list) res" where
  "page_list_step docsDir skip parts pages =
     res_bind (lift_check (skip parts)) (\<lambda>out.
       if out then Inr pages
       else throw_if (length pages + 1 > MAX_PAGES) TooManyPages (Inr (pages @ [path_join (docsDir # parts)])))"

definition pagesUnder :: "site_env \<Rightarrow> jsstr \<Rightarrow> jsstr list \<Rightarrow> (jsstr list \<Rightarrow> (check_error, bool) res) \<Rightarrow> (site_error, jsstr list) res" where
  "pagesUnder e docsDir exts skip =
     res_bind (markdownParts e docsDir exts) (\<lambda>found. fold_res (page_list_step docsDir skip) found [])"

definition markdownPages :: "site_env \<Rightarrow> jsstr \<Rightarrow> jsstr list \<Rightarrow> (site_error, jsstr list) res" where
  "markdownPages e docsDir excluded = pagesUnder e docsDir [js ''.md''] (\<lambda>parts. isExcluded parts excluded)"

definition starlightPages :: "site_env \<Rightarrow> jsstr \<Rightarrow> (site_error, jsstr list) res" where
  "starlightPages e docsDir =
     pagesUnder e docsDir STARLIGHT_SUFFIXES (\<lambda>parts. Inr ((\<exists>p \<in> set parts. js_starts p [DOT]) \<or> js_starts (last parts) [95]))"

section \<open>The HTML file of a page\<close>

definition mkdocs_output :: "jsstr \<Rightarrow> jsstr \<Rightarrow> jsstr \<Rightarrow> jsstr \<Rightarrow> jsstr" where
  "mkdocs_output cwd docsDir siteDir page =
     (let parts = js_split SLASH (path_relative cwd docsDir page) in path_join (siteDir # pageOutput (butlast parts) (last parts)))"

definition blank :: "nat \<Rightarrow> bool" where "blank c \<longleftrightarrow> c = 32 \<or> c = 9"
definition ends_line :: "nat \<Rightarrow> bool" where "ends_line c \<longleftrightarrow> c = 10 \<or> c = 13 \<or> c = 0x2028 \<or> c = 0x2029"

text \<open>\<open>[ \t]*(?:#.*)?$\<close> at the start of a text.\<close>

definition slug_tail :: "jsstr \<Rightarrow> bool" where
  "slug_tail s \<longleftrightarrow> (let r = dropWhile blank s in r = [] \<or> js_starts r [35] \<and> \<not> list_ex ends_line r)"

text \<open>The shortest value that the tail, after the closing text, follows.\<close>

fun lazy_slug :: "jsstr \<Rightarrow> jsstr \<Rightarrow> jsstr \<Rightarrow> jsstr option" where
  "lazy_slug close acc s =
     (if js_starts s close \<and> slug_tail (drop (length close) s) then Some acc
      else
        (case s of
           [] \<Rightarrow> None
         | c # r \<Rightarrow> if ends_line c then None else lazy_slug close (acc @ [c]) r))"

declare lazy_slug.simps [simp del]

definition FRONTMATTER_SLUG :: "jsstr \<Rightarrow> jsstr option" where
  "FRONTMATTER_SLUG line =
     (if \<not> js_starts line (js ''slug'') then None
      else
        (let r = dropWhile blank (drop 4 line) in
         if \<not> js_starts r [58] then None
         else
           (let v = dropWhile blank (drop 1 r);
                quoted = (case v of c # t \<Rightarrow> if c = 39 \<or> c = 34 then lazy_slug [c] [] t else None | [] \<Rightarrow> None) in
            case quoted of Some t \<Rightarrow> Some t | None \<Rightarrow> lazy_slug [] [] v)))"

fun frontmatter_loop :: "jsstr list \<Rightarrow> jsstr option" where
  "frontmatter_loop [] = None"
| "frontmatter_loop (line # lines) =
     (if strip line = js ''---'' then None
      else (case FRONTMATTER_SLUG line of Some t \<Rightarrow> Some t | None \<Rightarrow> frontmatter_loop lines))"

definition frontmatterSlug :: "jsstr \<Rightarrow> (check_error, jsstr option) res" where
  "frontmatterSlug content =
     res_bind (boundedLines content) (\<lambda>lines.
       Inr (case lines of [] \<Rightarrow> None | l # ls \<Rightarrow> if strip l \<noteq> js ''---'' then None else frontmatter_loop ls))"

definition slug_segment :: "site_env \<Rightarrow> jsstr \<Rightarrow> jsstr" where
  "slug_segment e segment =
     replace_unit 32 [45] (concat (map from_code_point (filter (\<lambda>p. se_kept e p \<or> p = 32 \<or> p = 45) (code_points (se_lower e segment)))))"

definition cut_index :: "jsstr \<Rightarrow> jsstr" where
  "cut_index s = (if js_ends s (js ''/index'') then take (length s - 6) s else s)"

definition starlightSlug :: "site_env \<Rightarrow> jsstr \<Rightarrow> jsstr \<Rightarrow> jsstr \<Rightarrow> (check_error, jsstr) res" where
  "starlightSlug e docsDir page content =
     res_bind (frontmatterSlug content) (\<lambda>declared.
       case declared of
         Some t \<Rightarrow> Inr t
       | None \<Rightarrow>
           (let rel = path_relative (fs_cwd (se_fs e)) docsDir page;
                segments = js_split SLASH (take (length rel - length (path_extname rel)) rel) in
            Inr (cut_index (js_join [SLASH] (map (slug_segment e) segments)))))"

definition starlightOutput :: "site_env \<Rightarrow> jsstr \<Rightarrow> jsstr \<Rightarrow> jsstr \<Rightarrow> jsstr \<Rightarrow> (check_error, jsstr) res" where
  "starlightOutput e docsDir siteDir page content =
     res_bind (starlightSlug e docsDir page content) (\<lambda>t.
       let slug = path_parts t in
       Inr (if slug = [] \<or> slug = [js ''index''] then path_join [siteDir, js ''index.html'']
            else path_join (siteDir # slug @ [js ''index.html''])))"

section \<open>Generators\<close>

definition is_sep :: "nat \<Rightarrow> bool" where "is_sep c \<longleftrightarrow> c = 92 \<or> c = 47"
definition literal_quote :: "nat \<Rightarrow> bool" where "literal_quote c \<longleftrightarrow> c = 39 \<or> c = 34 \<or> c = 96"

text \<open>\<open>ASTRO_INTEGRATION\<close> right after an opening quote.\<close>

definition names_integration :: "jsstr \<Rightarrow> bool" where
  "names_integration s =
     (let seg = takeWhile (\<lambda>c. \<not> literal_quote c \<and> c \<noteq> 10) s; rest = drop (length seg) s;
          stem = take (length seg - 9) seg; dir = rev (dropWhile is_sep (rev stem)); above_dir = take (length dir - 7) dir in
      (\<exists>c \<in> set (take 1 rest). literal_quote c) \<and> js_ends seg (js ''astro.mjs'') \<and> length dir < length stem \<and>
      js_ends dir (js ''figures'') \<and> (above_dir = [] \<or> is_sep (last above_dir)))"

fun integration_search :: "jsstr \<Rightarrow> bool" where
  "integration_search [] = False"
| "integration_search (c # s) = (literal_quote c \<and> names_integration s \<or> integration_search s)"

definition astroKinds :: "jsstr \<Rightarrow> kind list" where
  "astroKinds content = (if integration_search content then [Figure] else [])"

definition flavor_kinds :: "flavor \<Rightarrow> jsstr \<Rightarrow> (check_error, kind list) res" where
  "flavor_kinds fl content = (case fl of MKDOCS \<Rightarrow> enabledKinds content | STARLIGHT \<Rightarrow> Inr (astroKinds content))"

definition flavor_pages :: "site_env \<Rightarrow> flavor \<Rightarrow> jsstr \<Rightarrow> jsstr \<Rightarrow> (site_error, jsstr list) res" where
  "flavor_pages e fl docsDir content =
     (case fl of
        MKDOCS \<Rightarrow> res_bind (lift_check (excludedPatterns content)) (markdownPages e docsDir)
      | STARLIGHT \<Rightarrow> starlightPages e docsDir)"

definition flavor_output :: "site_env \<Rightarrow> flavor \<Rightarrow> jsstr \<Rightarrow> jsstr \<Rightarrow> jsstr \<Rightarrow> jsstr \<Rightarrow> (check_error, jsstr) res" where
  "flavor_output e fl docsDir siteDir page content =
     (case fl of
        MKDOCS \<Rightarrow> Inr (mkdocs_output (fs_cwd (se_fs e)) docsDir siteDir page)
      | STARLIGHT \<Rightarrow> starlightOutput e docsDir siteDir page content)"

section \<open>A built page\<close>

datatype spec_problem = NoSpecOpen | NoSpecClose | SpecNotJson | SpecWithoutProps

datatype site_finding =
    SiteKind jsstr kind bool
  | NoOutput jsstr nat jsstr
  | MermaidCount jsstr nat nat
  | FiguresDiffer jsstr "jsstr list" "jsstr list"
  | UrlUnresolved jsstr jsstr jsstr
  | SvgSpec jsstr jsstr jsstr spec_problem
  | NoLoader jsstr
  | NoPlayerBeside jsstr jsstr

record built =
  bu_flavor :: flavor
  bu_docs :: jsstr
  bu_dir :: jsstr
  bu_base :: "jsstr option"
  bu_kinds :: "kind list"
  bu_svgOnly :: bool

text \<open>\<open>path.dirname\<close>: the last slash that is not trailing, from the second character on, ends the result.\<close>

definition path_dirname :: "jsstr \<Rightarrow> jsstr" where
  "path_dirname p =
     (let r = dropWhile (\<lambda>c. c \<noteq> SLASH) (dropWhile (\<lambda>c. c = SLASH) (rev (tl p))) in
      if r = [] then (if js_starts p [SLASH] then [SLASH] else [DOT])
      else if js_starts p [SLASH] \<and> length r = 1 then [SLASH, SLASH]
      else take (length r) p)"

definition url_path_part :: "jsstr \<Rightarrow> jsstr" where
  "url_path_part url = takeWhile (\<lambda>c. c \<noteq> 63) (takeWhile (\<lambda>c. c \<noteq> 35) url)"

definition urlTarget :: "site_env \<Rightarrow> jsstr \<Rightarrow> built \<Rightarrow> jsstr \<Rightarrow> jsstr" where
  "urlTarget e out b url =
     (let p = url_path_part url; f = se_fs e in
      case bu_base b of
        Some base \<Rightarrow>
          if js_starts p base then fs_real f (path_join [bu_dir b, drop (length base) p])
          else fs_real f (path_resolve (fs_cwd f) [path_dirname out, p])
      | None \<Rightarrow> fs_real f (path_resolve (fs_cwd f) [path_dirname out, p]))"

definition under_base :: "built \<Rightarrow> jsstr \<Rightarrow> bool" where
  "under_base b url \<longleftrightarrow> (case bu_base b of None \<Rightarrow> False | Some base \<Rightarrow> js_starts url base)"

definition resolves :: "site_env \<Rightarrow> jsstr \<Rightarrow> built \<Rightarrow> jsstr \<Rightarrow> bool" where
  "resolves e out b url \<longleftrightarrow>
     \<not> (url = [] \<or> js_includes url (js ''://'') \<or> js_starts url (js ''//'') \<or> js_starts url (js ''data:'')) \<and>
     \<not> (js_starts url [SLASH] \<and> \<not> under_base b url) \<and>
     fs_isFile (se_fs e) (urlTarget e out b url) \<and>
     inside (fs_cwd (se_fs e)) (fs_real (se_fs e) (bu_dir b)) (urlTarget e out b url)"

definition svgSpecError :: "(jsstr \<Rightarrow> jsv option) \<Rightarrow> jsstr \<Rightarrow> spec_problem option" where
  "svgSpecError json svg =
     (case js_find SPEC_OPEN svg 0 of
        None \<Rightarrow> Some NoSpecOpen
      | Some start \<Rightarrow>
          (let from = start + length SPEC_OPEN in
           case js_find SPEC_CLOSE svg from of
             None \<Rightarrow> Some NoSpecClose
           | Some stop \<Rightarrow>
               (case json (js_slice svg from stop) of
                  None \<Rightarrow> Some SpecNotJson
                | Some spec \<Rightarrow>
                    (let props = (if isObj spec then field spec (js ''props'') else JNull) in
                     if isObj props \<and> isObj (field props (js ''layout'')) \<and> is_array (field props (js ''edges'')) then None
                     else Some SpecWithoutProps))))"

text \<open>\<open>built.seen\<close>: the verdict of every SVG read so far.\<close>

type_synonym verdicts = "(jsstr \<times> spec_problem option) list"

definition spec_step ::
  "site_env \<Rightarrow> jsstr \<Rightarrow> jsstr \<Rightarrow> built \<Rightarrow> jsstr \<times> jsstr \<Rightarrow> site_finding list \<times> verdicts \<Rightarrow> (site_error, site_finding list \<times> verdicts) res" where
  "spec_step e page out b entry acc =
     (let (slug, url) = entry; (found, seen) = acc; target = urlTarget e out b url in
      res_bind
        (case map_of seen target of
           Some v \<Rightarrow> Inr (v, seen)
         | None \<Rightarrow> res_bind (site_read e target) (\<lambda>svg. let v = svgSpecError (se_json e) svg in Inr (v, seen @ [(target, v)])))
        (\<lambda>(v, seen'). Inr (found @ (case v of None \<Rightarrow> [] | Some p \<Rightarrow> [SvgSpec page slug url p]), seen')))"

definition specErrors ::
  "site_env \<Rightarrow> jsstr \<Rightarrow> jsstr \<Rightarrow> built \<Rightarrow> page_figure list \<Rightarrow> verdicts \<Rightarrow> (site_error, site_finding list \<times> verdicts) res" where
  "specErrors e page out b figs seen =
     fold_res (spec_step e page out b)
       (concat (map (\<lambda>fg. map (Pair (pf_slug fg)) (filter (resolves e out b) (pf_urls fg))) figs)) ([], seen)"

definition loaderErrors :: "site_env \<Rightarrow> jsstr \<Rightarrow> jsstr \<Rightarrow> built \<Rightarrow> jsstr list \<Rightarrow> site_finding list" where
  "loaderErrors e page out b scripts =
     (case find (\<lambda>src. js_ends src LOADER \<and> resolves e out b src) scripts of
        None \<Rightarrow> if bu_svgOnly b then [] else [NoLoader page]
      | Some loader \<Rightarrow>
          if fs_isFile (se_fs e) (path_join [path_dirname (urlTarget e out b loader), PLAYER]) then []
          else [NoPlayerBeside page loader])"

definition mermaidError :: "jsstr \<Rightarrow> nat \<Rightarrow> scanned_page \<Rightarrow> site_finding list" where
  "mermaidError page expected scanned = (if sp_mermaid scanned = expected then [] else [MermaidCount page expected (sp_mermaid scanned)])"

definition figureErrors ::
  "site_env \<Rightarrow> jsstr \<Rightarrow> jsstr \<Rightarrow> built \<Rightarrow> jsstr list \<Rightarrow> scanned_page \<Rightarrow> verdicts \<Rightarrow> (site_error, site_finding list \<times> verdicts) res" where
  "figureErrors e page out b slugs scanned seen =
     (let shown = map pf_slug (sp_figures scanned) in
      if shown \<noteq> slugs then Inr ([FiguresDiffer page slugs shown], seen)
      else
        (let unresolved = concat (map (\<lambda>fg. map (UrlUnresolved page (pf_slug fg)) (filter (\<lambda>u. \<not> resolves e out b u) (pf_urls fg))) (sp_figures scanned)) in
         res_bind (specErrors e page out b (sp_figures scanned) seen) (\<lambda>(spec, seen').
           Inr (unresolved @ spec @ loaderErrors e page out b (sp_scripts scanned), seen'))))"

definition pageErrors :: "site_env \<Rightarrow> built \<Rightarrow> jsstr \<Rightarrow> verdicts \<Rightarrow> (site_error, site_finding list \<times> nat \<times> verdicts) res" where
  "pageErrors e b page seen =
     res_bind (site_read e page) (\<lambda>content.
     res_bind (lift_check (fences content (js ''mermaid''))) (\<lambda>bodies.
     res_bind (lift_check (figureSlugs content)) (\<lambda>slugs.
     let expected = length bodies; total_count = expected + length slugs in
     if total_count = 0 then Inr ([], 0, seen)
     else
       res_bind (lift_check (kindErrors content (bu_kinds b))) (\<lambda>ks.
       res_bind (lift_check (flavor_output e (bu_flavor b) (bu_docs b) (bu_dir b) page content)) (\<lambda>out.
       let errors = map (\<lambda>(k, advice). SiteKind page k advice) ks in
       if \<not> fs_isFile (se_fs e) out then Inr (errors @ [NoOutput page total_count out], total_count, seen)
       else
         res_bind (site_read e out) (\<lambda>html.
         let scanned = scanPage html; mermaid = (if expected \<noteq> 0 then mermaidError page expected scanned else []) in
         res_bind (if slugs \<noteq> [] then figureErrors e page out b slugs scanned seen else Inr ([], seen)) (\<lambda>(figs, seen').
           Inr (errors @ mermaid @ figs, total_count, seen'))))))))"

section \<open>The site\<close>

definition svgOnlySite :: "site_env \<Rightarrow> jsstr \<Rightarrow> bool" where
  "svgOnlySite e config =
     (let root_dir = path_dirname config; f = se_fs e; lock = path_join [root_dir, js ''tools/figures/player.lock.json''] in
      if fs_isDirectory f (path_join [root_dir, js ''tools/figures/player'']) then False
      else if \<not> fs_isFile f lock then False
      else
        (case Option.bind (fs_readText f lock) (se_json e) of
           None \<Rightarrow> False
         | Some data \<Rightarrow> isObj data \<and> js_trim (if nullish (field data (js ''release'')) then [] else to_text (field data (js ''release''))) = []))"

definition site_step :: "site_env \<Rightarrow> built \<Rightarrow> jsstr \<Rightarrow> site_finding list \<times> nat \<times> verdicts \<Rightarrow> (site_error, site_finding list \<times> nat \<times> verdicts) res" where
  "site_step e b page acc =
     (let (errors, diagrams, seen) = acc in
      res_bind (pageErrors e b page seen) (\<lambda>(found, n, seen'). Inr (errors @ found, diagrams + n, seen')))"

definition built_site :: "site_env \<Rightarrow> jsstr \<Rightarrow> jsstr \<Rightarrow> jsstr \<Rightarrow> jsstr option \<Rightarrow> jsstr \<Rightarrow> (site_error, built) res" where
  "built_site e config docs site base content =
     res_bind (lift_check (flavor_kinds (siteFlavor config) content)) (\<lambda>kinds.
       Inr \<lparr>bu_flavor = siteFlavor config, bu_docs = clean_path docs, bu_dir = clean_path site,
            bu_base = (if siteFlavor config = STARLIGHT then Some (basePath (case base of None \<Rightarrow> [SLASH] | Some s \<Rightarrow> s)) else None),
            bu_kinds = kinds, bu_svgOnly = svgOnlySite e (clean_path config)\<rparr>)"

definition checkSite ::
  "site_env \<Rightarrow> jsstr \<Rightarrow> jsstr \<Rightarrow> jsstr \<Rightarrow> jsstr option \<Rightarrow> (site_error, site_finding list \<times> nat) res" where
  "checkSite e config docs site base =
     throw_if (base \<noteq> None \<and> siteFlavor config \<noteq> STARLIGHT) BaseForMkDocs
     (throw_if (\<not> fs_isDirectory (se_fs e) (clean_path docs)) (NotADocsDirectory (clean_path docs))
     (throw_if (\<not> fs_isFile (se_fs e) (path_join [clean_path site, js ''index.html''])) (NoBuiltSite (clean_path site))
     (res_bind (site_read e (clean_path config)) (\<lambda>content.
      res_bind (built_site e config docs site base content) (\<lambda>b.
      res_bind (flavor_pages e (siteFlavor config) (clean_path docs) content) (\<lambda>pages.
      res_bind (fold_res (site_step e b) pages ([], 0, [])) (\<lambda>(errors, diagrams, _). Inr (errors, diagrams))))))))"


section \<open>Pages of the sources\<close>

text \<open>The source side reads the same pages: disabled fence kinds and unknown figure slugs.\<close>

definition lift_source :: "(source_error, 'a) res \<Rightarrow> (site_error, 'a) res" where
  "lift_source r = (case r of Inl e \<Rightarrow> Inl (SiteSource e) | Inr x \<Rightarrow> Inr x)"

definition page_step ::
  "site_env \<Rightarrow> jsstr \<Rightarrow> figures_known \<Rightarrow> kind list \<Rightarrow> jsstr \<Rightarrow> source_finding list \<Rightarrow> (site_error, source_finding list) res" where
  "page_step e repo figs kinds page found =
     res_bind (site_read e page) (\<lambda>content.
     let shown = path_relative (fs_cwd (se_fs e)) repo page in
     res_bind (lift_check (kindErrors content kinds)) (\<lambda>ks.
     res_bind (lift_check (figureSlugs content)) (\<lambda>slugs.
       Inr (found @ map (\<lambda>(k, advice). DisabledKind shown k advice) ks @
         map (\<lambda>slug. UnknownSlug shown slug (slug \<in> set (fk_specs figs)))
           (filter (\<lambda>slug. slug \<notin> set (fk_known figs)) slugs)))))"

definition source_settings :: "site_env \<Rightarrow> jsstr \<Rightarrow> (site_error, jsstr option) res" where
  "source_settings e configPath =
     (if fs_isFile (se_fs e) configPath then res_bind (site_read e configPath) (\<lambda>content. Inr (Some content)) else Inr None)"

definition source_kinds :: "flavor \<Rightarrow> jsstr option \<Rightarrow> (check_error, kind list) res" where
  "source_kinds fl settings = (case settings of None \<Rightarrow> Inr [Mermaid, Figure] | Some content \<Rightarrow> flavor_kinds fl content)"

definition pageSourceErrors ::
  "site_env \<Rightarrow> jsstr \<Rightarrow> figures_known \<Rightarrow> site \<Rightarrow> source_finding list \<Rightarrow> (site_error, source_finding list) res" where
  "pageSourceErrors e repo figs s found =
     (let cwd = fs_cwd (se_fs e); configPath = path_resolve cwd [repo, si_config s]; fl = siteFlavor configPath in
      res_bind (source_settings e configPath) (\<lambda>settings.
      res_bind (lift_check (source_kinds fl settings)) (\<lambda>kinds.
      res_bind (flavor_pages e fl (path_resolve cwd [repo, si_docs s]) (case settings of None \<Rightarrow> [] | Some content \<Rightarrow> content)) (\<lambda>pages.
        fold_res (page_step e repo figs kinds) pages found))))"

definition readme_findings :: "fs \<Rightarrow> jsstr \<Rightarrow> jsstr \<Rightarrow> (site_error, source_finding list) res" where
  "readme_findings f repo readme =
     (let readmePath = path_resolve (fs_cwd f) [repo, readme] in
      if \<not> fs_isFile f readmePath then Inr []
      else
        (case fs_readText f readmePath of
           None \<Rightarrow> Inl (SiteUnreadable readmePath)
         | Some content \<Rightarrow>
             res_bind (lift_check (relativeBase f repo readmePath)) (\<lambda>base.
               let (refreshed, errors) = refreshMarkers f content base (path_join [repo, OUT_DIR]) in
               Inr (map MarkerFailed errors @ (if refreshed \<noteq> content then [PortableDiffers] else [])))))"

definition sources ::
  "site_env \<Rightarrow> (jsstr \<Rightarrow> jsstr) \<Rightarrow> jsstr \<Rightarrow> jsstr option \<Rightarrow> jsstr option \<Rightarrow> jsstr \<Rightarrow> (site_error, source_finding list) res" where
  "sources e sha256 repo docs config readme =
     res_bind (lift_source (figureSourceErrors (se_fs e) sha256 repo)) (\<lambda>figs.
     res_bind (lift_check (sourceSites (\<lambda>name. fs_isFile (se_fs e) (path_join [repo, name])) docs config)) (\<lambda>sites.
     res_bind (fold_res (pageSourceErrors e repo figs) sites (fk_errors figs)) (\<lambda>found.
     res_bind (readme_findings (se_fs e) repo readme) (\<lambda>more. Inr (found @ more)))))"

section \<open>The interface of a site generator\<close>

text \<open>
  What the checks rely on of a generator's \<open>pages\<close>: no more than \<open>MAX_PAGES\<close>, each a path below the documentation
  directory whose name has one of the generator's extensions. MkDocs and Starlight both keep it.
\<close>

definition page_under :: "jsstr list \<Rightarrow> jsstr \<Rightarrow> jsstr \<Rightarrow> bool" where
  "page_under exts docsDir page \<longleftrightarrow> (\<exists>parts. parts \<noteq> [] \<and> hasSuffix exts (last parts) \<and> page = path_join (docsDir # parts))"

locale page_source =
  fixes pages :: "site_env \<Rightarrow> jsstr \<Rightarrow> jsstr \<Rightarrow> (site_error, jsstr list) res"
    and exts :: "jsstr list"
  assumes pages_bounded: "pages e docsDir content = Inr found \<Longrightarrow> length found \<le> MAX_PAGES"
    and pages_under: "pages e docsDir content = Inr found \<Longrightarrow> page \<in> set found \<Longrightarrow> page_under exts docsDir page"
begin

lemma pages_extension:
  assumes "pages e docsDir content = Inr found" and "page \<in> set found"
  obtains parts ext where "ext \<in> set exts" "js_ends (last parts) ext" "page = path_join (docsDir # parts)"
  using pages_under [OF assms] by (auto simp: page_under_def hasSuffix_def)

end

lemma parts_loop_named:
  "parts_loop ls dir exts budget seen stack found = Inr t \<Longrightarrow> \<forall>p \<in> set found. p \<noteq> [] \<and> hasSuffix exts (last p) \<Longrightarrow>
     \<forall>p \<in> set t. p \<noteq> [] \<and> hasSuffix exts (last p)"
proof (induction ls dir exts budget seen stack found rule: parts_loop.induct)
  case (3 ls dir exts budget seen parts stack found)
  from "3.prems"(1) obtain ents where ents: "dir_entries ls (path_join (dir # parts)) = Inr ents"
    and small: "\<not> seen + length ents > MAX_ENTRIES" by (auto simp: res_simps split: if_splits)
  show ?case
  proof (rule "3.IH" [OF ents small])
    show "parts_loop ls dir exts budget (seen + length ents) (rev (map (\<lambda>e. parts @ [fst e]) (filter snd ents)) @ stack)
        (found @ map (\<lambda>e. parts @ [fst e]) (filter (\<lambda>e. hasSuffix exts (fst e)) ents)) = Inr t"
      using "3.prems"(1) ents small by simp
    show "\<forall>p \<in> set (found @ map (\<lambda>e. parts @ [fst e]) (filter (\<lambda>e. hasSuffix exts (fst e)) ents)). p \<noteq> [] \<and> hasSuffix exts (last p)"
      using "3.prems"(2) by auto
  qed
qed auto

interpretation listing: guarded_loop "page_list_step docsDir skip" "\<lambda>parts. parts \<noteq> [] \<and> hasSuffix exts (last parts)"
  "\<lambda>found. length found \<le> MAX_PAGES \<and> (\<forall>page \<in> set found. page_under exts docsDir page)" for docsDir skip exts
  by unfold_locales (auto simp: page_list_step_def page_under_def res_simps split: if_splits)

lemma pagesUnder_listed:
  assumes "pagesUnder e docsDir exts skip = Inr found"
  shows "length found \<le> MAX_PAGES \<and> (\<forall>page \<in> set found. page_under exts docsDir page)"
proof -
  from assms obtain parts where parts: "markdownParts e docsDir exts = Inr parts"
    and run: "fold_res (page_list_step docsDir skip) parts [] = Inr found" by (auto simp: pagesUnder_def res_simps)
  from parts have "\<forall>p \<in> set parts. p \<noteq> [] \<and> hasSuffix exts (last p)"
    using parts_loop_named [of "se_readdir e" docsDir exts MAX_ENTRIES 0 "[[]]" "[]"] by (auto simp: markdownParts_def res_simps)
  then show ?thesis by (intro listing.run_inv [OF _ _ run]) auto
qed

interpretation mkdocs: page_source "\<lambda>e. flavor_pages e MKDOCS" "[js ''.md'']"
  using pagesUnder_listed by unfold_locales (auto simp: flavor_pages_def markdownPages_def res_simps)

interpretation starlight: page_source "\<lambda>e. flavor_pages e STARLIGHT" STARLIGHT_SUFFIXES
  using pagesUnder_listed by unfold_locales (auto simp: flavor_pages_def starlightPages_def)

lemma flavor_pages_bounded: "flavor_pages e fl docsDir content = Inr found \<Longrightarrow> length found \<le> MAX_PAGES"
  using mkdocs.pages_bounded starlight.pages_bounded by (cases fl) auto

section \<open>The order of pages\<close>

lemma Nil_less: "([] :: jsstr list) < b \<longleftrightarrow> b \<noteq> []"
  by (cases b) auto

lemma compareParts_order: "compareParts a b < 0 \<longleftrightarrow> a < b" "compareParts a b = 0 \<longleftrightarrow> a = b"
  by (induction a b rule: compareParts.induct) (auto simp: Nil_less)

lemma markdownParts_sorted:
  assumes "markdownParts e dir exts = Inr found"
  shows "sorted_wrt (\<lambda>a b. compareParts a b \<le> 0) found"
proof -
  from assms have "sorted found" by (auto simp: markdownParts_def res_simps)
  moreover have "compareParts a b \<le> 0" if "a \<le> b" for a b
    using that compareParts_order [of a b] by (metis le_less order_le_less)
  ultimately show ?thesis by (auto intro: sorted_wrt_mono_rel [rotated])
qed

section \<open>What a clean check means\<close>

text \<open>
  The specification of a built site, stated over paths, texts and fence blocks and not over the checker's own tests: no
  cache, no findings, no URL test. An address is what a browser reads of a URL on a page: the query and the fragment
  are cut, what lies under the site's base path is taken from the site's directory, everything else from the directory of
  the page.
\<close>

definition addresses :: "site_env \<Rightarrow> jsstr \<Rightarrow> built \<Rightarrow> jsstr \<Rightarrow> jsstr \<Rightarrow> bool" where
  "addresses e out b url target \<longleftrightarrow>
     (\<exists>p tail. url = p @ tail \<and> 35 \<notin> set p \<and> 63 \<notin> set p \<and> (tail = [] \<or> hd tail = 35 \<or> hd tail = 63) \<and>
        ((\<exists>base rest. bu_base b = Some base \<and> p = base @ rest \<and> target = fs_real (se_fs e) (path_join [bu_dir b, rest])) \<or>
         (\<forall>base rest. bu_base b = Some base \<longrightarrow> p \<noteq> base @ rest) \<and>
           target = fs_real (se_fs e) (path_resolve (fs_cwd (se_fs e)) [path_dirname out, p])))"

text \<open>A URL of this site: not empty, of no other origin, and with a leading slash only under the base path.\<close>

definition local_url :: "built \<Rightarrow> jsstr \<Rightarrow> bool" where
  "local_url b url \<longleftrightarrow>
     url \<noteq> [] \<and> (\<nexists>x y. url = x @ js ''://'' @ y) \<and> \<not> prefix (js ''//'') url \<and> \<not> prefix (js ''data:'') url \<and>
     (prefix [SLASH] url \<longrightarrow> (\<exists>base rest. bu_base b = Some base \<and> url = base @ rest))"

definition below_site :: "site_env \<Rightarrow> built \<Rightarrow> jsstr \<Rightarrow> bool" where
  "below_site e b target \<longleftrightarrow>
     prefix (path_parts (path_resolve (fs_cwd (se_fs e)) [fs_real (se_fs e) (bu_dir b)])) (path_parts (path_resolve (fs_cwd (se_fs e)) [target]))"

definition published_url :: "site_env \<Rightarrow> jsstr \<Rightarrow> built \<Rightarrow> jsstr \<Rightarrow> bool" where
  "published_url e out b url \<longleftrightarrow>
     local_url b url \<and> (\<exists>target. addresses e out b url target \<and> fs_isFile (se_fs e) target \<and> below_site e b target)"

text \<open>
  The text of the first specification an SVG embeds, up to the first end mark after it, is JSON for an object whose props
  hold the layout object and the list of edges the player needs.
\<close>

definition embeds_props :: "(jsstr \<Rightarrow> jsv option) \<Rightarrow> jsstr \<Rightarrow> bool" where
  "embeds_props json svg \<longleftrightarrow>
     (\<exists>before body after spec props layout edges.
        svg = before @ SPEC_OPEN @ body @ SPEC_CLOSE @ after \<and>
        (\<forall>k < length before. \<not> prefix SPEC_OPEN (drop k svg)) \<and>
        (\<forall>k < length body. \<not> prefix SPEC_CLOSE (drop k (body @ SPEC_CLOSE @ after))) \<and>
        json body = Some (JObj spec) \<and> field (JObj spec) (js ''props'') = JObj props \<and>
        field (JObj props) (js ''layout'') = JObj layout \<and> field (JObj props) (js ''edges'') = JArr edges)"

definition svg_sound :: "site_env \<Rightarrow> jsstr \<Rightarrow> built \<Rightarrow> jsstr \<Rightarrow> bool" where
  "svg_sound e out b url \<longleftrightarrow>
     (\<exists>target svg. addresses e out b url target \<and> fs_readText (se_fs e) target = Some svg \<and> embeds_props (se_json e) svg)"

text \<open>The first loader script that the site holds has the player beside it; without one the site is one of static SVGs.\<close>

definition player_loaded :: "site_env \<Rightarrow> jsstr \<Rightarrow> built \<Rightarrow> jsstr list \<Rightarrow> bool" where
  "player_loaded e out b scripts \<longleftrightarrow>
     (let loader = (\<lambda>src. (\<exists>x. src = x @ LOADER) \<and> published_url e out b src) in
      (\<exists>before src after target. scripts = before @ src # after \<and> loader src \<and> (\<forall>s \<in> set before. \<not> loader s) \<and>
         addresses e out b src target \<and> fs_isFile (se_fs e) (path_join [path_dirname target, PLAYER])) \<or>
      (\<forall>s \<in> set scripts. \<not> loader s) \<and> bu_svgOnly b)"

definition figures_sound :: "site_env \<Rightarrow> jsstr \<Rightarrow> built \<Rightarrow> jsstr list \<Rightarrow> scanned_page \<Rightarrow> bool" where
  "figures_sound e out b slugs scanned \<longleftrightarrow>
     map pf_slug (sp_figures scanned) = slugs \<and>
     (\<forall>fg \<in> set (sp_figures scanned). \<forall>u \<in> set (pf_urls fg). published_url e out b u \<and> svg_sound e out b u) \<and>
     player_loaded e out b (sp_scripts scanned)"

definition blocks_of :: "jsstr \<Rightarrow> fence_block list \<Rightarrow> fence_block list" where
  "blocks_of info blocks = filter (\<lambda>blk. fb_info blk = info) blocks"

definition shown_as_drawn :: "site_env \<Rightarrow> built \<Rightarrow> jsstr \<Rightarrow> jsstr \<Rightarrow> fence_block list \<Rightarrow> bool" where
  "shown_as_drawn e b page content blocks \<longleftrightarrow>
     (\<forall>blk \<in> set blocks. (fb_info blk = js ''mermaid'' \<longrightarrow> Mermaid \<in> set (bu_kinds b)) \<and> (fb_info blk = js ''figure'' \<longrightarrow> Figure \<in> set (bu_kinds b))) \<and>
     (\<exists>out html. flavor_output e (bu_flavor b) (bu_docs b) (bu_dir b) page content = Inr out \<and>
        fs_isFile (se_fs e) out \<and> fs_readText (se_fs e) out = Some html \<and>
        (blocks_of (js ''mermaid'') blocks = [] \<or> sp_mermaid (scanPage html) = length (blocks_of (js ''mermaid'') blocks)) \<and>
        (blocks_of (js ''figure'') blocks = [] \<or>
           figures_sound e out b (map (figureSlug \<circ> fb_body) (blocks_of (js ''figure'') blocks)) (scanPage html)))"

definition page_sound :: "site_env \<Rightarrow> built \<Rightarrow> jsstr \<Rightarrow> nat \<Rightarrow> bool" where
  "page_sound e b page n \<longleftrightarrow>
     (\<exists>content blocks. fs_readText (se_fs e) page = Some content \<and> fenceBlocks content = Inr blocks \<and>
        n = length (blocks_of (js ''mermaid'') blocks) + length (blocks_of (js ''figure'') blocks) \<and>
        (n = 0 \<or> shown_as_drawn e b page content blocks))"

text \<open>A site that publishes static SVGs: no player directory, and a lock file that records no release.\<close>

definition static_svgs :: "site_env \<Rightarrow> jsstr \<Rightarrow> bool" where
  "static_svgs e config \<longleftrightarrow>
     (let beside = (\<lambda>rel. path_join [path_dirname config, rel]); f = se_fs e in
      \<not> fs_isDirectory f (beside (js ''tools/figures/player'')) \<and> fs_isFile f (beside (js ''tools/figures/player.lock.json'')) \<and>
      (\<exists>lock data. fs_readText f (beside (js ''tools/figures/player.lock.json'')) = Some lock \<and> se_json e lock = Some (JObj data) \<and>
         (let release = field (JObj data) (js ''release'') in
          release = JUndef \<or> release = JNull \<or> js_trim (to_text release) = [])))"

definition site_sound :: "site_env \<Rightarrow> jsstr \<Rightarrow> jsstr \<Rightarrow> jsstr \<Rightarrow> jsstr option \<Rightarrow> nat \<Rightarrow> bool" where
  "site_sound e config docs site base n \<longleftrightarrow>
     (base = None \<or> siteFlavor config = STARLIGHT) \<and> fs_isDirectory (se_fs e) (clean_path docs) \<and>
     fs_isFile (se_fs e) (path_join [clean_path site, js ''index.html'']) \<and>
     (\<exists>content b pages counts. fs_readText (se_fs e) (clean_path config) = Some content \<and>
        bu_flavor b = siteFlavor config \<and> bu_docs b = clean_path docs \<and> bu_dir b = clean_path site \<and>
        bu_base b = (if siteFlavor config = STARLIGHT then Some (basePath (case base of None \<Rightarrow> [SLASH] | Some t \<Rightarrow> t)) else None) \<and>
        flavor_kinds (siteFlavor config) content = Inr (bu_kinds b) \<and> bu_svgOnly b = static_svgs e (clean_path config) \<and>
        flavor_pages e (siteFlavor config) (clean_path docs) content = Inr pages \<and>
        list_all2 (page_sound e b) pages counts \<and> n = sum_list counts)"

section \<open>Lemmas: the checker's tests\<close>

lemma address_path:
  assumes "url = p @ tail" and "35 \<notin> set p" and "63 \<notin> set p" and "tail = [] \<or> hd tail = 35 \<or> hd tail = 63"
  shows "url_path_part url = p"
proof -
  have cut: "takeWhile (\<lambda>c. c \<noteq> 63) (takeWhile (\<lambda>c. c \<noteq> 35) s) = takeWhile (\<lambda>c. c \<noteq> 35 \<and> c \<noteq> 63) s" for s :: jsstr
    by (induction s) auto
  have "takeWhile (\<lambda>c. c \<noteq> 35 \<and> c \<noteq> 63) (p @ tail) = p"
    using assms(2-4) by (cases tail) (auto simp: takeWhile_append takeWhile_eq_all_conv)
  then show ?thesis by (simp add: url_path_part_def cut assms(1))
qed

lemma address_split:
  obtains tail where "url = url_path_part url @ tail" "35 \<notin> set (url_path_part url)" "63 \<notin> set (url_path_part url)"
    "tail = [] \<or> hd tail = 35 \<or> hd tail = 63"
proof
  let ?P = "\<lambda>c. c \<noteq> 35 \<and> c \<noteq> (63 :: nat)"
  have cut: "url_path_part s = takeWhile ?P s" for s
    unfolding url_path_part_def by (induction s) auto
  show "url = url_path_part url @ dropWhile ?P url" by (simp add: cut)
  show "35 \<notin> set (url_path_part url)" "63 \<notin> set (url_path_part url)" by (auto simp: cut dest: set_takeWhileD)
  show "dropWhile ?P url = [] \<or> hd (dropWhile ?P url) = 35 \<or> hd (dropWhile ?P url) = 63"
    using hd_dropWhile [of ?P url] by blast
qed

lemma addresses_iff: "addresses e out b url target \<longleftrightarrow> target = urlTarget e out b url"
proof
  assume "addresses e out b url target"
  then obtain p tail where url: "url = p @ tail" "35 \<notin> set p" "63 \<notin> set p" "tail = [] \<or> hd tail = 35 \<or> hd tail = 63"
    and where_to: "(\<exists>base rest. bu_base b = Some base \<and> p = base @ rest \<and> target = fs_real (se_fs e) (path_join [bu_dir b, rest])) \<or>
         (\<forall>base rest. bu_base b = Some base \<longrightarrow> p \<noteq> base @ rest) \<and>
           target = fs_real (se_fs e) (path_resolve (fs_cwd (se_fs e)) [path_dirname out, p])"
    unfolding addresses_def by blast
  show "target = urlTarget e out b url"
    using where_to unfolding urlTarget_def Let_def address_path [OF url] by (auto simp: js_starts_iff split: option.splits)
next
  assume target: "target = urlTarget e out b url"
  obtain tail where url: "url = url_path_part url @ tail" "35 \<notin> set (url_path_part url)" "63 \<notin> set (url_path_part url)"
    "tail = [] \<or> hd tail = 35 \<or> hd tail = 63" by (rule address_split)
  have "(\<exists>base rest. bu_base b = Some base \<and> url_path_part url = base @ rest \<and> target = fs_real (se_fs e) (path_join [bu_dir b, rest])) \<or>
         (\<forall>base rest. bu_base b = Some base \<longrightarrow> url_path_part url \<noteq> base @ rest) \<and>
           target = fs_real (se_fs e) (path_resolve (fs_cwd (se_fs e)) [path_dirname out, url_path_part url])"
    unfolding target urlTarget_def Let_def by (auto simp: js_starts_iff split: option.splits)
  with url show "addresses e out b url target" unfolding addresses_def by blast
qed

lemma js_starts_prefix: "js_starts s p \<longleftrightarrow> prefix p s"
  by (auto simp: js_starts_iff prefix_def)

lemma published_url_iff: "published_url e out b url \<longleftrightarrow> resolves e out b url"
proof -
  have base: "under_base b url \<longleftrightarrow> (\<exists>base rest. bu_base b = Some base \<and> url = base @ rest)"
    by (auto simp: under_base_def js_starts_iff split: option.splits)
  have "local_url b url \<longleftrightarrow> \<not> (url = [] \<or> js_includes url (js ''://'') \<or> js_starts url (js ''//'') \<or> js_starts url (js ''data:'')) \<and>
     \<not> (js_starts url [SLASH] \<and> \<not> under_base b url)"
    unfolding local_url_def js_includes_iff js_starts_prefix base by blast
  moreover have "below_site e b t \<longleftrightarrow> inside (fs_cwd (se_fs e)) (fs_real (se_fs e) (bu_dir b)) t" for t
    by (simp add: below_site_def inside_not_escapes escapesDirectory_iff)
  ultimately show ?thesis unfolding published_url_def resolves_def addresses_iff by blast
qed

lemma svgSpecError_body:
  assumes "js_find SPEC_OPEN svg 0 = Some start" and "js_find SPEC_CLOSE svg (start + length SPEC_OPEN) = Some stop"
    and "js_slice svg (start + length SPEC_OPEN) stop = body"
  shows "svgSpecError json svg = None \<longleftrightarrow>
    (\<exists>spec props layout edges. json body = Some (JObj spec) \<and> field (JObj spec) (js ''props'') = JObj props \<and>
       field (JObj props) (js ''layout'') = JObj layout \<and> field (JObj props) (js ''edges'') = JArr edges)"
proof -
  have obj: "isObj v \<longleftrightarrow> (\<exists>fields. v = JObj fields)" "is_array v \<longleftrightarrow> (\<exists>xs. v = JArr xs)" for v by (cases v; simp)+
  have "svgSpecError json svg = None \<longleftrightarrow>
      (\<exists>spec. json body = Some spec \<and> isObj spec \<and> isObj (field spec (js ''props'')) \<and>
         isObj (field (field spec (js ''props'')) (js ''layout'')) \<and> is_array (field (field spec (js ''props'')) (js ''edges'')))"
    using assms by (cases "json body") (auto simp: svgSpecError_def Let_def)
  then show ?thesis unfolding obj by (metis (no_types))
qed

lemma svgSpecError_iff: "svgSpecError json svg = None \<longleftrightarrow> embeds_props json svg"
proof
  assume ok: "svgSpecError json svg = None"
  then obtain start where start: "js_find SPEC_OPEN svg 0 = Some start" by (auto simp: svgSpecError_def split: option.splits)
  let ?from = "start + length SPEC_OPEN"
  from ok start obtain stop where stop: "js_find SPEC_CLOSE svg ?from = Some stop"
    by (cases "js_find SPEC_CLOSE svg ?from") (auto simp: svgSpecError_def Let_def)
  obtain k where k: "find_sub SPEC_CLOSE (drop ?from svg) = Some k" "stop = k + ?from" using stop by (auto simp: js_find_def)
  have first: "find_sub SPEC_OPEN svg = Some start" using start by (simp add: js_find_def)
  note f = first [unfolded find_sub_first] and g = k(1) [unfolded find_sub_first]
  obtain rest where rest: "drop start svg = SPEC_OPEN @ rest" using f by (auto simp: js_starts_iff)
  then have from_rest: "drop ?from svg = rest" by (metis add.commute append_eq_conv_conj drop_drop)
  define body where "body = take k rest"
  obtain after where after: "drop k rest = SPEC_CLOSE @ after" using g from_rest by (auto simp: js_starts_iff)
  have body_len: "length body = k" using g from_rest by (simp add: body_def)
  have rest_split: "rest = body @ SPEC_CLOSE @ after" unfolding body_def after [symmetric] by simp
  have svg: "svg = take start svg @ SPEC_OPEN @ body @ SPEC_CLOSE @ after"
    using rest rest_split append_take_drop_id [of start svg] by simp
  have slice: "js_slice svg ?from stop = body" using k(2) from_rest by (simp add: js_slice_def body_def)
  from ok [unfolded svgSpecError_body [OF start stop slice]] obtain spec props layout edges where
    "json body = Some (JObj spec)" "field (JObj spec) (js ''props'') = JObj props"
    "field (JObj props) (js ''layout'') = JObj layout" "field (JObj props) (js ''edges'') = JArr edges" by blast
  moreover have "\<forall>j < length (take start svg). \<not> prefix SPEC_OPEN (drop j svg)" using f by (simp add: js_starts_prefix)
  moreover have "\<forall>j < length body. \<not> prefix SPEC_CLOSE (drop j (body @ SPEC_CLOSE @ after))"
    using g from_rest body_len by (simp add: js_starts_prefix rest_split)
  ultimately show "embeds_props json svg" unfolding embeds_props_def using svg by blast
next
  assume "embeds_props json svg"
  then obtain before body after spec props layout edges where svg: "svg = before @ SPEC_OPEN @ body @ SPEC_CLOSE @ after"
    and first: "\<forall>k < length before. \<not> prefix SPEC_OPEN (drop k svg)"
    and next_mark: "\<forall>k < length body. \<not> prefix SPEC_CLOSE (drop k (body @ SPEC_CLOSE @ after))"
    and spec: "json body = Some (JObj spec)" "field (JObj spec) (js ''props'') = JObj props"
      "field (JObj props) (js ''layout'') = JObj layout" "field (JObj props) (js ''edges'') = JArr edges"
    unfolding embeds_props_def by blast
  have "find_sub SPEC_OPEN svg = Some (length before)"
    using first by (subst find_sub_first) (simp add: js_starts_prefix svg)
  then have start: "js_find SPEC_OPEN svg 0 = Some (length before)" by (simp add: js_find_def)
  let ?from = "length before + length SPEC_OPEN"
  have rest: "drop ?from svg = body @ SPEC_CLOSE @ after" by (simp add: svg)
  have "find_sub SPEC_CLOSE (drop ?from svg) = Some (length body)"
    using next_mark unfolding rest by (subst find_sub_first) (simp add: js_starts_prefix)
  then have stop: "js_find SPEC_CLOSE svg ?from = Some (length body + ?from)" by (simp add: js_find_def)
  have slice: "js_slice svg ?from (length body + ?from) = body" by (simp add: js_slice_def rest)
  show "svgSpecError json svg = None"
    unfolding svgSpecError_body [OF start stop slice] using spec by blast
qed

lemma svg_sound_alt:
  "svg_sound e out b url \<longleftrightarrow>
     (case fs_readText (se_fs e) (urlTarget e out b url) of None \<Rightarrow> False | Some svg \<Rightarrow> svgSpecError (se_json e) svg = None)"
  by (auto simp: svg_sound_def addresses_iff svgSpecError_iff split: option.splits)

lemma player_loaded_alt:
  "player_loaded e out b scripts \<longleftrightarrow>
     (case find (\<lambda>src. js_ends src LOADER \<and> resolves e out b src) scripts of
        None \<Rightarrow> bu_svgOnly b
      | Some loader \<Rightarrow> fs_isFile (se_fs e) (path_join [path_dirname (urlTarget e out b loader), PLAYER]))"
proof -
  let ?L = "\<lambda>src. js_ends src LOADER \<and> resolves e out b src"
  have spec: "player_loaded e out b scripts \<longleftrightarrow>
      (\<exists>before src after. scripts = before @ src # after \<and> ?L src \<and> (\<forall>s \<in> set before. \<not> ?L s) \<and>
         fs_isFile (se_fs e) (path_join [path_dirname (urlTarget e out b src), PLAYER])) \<or>
      (\<forall>s \<in> set scripts. \<not> ?L s) \<and> bu_svgOnly b"
    unfolding player_loaded_def Let_def published_url_iff addresses_iff js_ends_iff by blast
  show ?thesis
  proof (cases "find ?L scripts")
    case None
    then have "\<forall>s \<in> set scripts. \<not> ?L s" by (auto simp: find_None_iff)
    then show ?thesis unfolding spec None by auto
  next
    case (Some src)
    then obtain i where i: "i < length scripts" "?L (scripts ! i)" "src = scripts ! i" "\<forall>j < i. \<not> ?L (scripts ! j)"
      by (auto simp: find_Some_iff)
    have split: "scripts = take i scripts @ src # drop (Suc i) scripts" using i(1,3) by (simp add: id_take_nth_drop)
    have none: "\<forall>s \<in> set (take i scripts). \<not> ?L s" using i(1,4) by (auto simp: in_set_conv_nth)
    have same: "s = src" if other: "scripts = before @ s # after" "?L s" "\<forall>x \<in> set before. \<not> ?L x" for before s after
    proof -
      have "find ?L scripts = Some s" unfolding other(1) using other(2,3) by (induction before) auto
      with Some show ?thesis by simp
    qed
    show ?thesis unfolding spec Some option.case using split none same i(2,3) by (metis nth_mem i(1))
  qed
qed

lemma figures_sound_alt:
  "figures_sound e out b slugs scanned \<longleftrightarrow>
     map pf_slug (sp_figures scanned) = slugs \<and>
     (\<forall>fg \<in> set (sp_figures scanned). \<forall>u \<in> set (pf_urls fg). resolves e out b u \<and> svg_sound e out b u) \<and>
     player_loaded e out b (sp_scripts scanned)"
  by (simp add: figures_sound_def published_url_iff)

lemma shown_as_drawn_alt:
  assumes "fenceBlocks content = Inr blocks" and "fences content (js ''mermaid'') = Inr bodies" and "figureSlugs content = Inr slugs"
  shows "shown_as_drawn e b page content blocks \<longleftrightarrow>
     kindErrors content (bu_kinds b) = Inr [] \<and>
     (\<exists>out html. flavor_output e (bu_flavor b) (bu_docs b) (bu_dir b) page content = Inr out \<and>
        fs_isFile (se_fs e) out \<and> fs_readText (se_fs e) out = Some html \<and>
        (length bodies = 0 \<or> sp_mermaid (scanPage html) = length bodies) \<and>
        (slugs = [] \<or> figures_sound e out b slugs (scanPage html)))"
proof -
  have "bodies = map fb_body (blocks_of (js ''mermaid'') blocks)" "slugs = map (figureSlug \<circ> fb_body) (blocks_of (js ''figure'') blocks)"
    using assms by (auto simp: fences_def figureSlugs_def blocks_of_def)
  moreover have "kindErrors content (bu_kinds b) = Inr [] \<longleftrightarrow>
      (\<forall>blk \<in> set blocks. (fb_info blk = js ''mermaid'' \<longrightarrow> Mermaid \<in> set (bu_kinds b)) \<and> (fb_info blk = js ''figure'' \<longrightarrow> Figure \<in> set (bu_kinds b)))"
    using assms(1) by (simp add: kindErrors_def Let_def image_iff) metis
  ultimately show ?thesis unfolding shown_as_drawn_def by simp
qed

lemma page_sound_alt:
  "page_sound e b page n \<longleftrightarrow>
     (\<exists>content blocks bodies slugs. fs_readText (se_fs e) page = Some content \<and> fenceBlocks content = Inr blocks \<and>
        fences content (js ''mermaid'') = Inr bodies \<and> figureSlugs content = Inr slugs \<and> n = length bodies + length slugs \<and>
        (n = 0 \<or> shown_as_drawn e b page content blocks))"
  unfolding page_sound_def by (auto simp: fences_def figureSlugs_def blocks_of_def)

lemma fences_blocks: "fences content info = Inr bodies \<Longrightarrow> \<exists>blocks. fenceBlocks content = Inr blocks"
  by (auto simp: fences_def res_simps)

lemma static_svgs_iff: "static_svgs e config \<longleftrightarrow> svgOnlySite e config"
proof -
  have obj: "isObj data \<longleftrightarrow> (\<exists>fields. data = JObj fields)" for data by (cases data) auto
  have blank: "js_trim [] = []" by (simp add: js_trim_def js_trim_start_def js_trim_end_def)
  show ?thesis
    by (auto simp: static_svgs_def svgOnlySite_def Let_def obj nullish_def blank split: option.splits bind_splits if_splits)
qed

lemma site_sound_alt:
  "site_sound e config docs site base n \<longleftrightarrow>
     (base = None \<or> siteFlavor config = STARLIGHT) \<and> fs_isDirectory (se_fs e) (clean_path docs) \<and>
     fs_isFile (se_fs e) (path_join [clean_path site, js ''index.html'']) \<and>
     (\<exists>content b pages counts. fs_readText (se_fs e) (clean_path config) = Some content \<and>
        built_site e config docs site base content = Inr b \<and>
        flavor_pages e (siteFlavor config) (clean_path docs) content = Inr pages \<and>
        list_all2 (page_sound e b) pages counts \<and> n = sum_list counts)"
proof -
  have "built_site e config docs site base content = Inr b \<longleftrightarrow>
      bu_flavor b = siteFlavor config \<and> bu_docs b = clean_path docs \<and> bu_dir b = clean_path site \<and>
      bu_base b = (if siteFlavor config = STARLIGHT then Some (basePath (case base of None \<Rightarrow> [SLASH] | Some t \<Rightarrow> t)) else None) \<and>
      flavor_kinds (siteFlavor config) content = Inr (bu_kinds b) \<and> bu_svgOnly b = static_svgs e (clean_path config)" for content b
    unfolding built_site_def static_svgs_iff by (cases b) (auto simp: res_simps lift_check_def split: sum.splits)
  then show ?thesis unfolding site_sound_def by simp
qed

section \<open>Lemmas: the checks\<close>

text \<open>The cache holds only verdicts that reading the file again would give.\<close>

definition verdicts_ok :: "site_env \<Rightarrow> verdicts \<Rightarrow> bool" where
  "verdicts_ok e seen \<longleftrightarrow> (\<forall>(t, v) \<in> set seen. \<exists>svg. fs_readText (se_fs e) t = Some svg \<and> v = svgSpecError (se_json e) svg)"

definition settles :: "site_env \<Rightarrow> bool \<Rightarrow> (site_error, site_finding list \<times> verdicts) res \<Rightarrow> bool" where
  "settles e P r \<longleftrightarrow> (case r of Inl _ \<Rightarrow> \<not> P | Inr (found, seen) \<Rightarrow> (found = [] \<longleftrightarrow> P) \<and> verdicts_ok e seen)"

lemma settles_simps [simp]:
  "settles e P (Inl err) \<longleftrightarrow> \<not> P"
  "settles e P (Inr (found, seen)) \<longleftrightarrow> (found = [] \<longleftrightarrow> P) \<and> verdicts_ok e seen"
  by (simp_all add: settles_def)

lemma verdicts_ok_Nil: "verdicts_ok e []"
  by (simp add: verdicts_ok_def)

lemma verdicts_ok_lookup:
  assumes "verdicts_ok e seen" and "map_of seen t = Some v"
  obtains svg where "fs_readText (se_fs e) t = Some svg" "v = svgSpecError (se_json e) svg"
  using assms map_of_SomeD [of seen t v] by (auto simp: verdicts_ok_def)

lemma lift_check_Inr_iff [res_simps]: "lift_check r = Inr x \<longleftrightarrow> r = Inr x"
  by (auto simp: lift_check_def split: sum.splits)

lemma site_read_Inr_iff [res_simps]: "site_read e p = Inr t \<longleftrightarrow> fs_readText (se_fs e) p = Some t"
  by (auto simp: site_read_def split: option.splits)

lemma spec_step_settles:
  assumes "verdicts_ok e seen"
  shows "settles e (found = [] \<and> svg_sound e out b (snd entry)) (spec_step e page out b entry (found, seen))"
proof (cases entry)
  case (Pair slug url)
  let ?t = "urlTarget e out b url"
  show ?thesis
  proof (cases "map_of seen ?t")
    case None
    then show ?thesis using assms Pair
      by (auto simp: spec_step_def site_read_def svg_sound_alt verdicts_ok_def Let_def split: option.splits)
  next
    case (Some v)
    then obtain svg where "fs_readText (se_fs e) ?t = Some svg" "v = svgSpecError (se_json e) svg"
      using verdicts_ok_lookup [OF assms] by blast
    then show ?thesis using assms Pair Some by (auto simp: spec_step_def svg_sound_alt Let_def split: option.splits)
  qed
qed

lemma spec_fold_settles:
  "verdicts_ok e seen \<Longrightarrow>
   settles e (found = [] \<and> (\<forall>entry \<in> set es. svg_sound e out b (snd entry)))
     (fold_res (spec_step e page out b) es (found, seen))"
proof (induction es arbitrary: found seen)
  case Nil
  then show ?case by simp
next
  case (Cons entry es)
  show ?case
  proof (cases "spec_step e page out b entry (found, seen)")
    case (Inl err)
    then show ?thesis using spec_step_settles [OF Cons.prems, of found out b entry page] by auto
  next
    case (Inr acc)
    obtain found' seen' where acc: "acc = (found', seen')" by (cases acc)
    then have "verdicts_ok e seen'" "found' = [] \<longleftrightarrow> found = [] \<and> svg_sound e out b (snd entry)"
      using spec_step_settles [OF Cons.prems, of found out b entry page] Inr by auto
    then show ?thesis using Cons.IH [of seen' found'] Inr acc by (simp add: conj_assoc)
  qed
qed

lemma loaderErrors_empty: "loaderErrors e page out b scripts = [] \<longleftrightarrow> player_loaded e out b scripts"
  by (auto simp: loaderErrors_def player_loaded_alt split: option.splits)

lemma figureErrors_settles:
  assumes "verdicts_ok e seen"
  shows "settles e (figures_sound e out b slugs scanned) (figureErrors e page out b slugs scanned seen)"
proof (cases "map pf_slug (sp_figures scanned) = slugs")
  case False
  then show ?thesis using assms by (simp add: figureErrors_def figures_sound_alt Let_def)
next
  case True
  let ?figs = "sp_figures scanned"
  have "settles e (\<forall>fg \<in> set ?figs. \<forall>u \<in> set (pf_urls fg). resolves e out b u \<longrightarrow> svg_sound e out b u)
      (specErrors e page out b ?figs seen)"
    using spec_fold_settles [OF assms, of "[]" "concat (map (\<lambda>fg. map (Pair (pf_slug fg)) (filter (resolves e out b) (pf_urls fg))) ?figs)" out b page]
    unfolding specErrors_def by (rule back_subst [where P = "\<lambda>P. settles e P _"]) auto
  then show ?thesis using True
    by (cases "specErrors e page out b ?figs seen")
       (auto simp: figureErrors_def figures_sound_alt Let_def loaderErrors_empty filter_empty_conv)
qed

lemma lift_check_simps [simp]: "lift_check (Inl err) = Inl (SiteCheck err)" "lift_check (Inr x) = Inr x"
  by (simp_all add: lift_check_def)

lemma site_read_simps:
  "fs_readText (se_fs e) p = None \<Longrightarrow> site_read e p = Inl (SiteUnreadable p)"
  "fs_readText (se_fs e) p = Some t \<Longrightarrow> site_read e p = Inr t"
  by (simp_all add: site_read_def)

definition settles_count :: "site_env \<Rightarrow> (nat \<Rightarrow> bool) \<Rightarrow> (site_error, site_finding list \<times> nat \<times> verdicts) res \<Rightarrow> bool" where
  "settles_count e P r \<longleftrightarrow>
     (case r of
        Inl _ \<Rightarrow> (\<forall>m. \<not> P m)
      | Inr (found, n, seen) \<Rightarrow> verdicts_ok e seen \<and> (\<forall>m. P m \<longleftrightarrow> found = [] \<and> m = n))"

lemma settles_count_simps [simp]:
  "settles_count e P (Inl err) \<longleftrightarrow> (\<forall>m. \<not> P m)"
  "settles_count e P (Inr (found, n, seen)) \<longleftrightarrow> verdicts_ok e seen \<and> (\<forall>m. P m \<longleftrightarrow> found = [] \<and> m = n)"
  by (simp_all add: settles_count_def)

lemma page_figures_settle:
  assumes "verdicts_ok e seen"
  shows "settles e (slugs = [] \<or> figures_sound e out b slugs scanned)
    (if slugs \<noteq> [] then figureErrors e page out b slugs scanned seen else Inr ([], seen))"
  using assms figureErrors_settles [OF assms] by auto

lemma pageErrors_settles:
  assumes seen: "verdicts_ok e seen"
  shows "settles_count e (page_sound e b page) (pageErrors e b page seen)"
proof (cases "\<exists>content bodies slugs. fs_readText (se_fs e) page = Some content \<and> fences content (js ''mermaid'') = Inr bodies \<and> figureSlugs content = Inr slugs")
  case False
  then obtain err where "pageErrors e b page seen = Inl err"
    by (cases "pageErrors e b page seen") (auto simp: pageErrors_def res_simps)
  with False show ?thesis by (auto simp: page_sound_alt)
next
  case True
  then obtain content bodies slugs where src: "fs_readText (se_fs e) page = Some content"
    "fences content (js ''mermaid'') = Inr bodies" "figureSlugs content = Inr slugs" by blast
  obtain blocks where blocks: "fenceBlocks content = Inr blocks" using fences_blocks [OF src(2)] by blast
  note shown = shown_as_drawn_alt [OF blocks src(2,3)]
  let ?n = "length bodies + length slugs"
  have spec: "page_sound e b page m \<longleftrightarrow> m = ?n \<and> (?n = 0 \<or> shown_as_drawn e b page content blocks)" for m
    using src blocks by (auto simp: page_sound_alt)
  note unfolded = pageErrors_def site_read_simps src src [simplified] Let_def
  show ?thesis
  proof (cases "?n = 0 \<or> (\<exists>err. kindErrors content (bu_kinds b) = Inl err) \<or>
      (\<exists>err. flavor_output e (bu_flavor b) (bu_docs b) (bu_dir b) page content = Inl err)")
    case True
    then show ?thesis using seen
      by (cases "kindErrors content (bu_kinds b)") (auto simp: unfolded spec shown)
  next
    case False
    then obtain ks out where k: "kindErrors content (bu_kinds b) = Inr ks" and n: "?n \<noteq> 0"
      and o: "flavor_output e (bu_flavor b) (bu_docs b) (bu_dir b) page content = Inr out"
      by (metis sum.exhaust)
    have drawn: "shown_as_drawn e b page content blocks \<longleftrightarrow>
        ks = [] \<and> fs_isFile (se_fs e) out \<and> (\<exists>html. fs_readText (se_fs e) out = Some html \<and>
          (length bodies = 0 \<or> sp_mermaid (scanPage html) = length bodies) \<and> (slugs = [] \<or> figures_sound e out b slugs (scanPage html)))"
      by (auto simp: shown k o)
    show ?thesis
    proof (cases "fs_readText (se_fs e) out")
      case None
      then show ?thesis using seen n by (auto simp: unfolded k o spec drawn)
    next
      case (Some html)
      define P where "P = (slugs = [] \<or> figures_sound e out b slugs (scanPage html))"
      define r where "r = (if slugs \<noteq> [] then figureErrors e page out b slugs (scanPage html) seen else Inr ([], seen))"
      define ms where "ms = (if length bodies \<noteq> 0 then mermaidError page (length bodies) (scanPage html) else [])"
      have sound: "page_sound e b page m \<longleftrightarrow> m = ?n \<and> ks = [] \<and> fs_isFile (se_fs e) out \<and> ms = [] \<and> P" for m
        using n Some by (auto simp: spec drawn ms_def mermaidError_def P_def)
      have eq: "pageErrors e b page seen =
          (if \<not> fs_isFile (se_fs e) out then Inr (map (\<lambda>(k, advice). SiteKind page k advice) ks @ [NoOutput page ?n out], ?n, seen)
           else res_bind r (\<lambda>(figs, seen'). Inr (map (\<lambda>(k, advice). SiteKind page k advice) ks @ ms @ figs, ?n, seen')))"
        using n by (auto simp: unfolded k o Some r_def ms_def)
      have "settles e P r" unfolding P_def r_def by (rule page_figures_settle [OF seen])
      then show ?thesis using seen by (cases r) (auto simp: eq sound)
    qed
  qed
qed

lemma site_fold_settles:
  "verdicts_ok e seen \<Longrightarrow>
   settles_count e (\<lambda>m. errors = [] \<and> (\<exists>counts. list_all2 (page_sound e b) pages counts \<and> m = diagrams + sum_list counts))
     (fold_res (site_step e b) pages (errors, diagrams, seen))"
proof (induction pages arbitrary: errors diagrams seen)
  case Nil
  then show ?case by simp
next
  case (Cons page pages)
  note page = pageErrors_settles [OF Cons.prems, of b page]
  show ?case
  proof (cases "pageErrors e b page seen")
    case (Inl err)
    then show ?thesis using page by (auto simp: site_step_def list_all2_Cons1)
  next
    case (Inr r)
    obtain found n seen' where r: "r = (found, n, seen')" by (cases r)
    then have ok: "verdicts_ok e seen'" and one: "page_sound e b page m \<longleftrightarrow> found = [] \<and> m = n" for m
      using page Inr by auto
    have "(\<lambda>m. errors = [] \<and> (\<exists>counts. list_all2 (page_sound e b) (page # pages) counts \<and> m = diagrams + sum_list counts)) =
        (\<lambda>m. errors @ found = [] \<and> (\<exists>counts. list_all2 (page_sound e b) pages counts \<and> m = diagrams + n + sum_list counts))"
      by (auto simp: list_all2_Cons1 one fun_eq_iff add.assoc)
    then show ?thesis using Cons.IH [OF ok, of "errors @ found" "diagrams + n"] Inr r by (simp add: site_step_def)
  qed
qed

text \<open>
  C36. The site check is exact: it reports no finding and \<open>n\<close> diagrams exactly when the configuration, the documentation
  directory and the built site are there and every page of the generator is sound - its source's fences are of enabled
  kinds, its HTML file was written and shows as many Mermaid diagrams and, in order, the same figures as the source,
  every image URL names a file inside the site whose SVG embeds the player's props, and the player is loaded - with
  \<open>n\<close> the sum of the pages' diagrams. Keeping each SVG's verdict changes no answer.
\<close>

theorem checkSite_exact: "checkSite e config docs site base = Inr ([], n) \<longleftrightarrow> site_sound e config docs site base n"
proof -
  let ?run = "\<lambda>b pages. fold_res (site_step e b) pages ([], 0, [])"
  have "(\<exists>seen. ?run b pages = Inr ([], n, seen)) \<longleftrightarrow> (\<exists>counts. list_all2 (page_sound e b) pages counts \<and> n = sum_list counts)" for b pages
    using site_fold_settles [of e "[]" "[]" b pages 0] verdicts_ok_Nil [of e] by (auto simp: settles_count_def split: sum.splits prod.splits)
  then show ?thesis
    by (auto simp: checkSite_def site_sound_alt res_simps split_beta)
qed

section \<open>What clean sources mean\<close>

definition figure_bound :: "fs \<Rightarrow> (jsstr \<Rightarrow> jsstr) \<Rightarrow> jsstr \<Rightarrow> jsstr \<Rightarrow> bool" where
  "figure_bound f sha256 repo slug \<longleftrightarrow>
     (\<exists>meta engine. engineHash f sha256 repo = Inr engine \<and>
        fs_readJson f (path_join [repo, OUT_DIR, slug @ js ''.json'']) = Some meta \<and> bound f repo slug meta engine \<and>
        evidenceErrors f repo slug (field meta (js ''evidence'')) = Inr [])"

definition page_bound :: "site_env \<Rightarrow> (jsstr \<Rightarrow> jsstr) \<Rightarrow> jsstr \<Rightarrow> kind list \<Rightarrow> jsstr \<Rightarrow> bool" where
  "page_bound e sha256 repo kinds page \<longleftrightarrow>
     (\<exists>content slugs. fs_readText (se_fs e) page = Some content \<and> kindErrors content kinds = Inr [] \<and>
        figureSlugs content = Inr slugs \<and> (\<forall>slug \<in> set slugs. figure_bound (se_fs e) sha256 repo slug))"

definition site_bound :: "site_env \<Rightarrow> (jsstr \<Rightarrow> jsstr) \<Rightarrow> jsstr \<Rightarrow> site \<Rightarrow> bool" where
  "site_bound e sha256 repo s \<longleftrightarrow>
     (let cwd = fs_cwd (se_fs e); configPath = path_resolve cwd [repo, si_config s]; fl = siteFlavor configPath in
      \<exists>settings kinds pages. source_settings e configPath = Inr settings \<and> source_kinds fl settings = Inr kinds \<and>
        flavor_pages e fl (path_resolve cwd [repo, si_docs s]) (case settings of None \<Rightarrow> [] | Some content \<Rightarrow> content) = Inr pages \<and>
        (\<forall>page \<in> set pages. page_bound e sha256 repo kinds page))"

definition readme_current :: "fs \<Rightarrow> jsstr \<Rightarrow> jsstr \<Rightarrow> bool" where
  "readme_current f repo readme \<longleftrightarrow>
     (let readmePath = path_resolve (fs_cwd f) [repo, readme] in
      \<not> fs_isFile f readmePath \<or>
      (\<exists>content base. fs_readText f readmePath = Some content \<and> relativeBase f repo readmePath = Inr base \<and>
         refreshMarkers f content base (path_join [repo, OUT_DIR]) = (content, [])))"

definition sources_sound :: "site_env \<Rightarrow> (jsstr \<Rightarrow> jsstr) \<Rightarrow> jsstr \<Rightarrow> jsstr option \<Rightarrow> jsstr option \<Rightarrow> jsstr \<Rightarrow> bool" where
  "sources_sound e sha256 repo docs config readme \<longleftrightarrow>
     (let f = se_fs e; specs = stems f (path_join [repo, SPEC_DIR]) (js ''.ts''); metas = stems f (path_join [repo, OUT_DIR]) (js ''.json'') in
      set specs = set metas \<and> (\<forall>slug \<in> set specs. figure_bound f sha256 repo slug) \<and>
      (\<exists>sites. sourceSites (\<lambda>name. fs_isFile f (path_join [repo, name])) docs config = Inr sites \<and>
         (\<forall>s \<in> set sites. site_bound e sha256 repo s)) \<and>
      readme_current f repo readme)"

interpretation page_findings: finding_step "page_step e repo figs kinds" for e repo figs kinds
  by unfold_locales (auto simp: page_step_def Let_def res_simps)

interpretation site_findings: finding_step "pageSourceErrors e repo figs" for e repo figs
  by unfold_locales (auto simp: pageSourceErrors_def Let_def res_simps dest: page_findings.run_adds)

lemma lift_source_Inr_iff [res_simps]: "lift_source r = Inr x \<longleftrightarrow> r = Inr x"
  by (auto simp: lift_source_def split: sum.splits)

lemma page_step_clean:
  assumes "page_step e repo figs kinds page [] = Inr []"
    and "\<And>slug. slug \<in> set (fk_known figs) \<Longrightarrow> figure_bound (se_fs e) sha256 repo slug"
  shows "page_bound e sha256 repo kinds page"
  using assms by (auto simp: page_step_def page_bound_def Let_def res_simps filter_empty_conv)

lemma pageSourceErrors_clean:
  assumes "pageSourceErrors e repo figs s [] = Inr []"
    and known: "\<And>slug. slug \<in> set (fk_known figs) \<Longrightarrow> figure_bound (se_fs e) sha256 repo slug"
  shows "site_bound e sha256 repo s"
proof -
  have "\<forall>page \<in> set pages. page_bound e sha256 repo kinds page"
    if "fold_res (page_step e repo figs kinds) pages [] = Inr []" for kinds pages
    using page_findings.run_clean [OF that] page_step_clean [OF _ known] by blast
  then show ?thesis using assms(1) by (auto simp: pageSourceErrors_def site_bound_def Let_def res_simps)
qed

lemma readme_findings_clean: "readme_findings f repo readme = Inr [] \<Longrightarrow> readme_current f repo readme"
  by (cases "refreshMarkers f (the (fs_readText f (path_resolve (fs_cwd f) [repo, readme])))
        (projr (relativeBase f repo (path_resolve (fs_cwd f) [repo, readme]))) (path_join [repo, OUT_DIR])")
     (auto simp: readme_findings_def readme_current_def Let_def res_simps split: if_splits option.splits)

text \<open>
  C37. Sources without a finding are sound: specifications and rendered figures pair up, every figure is bound to its
  specification, images, engine, markup and evidence, every page of every site of the repository uses only fence kinds its
  configuration enables and names only bound figures, and the README's portable blocks are what the renderer writes.
\<close>

theorem sources_clean:
  assumes "sources e sha256 repo docs config readme = Inr []"
  shows "sources_sound e sha256 repo docs config readme"
proof -
  let ?specs = "stems (se_fs e) (path_join [repo, SPEC_DIR]) (js ''.ts'')"
  from assms obtain figs sites where figs: "figureSourceErrors (se_fs e) sha256 repo = Inr figs"
    and sites: "sourceSites (\<lambda>name. fs_isFile (se_fs e) (path_join [repo, name])) docs config = Inr sites"
    and run: "fold_res (pageSourceErrors e repo figs) sites (fk_errors figs) = Inr []"
    and readme: "readme_findings (se_fs e) repo readme = Inr []"
    by (auto simp: sources_def res_simps)
  note pages = site_findings.run_clean [OF run]
  note facts = figureSourceErrors_bound [OF figs conjunct1 [OF pages]]
  then have known: "figure_bound (se_fs e) sha256 repo slug" if "slug \<in> set (fk_known figs)" for slug
    using that unfolding figure_bound_def by simp
  have "fk_specs figs = ?specs"
    using figs by (auto simp: figureSourceErrors_def Let_def res_simps split: if_splits)
  then have "set ?specs = set (fk_known figs)" "set ?specs = set (stems (se_fs e) (path_join [repo, OUT_DIR]) (js ''.json''))"
    using facts by auto
  moreover have "\<forall>s \<in> set sites. site_bound e sha256 repo s"
    using pages pageSourceErrors_clean [OF _ known] by blast
  ultimately show ?thesis
    using known sites readme_findings_clean [OF readme] by (auto simp: sources_sound_def Let_def)
qed

text \<open>A repository with an Astro site of one page, which shows its one figure.\<close>

definition one_env :: site_env where
  "one_env = \<lparr>se_fs = one_fs, se_readdir = (\<lambda>_. Inr [(js ''a.md'', False)]), se_json = (\<lambda>_. None), se_lower = id, se_kept = (\<lambda>_. True)\<rparr>"

lemma one_fences: "fenceBlocks one_page = Inr [\<lparr>fb_start = 1, fb_end = 4, fb_indent = [], fb_info = js ''figure'', fb_body = [js ''flow'']\<rparr>]"
  by (simp add: one_page_def fenceBlocks_def boundedLines_def drop_cr_def MAX_LINES_def fence_step_def FENCE_LINE_def py_space_def Let_def
      lstrip_def strip_def closes_def block_of_def js_slice_def lower_unit_def)

lemma one_slugs: "figureSlugs one_page = Inr [js ''flow'']"
  using one_fences by (simp add: figureSlugs_def fences_def figureSlug_def strip_def lstrip_def py_space_def)

lemma one_kinds: "kindErrors one_page [Figure] = Inr []"
  using one_fences by (simp add: kindErrors_def)

lemma one_astro: "astroKinds one_page = [Figure]"
  by code_simp

lemma one_pages: "flavor_pages one_env STARLIGHT p c = Inr [path_join [p, js ''a.md'']]"
proof -
  have walk: "parts_loop (se_readdir one_env) p STARLIGHT_SUFFIXES (Suc (Suc n)) 0 [[]] [] = Inr [[js ''a.md'']]" for n
    by (simp add: one_env_def dir_entries_def MAX_ENTRIES_def hasSuffix_def STARLIGHT_SUFFIXES_def js_ends_def)
  have "MAX_ENTRIES = Suc (Suc 131070)" by (simp add: MAX_ENTRIES_def)
  with walk [of 131070] have "parts_loop (se_readdir one_env) p STARLIGHT_SUFFIXES MAX_ENTRIES 0 [[]] [] = Inr [[js ''a.md'']]"
    by (simp only:)
  then show ?thesis
    by (simp add: flavor_pages_def starlightPages_def pagesUnder_def markdownParts_def page_list_step_def MAX_PAGES_def js_starts_def)
qed

lemma one_repository:
  "sources one_env (\<lambda>_. js ''e'') (js ''/r'') (Some (js ''docs'')) (Some (js ''astro.config.mjs'')) (js ''README.md'') = Inr []"
proof -
  let ?config = "path_resolve (js ''/r'') [js ''/r'', js ''astro.config.mjs'']" and ?readme = "path_resolve (js ''/r'') [js ''/r'', js ''README.md'']"
  let ?site = "\<lparr>si_config = js ''astro.config.mjs'', si_docs = js ''docs''\<rparr>"
  let ?figs = "\<lparr>fk_errors = [], fk_known = [js ''flow''], fk_specs = [js ''flow'']\<rparr>"
  have env: "se_fs one_env = one_fs" "fs_cwd one_fs = js ''/r''" "fs_isFile one_fs p" "fs_readText one_fs p = Some one_page" for p
    by (simp_all add: one_env_def one_fs_def empty_fs_def)
  have flavor: "siteFlavor ?config = STARLIGHT" by code_simp
  have base: "relativeBase one_fs (js ''/r'') ?readme = Inr (js ''docs/assets/figures'')" by code_simp
  have fresh: "refreshMarkers one_fs one_page b dir = (one_page, [])" for b dir by code_simp
  have page: "page_step one_env (js ''/r'') ?figs [Figure] p [] = Inr []" for p
    unfolding page_step_def site_read_def env option.case res_bind_simps Let_def one_kinds one_slugs lift_check_simps by simp
  have pages: "pageSourceErrors one_env (js ''/r'') ?figs ?site [] = Inr []"
    unfolding pageSourceErrors_def Let_def source_settings_def source_kinds_def site_read_def env flavor site.simps
    using page by (simp add: env flavor_kinds_def one_astro one_pages)
  have readme: "readme_findings one_fs (js ''/r'') (js ''README.md'') = Inr []"
    unfolding readme_findings_def Let_def env base fresh option.case by simp
  have sites: "sourceSites x (Some (js ''docs'')) (Some (js ''astro.config.mjs'')) = Inr [?site]" for x
    by (simp add: sourceSites_def)
  show ?thesis
    unfolding sources_def env one_figure sites lift_check_simps
    using pages readme by (simp add: lift_source_def)
qed

theorem sources_clean_witness:
  "sources one_env (\<lambda>_. js ''e'') (js ''/r'') (Some (js ''docs'')) (Some (js ''astro.config.mjs'')) (js ''README.md'') = Inr [] \<and>
   sources_sound one_env (\<lambda>_. js ''e'') (js ''/r'') (Some (js ''docs'')) (Some (js ''astro.config.mjs'')) (js ''README.md'')"
  using sources_clean [OF one_repository] one_repository by simp

text \<open>A built Starlight site of one page with one figure, which publishes static SVGs.\<close>

lemma scanPage_markup:
  assumes "quotable m" and "34 \<notin> set base" and "38 \<notin> set base" and "34 \<notin> set link"
  shows "scanPage (markup_with base link m) = \<lparr>sp_mermaid = 0, sp_figures = [figure_entry base m], sp_scripts = []\<rparr>"
proof -
  let ?ps = "section_pieces base link ([], m)"
  have html: "markup_with base link m = concat (map piece_text ?ps)" by (simp add: section_pieces_def markup_pieces)
  have ok: "\<forall>p \<in> set ?ps. piece_ok p" using assms figure_ok description_ok by (fastforce simp: section_pieces_def)
  have "fold play (concat (map (section_pieces base link) [([], m)])) empty_scan =
      empty_scan\<lparr>sc_figures := sc_figures empty_scan @ map (figure_entry base \<circ> snd) [([] :: piece list, m)]\<rparr>"
    by (rule play_sections) (use assms in \<open>auto simp: empty_scan_def MAX_FIGURES_def\<close>)
  then show ?thesis unfolding html scanPage_pieces [OF ok] by (simp add: empty_scan_def)
qed

definition site_html :: jsstr where "site_html = markup_with (js ''i'') (js ''u'') sample_meta"

definition site_svg :: jsstr where "site_svg = SPEC_OPEN @ js ''{}'' @ SPEC_CLOSE"

definition site_files :: fs where
  "site_files = one_fs\<lparr>fs_isDirectory := (\<lambda>p. p = js ''docs''),
     fs_readText := (\<lambda>p. Some (if js_ends p (js ''.html'') then site_html else if js_ends p (js ''.svg'') then site_svg else one_page))\<rparr>"

definition built_env :: site_env where
  "built_env = one_env\<lparr>se_fs := site_files,
     se_json := (\<lambda>_. Some (JObj [(js ''props'', JObj [(js ''layout'', JObj []), (js ''edges'', JArr [])])]))\<rparr>"

lemma built_page:
  assumes "built_site built_env (js ''astro.config.mjs'') (js ''docs'') (js ''site'') None one_page = Inr b"
  shows "pageErrors built_env b (js ''docs/a.md'') [] = Inr ([], 1, [(js ''/r/site/a/i/flow.static.svg'', None), (js ''/r/site/a/i/flow.svg'', None)])"
proof -
  have b: "b = \<lparr>bu_flavor = STARLIGHT, bu_docs = js ''docs'', bu_dir = js ''site'', bu_base = Some (js ''/''), bu_kinds = [Figure], bu_svgOnly = True\<rparr>"
  proof -
    have "siteFlavor (js ''astro.config.mjs'') = STARLIGHT" "clean_path (js ''docs'') = js ''docs''" "clean_path (js ''site'') = js ''site''"
      "basePath [SLASH] = js ''/''" by code_simp+
    moreover have "svgOnlySite built_env (clean_path (js ''astro.config.mjs''))" by code_simp
    ultimately show ?thesis using assms one_astro by (simp add: built_site_def flavor_kinds_def)
  qed
  have read: "site_read built_env (js ''docs/a.md'') = Inr one_page" by code_simp
  have none: "fences one_page (js ''mermaid'') = Inr []" using one_fences by (simp add: fences_def)
  have "frontmatterSlug one_page = Inr None"
    by (simp add: frontmatterSlug_def one_page_def boundedLines_def drop_cr_def MAX_LINES_def strip_def lstrip_def py_space_def Let_def)
  moreover have "js_split SLASH (take (length (js ''a.md'') - length (path_extname (js ''a.md''))) (js ''a.md'')) = [js ''a'']" by code_simp
  moreover have "slug_segment built_env (js ''a'') = js ''a''"
    by (simp add: slug_segment_def built_env_def one_env_def from_code_point_def)
  moreover have "cut_index (js ''a'') = js ''a''" by code_simp
  moreover have "path_relative (fs_cwd (se_fs built_env)) (js ''docs'') (js ''docs/a.md'') = js ''a.md''" by code_simp
  ultimately have "starlightSlug built_env (js ''docs'') (js ''docs/a.md'') one_page = Inr (js ''a'')"
    by (simp add: starlightSlug_def Let_def)
  moreover have "path_parts (js ''a'') = [js ''a'']" "path_join [js ''site'', js ''a'', js ''index.html''] = js ''site/a/index.html''" by code_simp+
  ultimately have out: "flavor_output built_env STARLIGHT (js ''docs'') (js ''site'') (js ''docs/a.md'') one_page = Inr (js ''site/a/index.html'')"
    by (simp add: flavor_output_def starlightOutput_def Let_def)
  have html: "site_read built_env (js ''site/a/index.html'') = Inr site_html" by code_simp
  have scan: "scanPage site_html = \<lparr>sp_mermaid = 0, sp_figures = [figure_entry (js ''i'') sample_meta], sp_scripts = []\<rparr>"
    unfolding site_html_def by (rule scanPage_markup) (simp_all add: quotable_def sample_meta_def SLUG_def slug_unit_def)
  have target: "urlTarget built_env (js ''site/a/index.html'') b (js ''i/flow.static.svg'') = js ''/r/site/a/i/flow.static.svg''"
    "urlTarget built_env (js ''site/a/index.html'') b (js ''i/flow.svg'') = js ''/r/site/a/i/flow.svg''" unfolding b by code_simp+
  have res: "resolves built_env (js ''site/a/index.html'') b (js ''i/flow.static.svg'')"
    "resolves built_env (js ''site/a/index.html'') b (js ''i/flow.svg'')" unfolding b by code_simp+
  have svgs: "site_read built_env (js ''/r/site/a/i/flow.static.svg'') = Inr site_svg" "site_read built_env (js ''/r/site/a/i/flow.svg'') = Inr site_svg"
    by code_simp+
  have props: "svgSpecError (se_json built_env) site_svg = None" by code_simp
  have written: "fs_isFile (se_fs built_env) (js ''site/a/index.html'')" by code_simp
  have urls: "pf_urls (figure_entry (js ''i'') sample_meta) = [js ''i/flow.static.svg'', js ''i/flow.svg'']" "pf_slug (figure_entry (js ''i'') sample_meta) = js ''flow''"
    by code_simp+
  have specs: "specErrors built_env page (js ''site/a/index.html'') b [figure_entry (js ''i'') sample_meta] [] =
      Inr ([], [(js ''/r/site/a/i/flow.static.svg'', None), (js ''/r/site/a/i/flow.svg'', None)])" for page
    unfolding specErrors_def using res target svgs props urls by (simp add: spec_step_def Let_def)
  have "figureErrors built_env page (js ''site/a/index.html'') b [js ''flow''] (scanPage site_html) [] =
      Inr ([], [(js ''/r/site/a/i/flow.static.svg'', None), (js ''/r/site/a/i/flow.svg'', None)])" for page
    using specs [of page] res urls by (simp add: figureErrors_def scan loaderErrors_def b Let_def)
  then show ?thesis
    unfolding pageErrors_def read none one_slugs lift_check_simps res_bind_simps Let_def
    using out html written one_kinds by (simp add: b)
qed

lemma built_check: "checkSite built_env (js ''astro.config.mjs'') (js ''docs'') (js ''site'') None = Inr ([], 1)"
proof -
  have flavor: "siteFlavor (js ''astro.config.mjs'') = STARLIGHT" by code_simp
  obtain b where b: "built_site built_env (js ''astro.config.mjs'') (js ''docs'') (js ''site'') None one_page = Inr b"
    using one_astro flavor by (simp add: built_site_def flavor_kinds_def)
  have pages: "flavor_pages built_env (siteFlavor (js ''astro.config.mjs'')) (clean_path (js ''docs'')) one_page = Inr [js ''docs/a.md'']"
  proof -
    have "flavor_pages built_env STARLIGHT p c = flavor_pages one_env STARLIGHT p c" for p c
      by (simp add: flavor_pages_def starlightPages_def pagesUnder_def markdownParts_def built_env_def)
    moreover have "path_join [clean_path (js ''docs''), js ''a.md''] = js ''docs/a.md''" by code_simp
    ultimately show ?thesis unfolding flavor one_pages by simp
  qed
  have guards: "fs_isDirectory (se_fs built_env) (clean_path (js ''docs''))" "fs_isFile (se_fs built_env) (path_join [clean_path (js ''site''), js ''index.html''])"
    "site_read built_env (clean_path (js ''astro.config.mjs'')) = Inr one_page" by code_simp+
  show ?thesis
    unfolding checkSite_def guards(3) res_bind_simps b pages
    using guards built_page [OF b] by (simp add: site_step_def)
qed

text \<open>The site is sound by the specification too.\<close>

lemma checkSite_exact_witness: "site_sound built_env (js ''astro.config.mjs'') (js ''docs'') (js ''site'') None 1"
  using built_check checkSite_exact by blast

end
