(* ===== verification/FigureBuild.thy ===== *)
theory FigureBuild
  imports FigureSite
begin

text \<open>
  The figure command (\<^verbatim>\<open>src/tools/figures/build.mjs\<close>): the list of specifications, rendering all of
  them, comparing and writing the outputs, the subcommands and the exit status. Loading a specification
  (a dynamic import), the rendering engine and SHA-256 are parameters.
\<close>

definition LIMIT_specs :: nat where "LIMIT_specs = 256"

datatype output_problem = OutputMissing jsstr | OutputStale jsstr | OutputWithoutSpec jsstr

datatype build_error =
    TooManySpecs
  | BadSpecNames "jsstr list"
  | LoadFailed jsstr
  | VendorUnreadable
  | EngineFailed source_error
  | RenderFailed render_error
  | DiskError disk_error
  | SiteFailed site_error
  | CheckFailed check_error
  | UsageError

datatype problem =
    SpecProblem jsstr spec_error
  | OutputProblem output_problem
  | RebuildHint
  | SourceProblem source_finding
  | SiteProblem site_finding
  | PortableProblem jsstr check_error

datatype skip_reason = NO_FIGURES

section \<open>Specifications and outputs\<close>

text \<open>The names in a directory: none when nothing is there, an error when something else is.\<close>

definition names_in :: "disk \<Rightarrow> jsstr \<Rightarrow> (disk_error, jsstr list) res" where
  "names_in d dir =
     (if \<not> existsSync d dir then Inr []
      else throw_if (node_at d dir \<noteq> Some Directory) (NotADirectory (disk_parts d dir)) (Inr (map fst (readdirSync d dir))))"

definition spec_names :: "disk \<Rightarrow> jsstr \<Rightarrow> (disk_error, jsstr list) res" where
  "spec_names d repo =
     res_bind (names_in d (path_join [repo, SPEC_DIR])) (\<lambda>names. Inr (filter (\<lambda>n. js_ends n (js ''.ts'')) names))"

definition lift_io :: "(disk_error, 'a) res \<Rightarrow> (build_error, 'a) res" where
  "lift_io r = (case r of Inl e \<Rightarrow> Inl (DiskError e) | Inr x \<Rightarrow> Inr x)"

definition without_ts :: "jsstr \<Rightarrow> jsstr" where "without_ts n = take (length n - 3) n"

definition listSpecs :: "disk \<Rightarrow> jsstr \<Rightarrow> (build_error, jsstr list) res" where
  "listSpecs d repo =
     res_bind (lift_io (spec_names d repo)) (\<lambda>found.
      let names = sort found; bad = filter (\<lambda>n. \<not> SLUG (without_ts n)) names in
      throw_if (length names > LIMIT_specs) TooManySpecs
      (throw_if (bad \<noteq> []) (BadSpecNames bad) (Inr (map without_ts names))))"

text \<open>\<open>/^[a-z0-9-]+(\.static)?\.svg$|^[a-z0-9-]+\.json$/\<close>.\<close>

definition output_unit :: "nat \<Rightarrow> bool" where
  "output_unit c \<longleftrightarrow> 97 \<le> c \<and> c \<le> 122 \<or> 48 \<le> c \<and> c \<le> 57 \<or> c = 45"

definition stem_before :: "jsstr \<Rightarrow> jsstr \<Rightarrow> bool" where
  "stem_before ext n \<longleftrightarrow>
     js_ends n ext \<and> length ext < length n \<and> list_all output_unit (take (length n - length ext) n)"

definition output_name :: "jsstr \<Rightarrow> bool" where
  "output_name n \<longleftrightarrow> stem_before (js ''.svg'') n \<or> stem_before (js ''.static.svg'') n \<or> stem_before (js ''.json'') n"

definition committedOutputs :: "disk \<Rightarrow> jsstr \<Rightarrow> (disk_error, jsstr list) res" where
  "committedOutputs d dir = res_bind (names_in d dir) (\<lambda>names. Inr (sort (filter output_name names)))"

definition hasFigures :: "disk \<Rightarrow> jsstr \<Rightarrow> (disk_error, bool) res" where
  "hasFigures d repo =
     res_bind (spec_names d repo) (\<lambda>specs.
       if specs \<noteq> [] then Inr True
       else res_bind (committedOutputs d (path_join [repo, OUT_DIR])) (\<lambda>outs. Inr (outs \<noteq> [])))"

text \<open>
  The parts of a run that are not the figure tools' own: loading a specification as its bytes and value, the
  engine, SHA-256, and the vendor record of \<open>vendor.json\<close>.
\<close>

record engine =
  en_load :: "jsstr \<Rightarrow> (jsstr \<times> jsv) option"
  en_toSvg :: "jsv \<Rightarrow> jsstr"
  en_sha256 :: "jsstr \<Rightarrow> jsstr"
  en_vendor :: "vendor option"

type_synonym outputs = "(jsstr \<times> jsstr) list"

record rendered =
  rd_outputs :: outputs
  rd_errors :: "problem list"

definition render_step ::
  "engine \<Rightarrow> render_context \<Rightarrow> jsstr \<Rightarrow> rendered \<Rightarrow> (build_error, rendered) res" where
  "render_step en cx slug acc =
     (case en_load en slug of
        None \<Rightarrow> Inl (LoadFailed slug)
      | Some (bytes, figure) \<Rightarrow>
          (let problems = validate figure in
           if problems \<noteq> [] then Inr (acc\<lparr>rd_errors := rd_errors acc @ map (SpecProblem slug) problems\<rparr>)
           else
             (case render (en_toSvg en) (en_sha256 en) figure slug bytes cx of
                Inl e \<Rightarrow> Inl (RenderFailed e)
              | Inr out \<Rightarrow> Inr (acc\<lparr>rd_outputs := fold (\<lambda>(k, v). set_key k v) out (rd_outputs acc)\<rparr>))))"

definition renderAll :: "engine \<Rightarrow> fs \<Rightarrow> disk \<Rightarrow> jsstr \<Rightarrow> (build_error, jsstr list \<times> rendered) res" where
  "renderAll en f d repo =
     (case en_vendor en of
        None \<Rightarrow> Inl VendorUnreadable
      | Some vendor \<Rightarrow>
          (case engineHash f (en_sha256 en) repo of
             Inl e \<Rightarrow> Inl (EngineFailed e)
           | Inr hash \<Rightarrow>
               res_bind (listSpecs d repo) (\<lambda>slugs.
               res_bind (fold_res (render_step en \<lparr>cx_vendor = vendor, cx_engine = hash\<rparr>) slugs \<lparr>rd_outputs = [], rd_errors = []\<rparr>)
                 (\<lambda>r. Inr (slugs, r)))))"

section \<open>Comparing and writing\<close>

definition compare_step ::
  "disk \<Rightarrow> jsstr \<Rightarrow> jsstr \<times> jsstr \<Rightarrow> output_problem list \<Rightarrow> (disk_error, output_problem list) res" where
  "compare_step d dir out problems =
     (let (name, content) = out; path = path_join [dir, name] in
      if \<not> existsSync d path then Inr (problems @ [OutputMissing name])
      else
        res_bind (readFileSync d path) (\<lambda>committed.
          Inr (if committed = content then problems else problems @ [OutputStale name])))"

definition compareOutputs :: "outputs \<Rightarrow> jsstr \<Rightarrow> disk \<Rightarrow> (disk_error, output_problem list) res" where
  "compareOutputs out dir d =
     res_bind (fold_res (compare_step d dir) out []) (\<lambda>problems.
     res_bind (committedOutputs d dir) (\<lambda>committed.
       Inr (problems @ map OutputWithoutSpec (filter (\<lambda>name. name \<notin> fst ` set out) committed))))"

definition remove_step :: "jsstr \<Rightarrow> jsstr \<Rightarrow> disk \<Rightarrow> (disk_error, disk) res" where
  "remove_step dir name d = rmSync (path_join [dir, name]) d"

definition write_step :: "jsstr \<Rightarrow> jsstr \<times> jsstr \<Rightarrow> disk \<Rightarrow> (disk_error, disk) res" where
  "write_step dir out d = writeFileSync (path_join [dir, fst out]) (snd out) d"

definition writeOutputs :: "outputs \<Rightarrow> jsstr \<Rightarrow> disk \<Rightarrow> (disk_error, disk) res" where
  "writeOutputs out dir d =
     res_bind (mkdirSync dir d) (\<lambda>d1.
     res_bind (committedOutputs d1 dir) (\<lambda>committed.
     res_bind (fold_res (remove_step dir) (filter (\<lambda>name. name \<notin> fst ` set out) committed) d1) (\<lambda>d2.
       fold_res (write_step dir) out d2)))"

section \<open>Subcommands\<close>

text \<open>What a subcommand leaves: its problems and the file tree. The success lines are not kept.\<close>

type_synonym command_result = "(build_error, problem list \<times> disk) res"

definition runBuild :: "engine \<Rightarrow> fs \<Rightarrow> jsstr \<Rightarrow> disk \<Rightarrow> command_result" where
  "runBuild en f repo d =
     res_bind (renderAll en f d repo) (\<lambda>(slugs, r).
       if rd_errors r \<noteq> [] then Inr (rd_errors r, d)
       else res_bind (lift_io (writeOutputs (rd_outputs r) (path_join [repo, OUT_DIR]) d)) (\<lambda>d'. Inr ([], d')))"

definition runCheck :: "engine \<Rightarrow> fs \<Rightarrow> jsstr \<Rightarrow> disk \<Rightarrow> command_result" where
  "runCheck en f repo d =
     res_bind (lift_io (hasFigures d repo)) (\<lambda>figures.
      if \<not> figures then Inr ([], d)
      else
        res_bind (renderAll en f d repo) (\<lambda>(slugs, r).
          if rd_errors r \<noteq> [] then Inr (rd_errors r, d)
          else
            res_bind (lift_io (compareOutputs (rd_outputs r) (path_join [repo, OUT_DIR]) d)) (\<lambda>problems.
              Inr (if problems \<noteq> [] then map OutputProblem problems @ [RebuildHint] else [], d))))"

text \<open>The options \<open>parseArgs\<close> leaves for a subcommand.\<close>

record options =
  op_root :: "jsstr option"
  op_docs :: "jsstr option"
  op_config :: "jsstr option"
  op_readme :: jsstr
  op_site :: "jsstr option"
  op_base :: "jsstr option"
  op_wiki :: bool
  op_write :: bool
  op_files :: "jsstr list"

definition lift_site :: "(site_error, 'a) res \<Rightarrow> (build_error, 'a) res" where
  "lift_site r = (case r of Inl e \<Rightarrow> Inl (SiteFailed e) | Inr x \<Rightarrow> Inr x)"

definition runSources :: "engine \<Rightarrow> site_env \<Rightarrow> options \<Rightarrow> jsstr \<Rightarrow> disk \<Rightarrow> command_result" where
  "runSources en e op repo d =
     (let repository = path_resolve (dk_cwd d) [case op_root op of None \<Rightarrow> repo | Some r \<Rightarrow> r] in
      res_bind (lift_io (hasFigures d repository)) (\<lambda>figs.
      if \<not> figs then Inr ([], d)
      else
        res_bind (lift_site (lift_check
          (sourceSites (\<lambda>name. fs_isFile (se_fs e) (path_join [repository, name])) (op_docs op) (op_config op)))) (\<lambda>_.
        res_bind (lift_site (sources e (en_sha256 en) repository (op_docs op) (op_config op) (op_readme op))) (\<lambda>found.
          Inr (map SourceProblem found, d)))))"

definition given :: "jsstr option \<Rightarrow> bool" where
  "given v \<longleftrightarrow> (case v of None \<Rightarrow> False | Some s \<Rightarrow> s \<noteq> [])"

definition runSite :: "site_env \<Rightarrow> options \<Rightarrow> disk \<Rightarrow> command_result" where
  "runSite e op d =
     throw_if (\<not> given (op_config op) \<or> \<not> given (op_docs op) \<or> \<not> given (op_site op)) UsageError
     (res_bind (lift_site (checkSite e (the (op_config op)) (the (op_docs op)) (the (op_site op)) (op_base op))) (\<lambda>(errors, _).
        Inr (map SiteProblem errors, d)))"

definition portable_modes :: "options \<Rightarrow> nat" where
  "portable_modes op = length (filter id [op_base op \<noteq> None, op_wiki op, op_write op])"

definition lift_checked :: "(check_error, 'a) res \<Rightarrow> (build_error, 'a) res" where
  "lift_checked r = (case r of Inl e \<Rightarrow> Inl (CheckFailed e) | Inr x \<Rightarrow> Inr x)"

definition runPortable :: "fs \<Rightarrow> (jsstr \<Rightarrow> jsstr option) \<Rightarrow> options \<Rightarrow> jsstr \<Rightarrow> disk \<Rightarrow> command_result" where
  "runPortable f env op repo d =
     throw_if (portable_modes op \<noteq> 1 \<or> op_files op = []) UsageError
     (let repository = path_resolve (dk_cwd d) [case op_root op of None \<Rightarrow> repo | Some r \<Rightarrow> r];
          config = (case op_config op of None \<Rightarrow> js ''mkdocs.yml'' | Some c \<Rightarrow> c) in
      res_bind
        (if op_wiki op then
           res_bind (lift_io (readFileSync d (path_resolve (dk_cwd d) [repository, config]))) (\<lambda>content.
           res_bind (lift_checked (siteUrl env content)) (\<lambda>url. Inr (Some url)))
         else Inr (op_base op)) (\<lambda>base.
      res_bind (lift_io (map_res (\<lambda>p. res_bind (readFileSync d p) (\<lambda>content. Inr (p, content))) (op_files op))) (\<lambda>files.
      res_bind (lift_checked (portable f files base repository)) (\<lambda>(errors, writes).
        if errors \<noteq> [] then Inr (map (\<lambda>(p, e). PortableProblem p e) errors, d)
        else res_bind (lift_io (fold_res (\<lambda>(p, content). writeFileSync p content) writes d)) (\<lambda>d'. Inr ([], d'))))))"

text \<open>
  The exit status of the command: 0, 1 with findings, 2 on misuse, on an input a check cannot read, and, through
  the handler of the top-level promise, on any other failure.
\<close>

definition build_status :: "command_result \<Rightarrow> nat" where
  "build_status r = (case r of Inl _ \<Rightarrow> 2 | Inr (problems, _) \<Rightarrow> if problems \<noteq> [] then 1 else 0)"

section \<open>Lemmas: names and nodes\<close>

lemma stem_before_plain: "stem_before ext n \<Longrightarrow> 2 \<le> length ext \<Longrightarrow> SLASH \<notin> set ext \<Longrightarrow> plain_seg n"
proof -
  assume stem: "stem_before ext n" and "2 \<le> length ext" and "SLASH \<notin> set ext"
  then obtain t where n: "n = t @ ext" and t: "t \<noteq> []" "list_all output_unit t"
    by (auto simp: stem_before_def js_ends_iff)
  then have "SLASH \<notin> set n" using \<open>SLASH \<notin> set ext\<close> by (auto simp: list_all_iff output_unit_def)
  moreover from n t \<open>2 \<le> length ext\<close> have "3 \<le> length n" by (cases t) auto
  ultimately show "plain_seg n" by (auto simp: plain_seg_def dot_seg_def dotdot_seg_def)
qed

lemma output_name_plain: "output_name n \<Longrightarrow> plain_seg n"
  unfolding output_name_def by (elim disjE) (erule stem_before_plain, simp, simp)+

lemma readdir_name: "name \<in> fst ` set (readdirSync d p) \<longleftrightarrow> node_of d (disk_parts d p @ [name]) \<noteq> None"
proof
  assume "name \<in> fst ` set (readdirSync d p)"
  then obtain ps where ps: "ps \<noteq> []" "butlast ps = disk_parts d p" "name = last ps" "ps \<in> fst ` set (dk_nodes d)"
    unfolding readdirSync_def by force
  then have "disk_parts d p @ [name] = ps" by (metis append_butlast_last_id)
  moreover have "map_of (dk_nodes d) ps \<noteq> None" using ps(4) map_of_eq_None_iff by metis
  ultimately show "node_of d (disk_parts d p @ [name]) \<noteq> None" by (simp add: node_of_def)
next
  let ?ps = "disk_parts d p @ [name]"
  assume "node_of d ?ps \<noteq> None"
  then have "?ps \<in> fst ` set (dk_nodes d)" by (auto simp: node_of_def map_of_eq_None_iff)
  then have "last ?ps \<in> fst ` set (readdirSync d p)"
    unfolding readdirSync_def by (auto simp: image_image intro!: image_eqI [where x = ?ps])
  then show "name \<in> fst ` set (readdirSync d p)" by simp
qed

lemma readdir_distinct: "distinct (map fst (readdirSync d p))"
  unfolding readdirSync_def by (auto simp: distinct_map comp_def intro!: inj_onI) (metis append_butlast_last_id)

lemma names_in_Inr:
  "names_in d dir = Inr names \<Longrightarrow> node_at d dir = Some Directory \<Longrightarrow>
     name \<in> set names \<longleftrightarrow> node_of d (disk_parts d dir @ [name]) \<noteq> None"
  using readdir_name [of name d dir] by (force simp: names_in_def existsSync_def throw_if_Inr_iff)

section \<open>Lemmas: what writing does\<close>

lemma make_dirs_facts:
  "fold_res make_dir xs d = Inr d' \<Longrightarrow>
     dk_cwd d' = dk_cwd d \<and> (\<forall>qs. node_of d' qs = (if qs \<in> set xs then Some Directory else node_of d qs))"
proof (induction xs arbitrary: d)
  case (Cons x xs)
  then obtain e where one: "make_dir x d = Inr e" and rest: "fold_res make_dir xs e = Inr d'" by (auto simp: res_bind_Inr_iff)
  have "dk_cwd e = dk_cwd d \<and> (\<forall>qs. node_of e qs = (if qs = x then Some Directory else node_of d qs))"
  proof (cases "node_of d x")
    case None
    then have "x \<noteq> []" by (auto simp: node_of_def)
    with one None show ?thesis by (auto simp: make_dir_def node_of_put)
  next
    case (Some n)
    with one show ?thesis by (auto simp: make_dir_def split: node.splits)
  qed
  with Cons.IH [OF rest] show ?case by auto
qed simp

lemma mkdirSync_facts:
  assumes "mkdirSync dir d = Inr d'" and "clean_dir dir"
  shows "dk_cwd d' = dk_cwd d \<and> (\<forall>qs. node_of d' qs = (if prefix qs (path_parts dir) then Some Directory else node_of d qs))"
  using make_dirs_facts [of "prefixes (disk_parts d dir)" d d'] assms by (simp add: mkdirSync_def clean_dir_parts)

lemma remove_facts:
  assumes "clean_dir dir"
  shows "fold_res (remove_step dir) ns d = Inr d' \<Longrightarrow> \<forall>n \<in> set ns. plain_seg n \<Longrightarrow>
     dk_cwd d' = dk_cwd d \<and> (\<forall>qs. node_of d' qs = (if \<exists>n \<in> set ns. qs = path_parts dir @ [n] then None else node_of d qs))"
proof (induction ns arbitrary: d)
  case (Cons n ns)
  then obtain e where one: "remove_step dir n d = Inr e" and rest: "fold_res (remove_step dir) ns e = Inr d'"
    by (auto simp: res_bind_Inr_iff)
  have "e = drop_node (path_parts dir @ [n]) d"
    using one Cons.prems(2) clean_dir_join [OF assms]
    by (auto simp: remove_step_def rmSync_def split: option.splits node.splits)
  then have "dk_cwd e = dk_cwd d \<and> (\<forall>qs. node_of e qs = (if qs = path_parts dir @ [n] then None else node_of d qs))"
    by (simp add: node_of_drop)
  with Cons.IH [OF rest] Cons.prems(2) show ?case by auto
qed simp

lemma write_facts:
  assumes "clean_dir dir" and "fold_res (write_step dir) out d = Inr d'" and "\<forall>n \<in> fst ` set out. plain_seg n"
    and "distinct (map fst out)"
  shows "dk_cwd d' = dk_cwd d \<and> (\<forall>(n, c) \<in> set out. node_of d' (path_parts dir @ [n]) = Some (RegularFile (to_well_formed c))) \<and>
    (\<forall>qs. (\<forall>n \<in> fst ` set out. qs \<noteq> path_parts dir @ [n]) \<longrightarrow> node_of d' qs = node_of d qs)"
  using write_nodes_facts [OF assms(1) _ assms(2-4), of to_well_formed] by (simp add: write_step_def writeFileSync_def)

lemma Inr_res [simp]: "lift_io r = Inr x \<longleftrightarrow> r = Inr x"
  by (auto simp: lift_io_def split: sum.splits)

lemma committed_Inr:
  assumes "committedOutputs d dir = Inr cs" and "node_at d dir = Some Directory"
  shows "c \<in> set cs \<longleftrightarrow> output_name c \<and> node_of d (disk_parts d dir @ [c]) \<noteq> None"
proof -
  from assms(1) obtain names where "names_in d dir = Inr names" "cs = sort (filter output_name names)"
    by (auto simp: committedOutputs_def res_bind_Inr_iff)
  with names_in_Inr [OF this(1) assms(2)] show ?thesis by auto
qed

text \<open>
  The names a run writes: distinct output names. After a write the directory holds exactly them among the
  output names, with their contents; every path that is neither a part of the directory's own path nor an output
  name of the directory is as it was.
\<close>

definition output_names :: "outputs \<Rightarrow> bool" where
  "output_names out \<longleftrightarrow> distinct (map fst out) \<and> (\<forall>n \<in> fst ` set out. output_name n)"

lemma writeOutputs_facts:
  assumes "writeOutputs out dir d = Inr d'" and dir: "clean_dir dir" and out: "output_names out"
  shows "dk_cwd d' = dk_cwd d" and "node_of d' (path_parts dir) = Some Directory"
    and "(n, c) \<in> set out \<Longrightarrow> node_of d' (path_parts dir @ [n]) = Some (RegularFile (to_well_formed c))"
    and "output_name n \<Longrightarrow> n \<notin> fst ` set out \<Longrightarrow> node_of d' (path_parts dir @ [n]) = None"
    and "\<not> prefix qs (path_parts dir) \<Longrightarrow> \<forall>n. output_name n \<longrightarrow> qs \<noteq> path_parts dir @ [n] \<Longrightarrow> node_of d' qs = node_of d qs"
proof -
  let ?P = "path_parts dir"
  from assms(1) obtain d1 cs d2 where mk: "mkdirSync dir d = Inr d1" and cs: "committedOutputs d1 dir = Inr cs"
    and rm: "fold_res (remove_step dir) (filter (\<lambda>n. n \<notin> fst ` set out) cs) d1 = Inr d2"
    and wr: "fold_res (write_step dir) out d2 = Inr d'"
    by (auto simp: writeOutputs_def res_bind_Inr_iff)
  note m = mkdirSync_facts [OF mk dir]
  have at: "node_at d1 dir = Some Directory" using m by (simp add: node_at_def clean_dir_parts [OF dir])
  have cs_iff: "c \<in> set cs \<longleftrightarrow> output_name c \<and> node_of d1 (?P @ [c]) \<noteq> None" for c
    using committed_Inr [OF cs at, of c] by (simp add: clean_dir_parts [OF dir])
  have r: "dk_cwd d2 = dk_cwd d1"
      "\<And>qs. node_of d2 qs = (if \<exists>n \<in> set (filter (\<lambda>n. n \<notin> fst ` set out) cs). qs = ?P @ [n] then None else node_of d1 qs)"
    using remove_facts [OF dir rm] cs_iff output_name_plain by auto
  have "\<forall>n \<in> fst ` set out. plain_seg n" "distinct (map fst out)" using out output_name_plain by (auto simp: output_names_def)
  note w = write_facts [OF dir wr this]
  show "dk_cwd d' = dk_cwd d" using m r w by simp
  have keep: "node_of d' qs = node_of d2 qs" if "\<forall>n \<in> fst ` set out. qs \<noteq> ?P @ [n]" for qs using w that by blast
  show "node_of d' ?P = Some Directory" using keep [of ?P] r(2) [of ?P] m by simp
  show "(n, c) \<in> set out \<Longrightarrow> node_of d' (?P @ [n]) = Some (RegularFile (to_well_formed c))" using w by auto
  show "node_of d' (?P @ [n]) = None" if "output_name n" "n \<notin> fst ` set out"
  proof -
    have "node_of d' (?P @ [n]) = node_of d2 (?P @ [n])" using that by (intro keep) auto
    also have "\<dots> = None" using r(2) [of "?P @ [n]"] cs_iff [of n] that by auto
    finally show ?thesis .
  qed
  show "node_of d' qs = node_of d qs" if "\<not> prefix qs ?P" "\<forall>n. output_name n \<longrightarrow> qs \<noteq> ?P @ [n]"
  proof -
    have "node_of d' qs = node_of d2 qs" using that out by (intro keep) (auto simp: output_names_def)
    also have "\<dots> = node_of d1 qs" using r(2) [of qs] cs_iff that by auto
    finally show ?thesis using m that by simp
  qed
qed

lemma write_then_compare:
  assumes wr: "writeOutputs out dir d = Inr d'" and dir: "clean_dir dir" and out: "output_names out"
    and wf: "\<forall>(n, c) \<in> set out. to_well_formed c = c"
  shows "compareOutputs out dir d' = Inr []" and "\<exists>cs. committedOutputs d' dir = Inr cs"
proof -
  note facts = writeOutputs_facts [OF wr dir out]
  have at: "node_at d' dir = Some Directory" using facts(2) by (simp add: node_at_def clean_dir_parts [OF dir])
  have "compare_step d' dir (n, c) ps = Inr ps" if "(n, c) \<in> set out" for n c ps
  proof -
    have "node_at d' (path_join [dir, n]) = Some (RegularFile c)"
    proof -
      have "n \<in> fst ` set out" using that by force
      then have "plain_seg n" using out output_name_plain by (auto simp: output_names_def)
      then show ?thesis using facts(3) [OF that] that wf clean_dir_join [OF dir, of n d'] by (auto simp: node_at_def)
    qed
    then show ?thesis by (simp add: compare_step_def existsSync_def readFileSync_def)
  qed
  then have "fold_res (compare_step d' dir) xs [] = Inr []" if "set xs \<subseteq> set out" for xs
    using that by (induction xs) auto
  then have fold: "fold_res (compare_step d' dir) out [] = Inr []" by simp
  show ex: "\<exists>cs. committedOutputs d' dir = Inr cs"
    using at by (simp add: committedOutputs_def names_in_def existsSync_def throw_if_def)
  then obtain cs where cs: "committedOutputs d' dir = Inr cs" by blast
  have "n \<in> fst ` set out" if "n \<in> set cs" for n
    using facts(4) [of n] that committed_Inr [OF cs at, of n] by (auto simp only: clean_dir_parts [OF dir])
  then have "filter (\<lambda>n. n \<notin> fst ` set out) cs = []" by (simp add: filter_empty_conv)
  with fold cs show "compareOutputs out dir d' = Inr []" by (simp add: compareOutputs_def)
qed

section \<open>Lemmas: what a run renders\<close>

lemma SLUG_units: "SLUG s \<Longrightarrow> s \<noteq> [] \<and> list_all output_unit s"
proof -
  assume h: "SLUG s"
  have "set (js_join [c] xs) \<subseteq> insert c (\<Union> (set ` set xs))" for c :: nat and xs
    by (induction xs rule: induct_list012) auto
  from this [of 45 "js_split 45 s"] have "\<forall>c \<in> set s. c = 45 \<or> slug_unit c" using h by (auto simp: SLUG_def)
  moreover have "s \<noteq> []" using h by (auto simp: SLUG_def)
  ultimately show ?thesis by (auto simp: slug_unit_def output_unit_def list_all_iff)
qed

lemma stem_before_append: "SLUG s \<Longrightarrow> stem_before ext (s @ ext)"
  using SLUG_units [of s] by (auto simp: stem_before_def js_ends_iff)

lemma output_names_set: "output_names out \<Longrightarrow> output_name k \<Longrightarrow> output_names (set_key k v out)"
proof -
  assume h: "output_names out" "output_name k"
  have keys: "map fst (map (\<lambda>(a, b). (a, if a = k then v else b)) out) = map fst out" by (induction out) auto
  show ?thesis
    using h unfolding output_names_def set_key_def set_map [symmetric]
    by (cases "k \<in> set (map fst out)") (simp_all only: if_True if_False keys, auto)
qed

lemma render_names:
  assumes "render toSvg sha256 figure slug bytes cx = Inr out" and "SLUG slug" and "(k, v) \<in> set out"
  shows "output_name k"
proof -
  have "map fst out = [slug @ js ''.svg'', slug @ js ''.static.svg'', slug @ js ''.json'']"
    using assms(1) unfolding render_def Let_def by (auto simp only: res_bind_Inr_iff sum.inject list.map fst_conv case_prod_beta)
  moreover have "k \<in> set (map fst out)" using assms(3) by force
  ultimately show ?thesis using stem_before_append [OF assms(2)] unfolding output_name_def by fastforce
qed

interpretation rendering: guarded_loop "render_step en cx" SLUG "\<lambda>r. output_names (rd_outputs r)"
proof
  fix slug r r' assume slug: "SLUG slug" and inv: "output_names (rd_outputs r)" and step: "render_step en cx slug r = Inr r'"
  have many: "\<forall>(k, v) \<in> set out. output_name k \<Longrightarrow> output_names os \<Longrightarrow> output_names (fold (\<lambda>(k, v). set_key k v) out os)" for out os
    by (induction out arbitrary: os) (auto simp: output_names_set)
  from step consider "rd_outputs r' = rd_outputs r"
    | bytes figure out where "render (en_toSvg en) (en_sha256 en) figure slug bytes cx = Inr out"
        "rd_outputs r' = fold (\<lambda>(k, v). set_key k v) out (rd_outputs r)"
    by (auto simp: render_step_def Let_def split: option.splits sum.splits if_splits)
  then show "output_names (rd_outputs r')"
  proof cases
    case 2
    with render_names [OF 2(1) slug] inv show ?thesis by (auto intro!: many)
  qed (use inv in simp)
qed

lemma listSpecs_slugs: "listSpecs d repo = Inr slugs \<Longrightarrow> s \<in> set slugs \<Longrightarrow> SLUG s"
  by (auto simp: listSpecs_def res_simps Let_def filter_empty_conv)

lemma renderAll_names: "renderAll en f d repo = Inr (slugs, r) \<Longrightarrow> output_names (rd_outputs r)"
proof -
  assume run: "renderAll en f d repo = Inr (slugs, r)"
  then obtain vendor hash where "listSpecs d repo = Inr slugs"
    and fold: "fold_res (render_step en \<lparr>cx_vendor = vendor, cx_engine = hash\<rparr>) slugs \<lparr>rd_outputs = [], rd_errors = []\<rparr> = Inr r"
    by (auto simp: renderAll_def res_simps split: option.splits sum.splits)
  then show ?thesis using rendering.run_inv [OF _ _ fold] listSpecs_slugs by (force simp: output_names_def)
qed

text \<open>The specifications of two trees that agree on the directory of the specifications.\<close>

lemma same_names:
  assumes "names_in d dir = Inr ns" and "disk_parts d' dir = disk_parts d dir"
    and "node_at d' dir = node_at d dir" and "\<And>n. node_of d' (disk_parts d dir @ [n]) = node_of d (disk_parts d dir @ [n])"
  shows "\<exists>ns'. names_in d' dir = Inr ns' \<and> sort (filter P ns') = sort (filter P ns)"
proof (cases "existsSync d dir")
  case True
  then have dir: "node_at d dir = Some Directory" and ns: "ns = map fst (readdirSync d dir)"
    using assms(1) by (auto simp: names_in_def throw_if_Inr_iff)
  have "set (map fst (readdirSync d' dir)) = set ns"
    unfolding ns set_map using readdir_name [of _ d' dir] readdir_name [of _ d dir] assms(2,4) by (intro set_eqI) simp
  then have "sort (filter P (map fst (readdirSync d' dir))) = sort (filter P ns)"
    by (intro sorted_distinct_set_unique) (auto simp: ns readdir_distinct)
  then show ?thesis using dir assms(3) True by (auto simp: names_in_def throw_if_def existsSync_def)
next
  case False
  then show ?thesis using assms(1,3) by (auto simp: names_in_def existsSync_def)
qed

lemma repo_dirs:
  assumes "clean_dir repo"
  shows "clean_dir (path_join [repo, OUT_DIR])" "path_parts (path_join [repo, OUT_DIR]) = path_parts repo @ [js ''docs'', js ''assets'', js ''figures'']"
    and "clean_dir (path_join [repo, SPEC_DIR])" "path_parts (path_join [repo, SPEC_DIR]) = path_parts repo @ [js ''docs'', js ''figures'']"
proof -
  have parts: "path_parts OUT_DIR = [js ''docs'', js ''assets'', js ''figures'']" "path_parts SPEC_DIR = [js ''docs'', js ''figures'']"
    by (simp_all add: path_parts_def OUT_DIR_def SPEC_DIR_def)
  have plain: "\<forall>s \<in> set (path_parts OUT_DIR). plain_seg s" "\<forall>s \<in> set (path_parts SPEC_DIR). plain_seg s"
    by (simp_all add: parts plain_seg_def dot_seg_def dotdot_seg_def)
  have repo: "is_absolute repo" "\<forall>s \<in> set (path_parts repo). plain_seg s" using assms by (simp_all add: clean_dir_def)
  have ne: "path_parts OUT_DIR \<noteq> []" "path_parts SPEC_DIR \<noteq> []" by (simp_all add: parts)
  note out = join_relative [OF repo ne(1) plain(1)] and spec = join_relative [OF repo ne(2) plain(2)]
  show "path_parts (path_join [repo, OUT_DIR]) = path_parts repo @ [js ''docs'', js ''assets'', js ''figures'']"
    "path_parts (path_join [repo, SPEC_DIR]) = path_parts repo @ [js ''docs'', js ''figures'']"
    using out spec parts by simp_all
  show "clean_dir (path_join [repo, OUT_DIR])" "clean_dir (path_join [repo, SPEC_DIR])"
    using out spec plain repo by (auto simp: clean_dir_def)
qed

lemma specs_kept:
  assumes "clean_dir repo" and "writeOutputs out (path_join [repo, OUT_DIR]) d = Inr d'" and "output_names out"
    and "listSpecs d repo = Inr slugs"
  shows "listSpecs d' repo = Inr slugs" and "\<exists>ns. spec_names d' repo = Inr ns"
proof -
  let ?S = "path_join [repo, SPEC_DIR]"
  note dirs = repo_dirs [OF assms(1)]
  note wr = writeOutputs_facts [OF assms(2) dirs(1) assms(3), unfolded dirs(2)]
  have same: "node_of d' (path_parts ?S @ qs) = node_of d (path_parts ?S @ qs)" if "length qs \<le> 1" for qs
    using that by (intro wr(5)) (auto simp: dirs(4))
  have parts: "disk_parts d' ?S = path_parts ?S" "disk_parts d ?S = path_parts ?S" using dirs(3) clean_dir_parts by blast+
  have at: "node_at d' ?S = node_at d ?S" using same [of "[]"] by (simp add: node_at_def parts)
  have under: "node_of d' (disk_parts d ?S @ [n]) = node_of d (disk_parts d ?S @ [n])" for n
    using same [of "[n]"] by (simp add: parts)
  from assms(4) obtain ns where ns: "names_in d ?S = Inr ns" by (auto simp: listSpecs_def spec_names_def res_simps)
  from same_names [OF ns _ at under, of "\<lambda>n. js_ends n (js ''.ts'')"] obtain ns' where
    ns': "names_in d' ?S = Inr ns'" "sort (filter (\<lambda>n. js_ends n (js ''.ts'')) ns') = sort (filter (\<lambda>n. js_ends n (js ''.ts'')) ns)"
    using parts by auto
  show "\<exists>ns. spec_names d' repo = Inr ns" using ns' by (simp add: spec_names_def)
  show "listSpecs d' repo = Inr slugs"
    using assms(4) by (simp only: listSpecs_def spec_names_def ns ns' lift_io_def sum.case res_bind_simps)
qed

section \<open>Properties\<close>

text \<open>
  C29. A build makes the check pass: after \<open>build\<close> ends without a problem, \<open>check\<close> on the tree it left finds
  none, and the build changed nothing outside the output directory's own path and the figure outputs in it. The
  repository is named by an absolute path and the rendered text is well-formed Unicode.
\<close>

theorem build_then_check:
  assumes repo: "clean_dir repo" and build: "runBuild en f repo d = Inr ([], d')"
    and render: "renderAll en f d repo = Inr (slugs, r)" and wf: "\<forall>(n, c) \<in> set (rd_outputs r). to_well_formed c = c"
  shows "runCheck en f repo d' = Inr ([], d') \<and>
    (\<forall>qs. \<not> prefix qs (path_parts (path_join [repo, OUT_DIR])) \<longrightarrow>
      (\<forall>n. output_name n \<longrightarrow> qs \<noteq> path_parts (path_join [repo, OUT_DIR]) @ [n]) \<longrightarrow> node_of d' qs = node_of d qs)"
proof
  note dirs = repo_dirs [OF repo] and names = renderAll_names [OF render]
  have errors: "rd_errors r = []" and wr: "writeOutputs (rd_outputs r) (path_join [repo, OUT_DIR]) d = Inr d'"
    using build render by (auto simp: runBuild_def res_simps split: if_splits)
  show "\<forall>qs. \<not> prefix qs (path_parts (path_join [repo, OUT_DIR])) \<longrightarrow>
      (\<forall>n. output_name n \<longrightarrow> qs \<noteq> path_parts (path_join [repo, OUT_DIR]) @ [n]) \<longrightarrow> node_of d' qs = node_of d qs"
    using writeOutputs_facts(5) [OF wr dirs(1) names] by blast
  have specs: "listSpecs d repo = Inr slugs" using render by (auto simp: renderAll_def res_simps split: option.splits sum.splits)
  note kept = specs_kept [OF repo wr names specs]
  have again: "renderAll en f d' repo = Inr (slugs, r)"
    using render specs kept(1) by (simp add: renderAll_def split: option.splits sum.splits)
  note cmp = write_then_compare [OF wr dirs(1) names wf]
  obtain has where "hasFigures d' repo = Inr has" using kept(2) cmp(2) by (fastforce simp: hasFigures_def split: if_splits)
  then show "runCheck en f repo d' = Inr ([], d')"
    using again errors cmp(1) by (cases has) (simp_all add: runCheck_def lift_io_def)
qed

text \<open>A tree whose one output has lost its specification: the build removes it.\<close>

definition stale_disk :: disk where
  "stale_disk =
     \<lparr>dk_cwd = js ''/'',
      dk_nodes = [([js ''docs''], Directory), ([js ''docs'', js ''assets''], Directory), ([js ''docs'', js ''assets'', js ''figures''], Directory),
        ([js ''docs'', js ''assets'', js ''figures'', js ''a.svg''], RegularFile (js ''1''))]\<rparr>"

definition plain_engine :: engine where
  "plain_engine = \<lparr>en_load = (\<lambda>_. None), en_toSvg = (\<lambda>_. []), en_sha256 = (\<lambda>_. js ''e''), en_vendor = Some \<lparr>ve_repo = [], ve_commit = [], ve_path = []\<rparr>\<rparr>"

lemma stale_render: "renderAll plain_engine one_fs stale_disk (js ''/'') = Inr ([], \<lparr>rd_outputs = [], rd_errors = []\<rparr>)"
  by (simp add: renderAll_def plain_engine_def engineHash_def filesDigest_def ENGINE_FILES_def one_fs_def listSpecs_def spec_names_def
      names_in_def existsSync_def lift_io_def SPEC_DIR_def stale_disk_def LIMIT_specs_def disk_eval)

lemma stale_build: "runBuild plain_engine one_fs (js ''/'') stale_disk =
    Inr ([], drop_node [js ''docs'', js ''assets'', js ''figures'', js ''a.svg''] stale_disk)"
  unfolding runBuild_def stale_render
  by (simp add: writeOutputs_def mkdirSync_def make_dir_def committedOutputs_def names_in_def existsSync_def OUT_DIR_def
      readdirSync_def js_uniq_def output_name_def stem_before_def js_ends_def output_unit_def remove_step_def rmSync_def lift_io_def
      is_regular_def stale_disk_def disk_eval)

lemma build_then_check_witness:
  "runCheck plain_engine one_fs (js ''/'') (drop_node [js ''docs'', js ''assets'', js ''figures'', js ''a.svg''] stale_disk) =
     Inr ([], drop_node [js ''docs'', js ''assets'', js ''figures'', js ''a.svg''] stale_disk)"
proof -
  have "clean_dir (js ''/'')" by (simp add: clean_dir_def is_absolute_def path_parts_def)
  from build_then_check [OF this stale_build stale_render] show ?thesis by simp
qed

end
