(* ===== verification/FigureCommand.thy ===== *)
theory FigureCommand
  imports FigureBuild
begin

text \<open>
  The command line of the figure command (\<^verbatim>\<open>src/tools/figures/build.mjs\<close>, \<open>COMMANDS\<close>, \<open>parse\<close> and \<open>main\<close>):
  Node's \<open>util.parseArgs\<close> in strict mode for options without short names, the options of each subcommand, and the
  dispatch to it.
\<close>

section \<open>Arguments\<close>

datatype option_type = STRING | FLAG

type_synonym option_specs = "(jsstr \<times> option_type) list"

text \<open>An option with its argument, whether the argument followed an equals sign, or a positional argument.\<close>

datatype arg_token = OptionToken jsstr "jsstr option" bool | ShortToken jsstr | PositionalToken jsstr

definition is_short :: "jsstr \<Rightarrow> bool" where
  "is_short arg \<longleftrightarrow> length arg \<ge> 2 \<and> arg ! 0 = 45 \<and> arg ! 1 \<noteq> 45"

definition is_long :: "jsstr \<Rightarrow> bool" where
  "is_long arg \<longleftrightarrow> length arg > 2 \<and> js_starts arg [45, 45]"

definition has_inline :: "jsstr \<Rightarrow> bool" where
  "has_inline arg \<longleftrightarrow> 61 \<in> set (drop 3 arg)"

fun arg_tokens :: "option_specs \<Rightarrow> jsstr list \<Rightarrow> arg_token list" where
  "arg_tokens specs [] = []"
| "arg_tokens specs (arg # rest) =
     (if arg = [45, 45] then map PositionalToken rest
      else if is_short arg then ShortToken arg # arg_tokens specs rest
      else if is_long arg \<and> \<not> has_inline arg then
        (case rest of
           v # rest' \<Rightarrow>
             if map_of specs (drop 2 arg) = Some STRING then OptionToken (drop 2 arg) (Some v) False # arg_tokens specs rest'
             else OptionToken (drop 2 arg) None False # arg_tokens specs rest
         | [] \<Rightarrow> [OptionToken (drop 2 arg) None False])
      else if is_long arg then
        (let name = takeWhile (\<lambda>c. c \<noteq> 61) arg in
         OptionToken (drop 2 name) (Some (drop (length name + 1) arg)) True # arg_tokens specs rest)
      else PositionalToken arg # arg_tokens specs rest)"

definition option_like :: "jsstr \<Rightarrow> bool" where
  "option_like v \<longleftrightarrow> length v > 1 \<and> js_starts v [45]"

text \<open>No option has a short name or a name of one letter, so a short option is always unknown.\<close>

fun token_ok :: "option_specs \<Rightarrow> bool \<Rightarrow> arg_token \<Rightarrow> bool" where
  "token_ok specs files (PositionalToken arg) \<longleftrightarrow> files"
| "token_ok specs files (ShortToken arg) \<longleftrightarrow> False"
| "token_ok specs files (OptionToken name v joined) \<longleftrightarrow>
     (case map_of specs name of
        None \<Rightarrow> False
      | Some STRING \<Rightarrow> (case v of None \<Rightarrow> False | Some t \<Rightarrow> joined \<or> \<not> option_like t)
      | Some FLAG \<Rightarrow> v = None)"

fun option_values :: "arg_token list \<Rightarrow> (jsstr \<times> jsstr option) list" where
  "option_values [] = []"
| "option_values (OptionToken name v joined # ts) = option_values ts @ [(name, v)]"
| "option_values (t # ts) = option_values ts"

fun positionals :: "arg_token list \<Rightarrow> jsstr list" where
  "positionals [] = []"
| "positionals (PositionalToken arg # ts) = arg # positionals ts"
| "positionals (t # ts) = positionals ts"

text \<open>The values, the last one of a name first, and the positional arguments.\<close>

definition parseArgs :: "option_specs \<Rightarrow> bool \<Rightarrow> jsstr list \<Rightarrow> ((jsstr \<times> jsstr option) list \<times> jsstr list) option" where
  "parseArgs specs files args =
     (let ts = arg_tokens specs args in if list_all (token_ok specs files) ts then Some (option_values ts, positionals ts) else None)"

section \<open>Subcommands\<close>










section \<open>Lemmas: the command line\<close>

fun arg_text :: "jsstr \<times> jsstr option \<Rightarrow> jsstr" where
  "arg_text (name, None) = [45, 45] @ name"
| "arg_text (name, Some v) = [45, 45] @ name @ [61] @ v"

definition declared_option :: "option_specs \<Rightarrow> jsstr \<times> jsstr option \<Rightarrow> bool" where
  "declared_option specs opt \<longleftrightarrow>
     fst opt \<noteq> [] \<and> 61 \<notin> set (fst opt) \<and> map_of specs (fst opt) = Some (if snd opt = None then FLAG else STRING)"

lemma inline_parts:
  assumes "61 \<notin> set (name :: jsstr)"
  shows "takeWhile (\<lambda>c. c \<noteq> 61) (45 # 45 # name @ 61 # v) = 45 # 45 # name"
  using assms by (induction name) auto

lemma arg_tokens_option:
  assumes "declared_option specs opt"
  shows "arg_tokens specs (arg_text opt # rest) = OptionToken (fst opt) (snd opt) (snd opt \<noteq> None) # arg_tokens specs rest"
proof (cases opt)
  case (Pair name v)
  with assms have name: "name \<noteq> []" "61 \<notin> set name" by (auto simp: declared_option_def)
  then obtain c s where c: "name = c # s" by (cases name) auto
  show ?thesis
  proof (cases v)
    case None
    have "is_long (45 # 45 # name)" "\<not> has_inline (45 # 45 # name)" "\<not> is_short (45 # 45 # name)"
      using name c by (auto simp: is_long_def has_inline_def is_short_def js_starts_def)
    then show ?thesis using assms Pair None c by (auto simp: declared_option_def split: list.splits)
  next
    case (Some t)
    have "is_long (45 # 45 # name @ 61 # t)" "has_inline (45 # 45 # name @ 61 # t)" "\<not> is_short (45 # 45 # name @ 61 # t)"
      using c by (auto simp: is_long_def has_inline_def is_short_def js_starts_def)
    then show ?thesis using Pair Some c inline_parts [OF name(2), of t] by (auto simp: Let_def)
  qed
qed

text \<open>Options written with an equals sign, then the files after a bare \<open>--\<close>, are read back as they were.\<close>

lemma parseArgs_roundtrip:
  assumes "\<forall>opt \<in> set opts. declared_option specs opt" and "files = [] \<or> allowed"
  shows "parseArgs specs allowed (map arg_text opts @ [45, 45] # files) = Some (rev opts, files)"
proof -
  have tokens: "arg_tokens specs (map arg_text opts @ [45, 45] # files) =
      map (\<lambda>opt. OptionToken (fst opt) (snd opt) (snd opt \<noteq> None)) opts @ map PositionalToken files"
    using assms(1)
  proof (induction opts)
    case (Cons opt opts)
    then show ?case using arg_tokens_option [of specs opt] by (simp del: arg_tokens.simps)
  qed simp
  have ok: "list_all (token_ok specs allowed) (map (\<lambda>opt. OptionToken (fst opt) (snd opt) (snd opt \<noteq> None)) opts)"
    using assms(1) by (auto simp: list_all_iff declared_option_def split: option.splits)
  have files: "list_all (token_ok specs allowed) (map PositionalToken files)" "option_values (map PositionalToken files) = []"
    "positionals (map PositionalToken files) = files"
    using assms(2) by (induction files) auto
  have "option_values (map (\<lambda>opt. OptionToken (fst opt) (snd opt) (snd opt \<noteq> None)) opts @ map PositionalToken files) = rev opts"
    "positionals (map (\<lambda>opt. OptionToken (fst opt) (snd opt) (snd opt \<noteq> None)) opts @ map PositionalToken files) = files"
    using files(2,3) by (induction opts) auto
  then show ?thesis using ok files(1) unfolding parseArgs_def tokens Let_def by simp
qed

section \<open>Lemmas: what a run writes\<close>

lemma lift_checked_Inr_iff [res_simps]: "lift_checked r = Inr x \<longleftrightarrow> r = Inr x"
  by (auto simp: lift_checked_def split: sum.splits)

lemma lift_site_Inr_iff [res_simps]: "lift_site r = Inr x \<longleftrightarrow> r = Inr x"
  by (auto simp: lift_site_def split: sum.splits)







end
