(* ===== verification/TextEncoding.thy ===== *)
theory TextEncoding
  imports WhatwgURL
begin

text \<open>
  UTF-8 and UTF-16: the strict decoder accepts exactly the encodings of Unicode scalar values, and its result is a
  string without a lone surrogate whose encoding is what was read.
\<close>

definition scalar_value :: "nat \<Rightarrow> bool" where
  "scalar_value n \<longleftrightarrow> n < 0x110000 \<and> \<not> (0xD800 \<le> n \<and> n < 0xE000)"

lemma code_points_plain: "\<not> high_surrogate c \<Longrightarrow> code_points (c # s) = c # code_points s"
  by (cases s) auto

lemma code_points_from:
  assumes n: "scalar_value n"
  shows "code_points (from_code_point n @ s) = n # code_points s"
proof (cases "n < 0x10000")
  case True
  with n have "\<not> high_surrogate n" by (auto simp: scalar_value_def high_surrogate_def)
  with True show ?thesis by (simp add: from_code_point_def code_points_plain)
next
  case False
  define q r where "q = (n - 0x10000) div 0x400" and "r = (n - 0x10000) mod 0x400"
  have "n - 0x10000 < 0x400 * 0x400" using n False unfolding scalar_value_def by linarith
  then have "q < 0x400" unfolding q_def by (rule less_mult_imp_div_less)
  moreover have "r < 0x400" by (simp add: r_def)
  moreover have "n - 0x10000 = q * 0x400 + r" by (simp add: q_def r_def)
  ultimately show ?thesis using False
    by (simp add: from_code_point_def high_surrogate_def low_surrogate_def flip: q_def r_def)
qed

lemma code_points_concat: "list_all scalar_value ps \<Longrightarrow> code_points (concat (map from_code_point ps)) = ps"
  by (induction ps) (simp_all add: code_points_from)

lemma last_digit: "r < 64 \<Longrightarrow> (q * 64 + r) div 64 = q" "r < 64 \<Longrightarrow> (q * 64 + r) mod 64 = r" for q r :: nat
  by simp_all

text \<open>The bytes of a code point, by the number of bytes, from its digits to base 64.\<close>

lemma utf8_point_2:
  assumes "c < 64" "n = b * 64 + c" "2 \<le> b" "b < 32"
  shows "utf8_point n = [0xC0 + b, 0x80 + c]" "scalar_value n"
proof -
  have "n div 64 = b" "n mod 64 = c" using assms by simp_all
  moreover have "0x80 \<le> n" "n < 0x800" using assms by linarith+
  ultimately show "utf8_point n = [0xC0 + b, 0x80 + c]" "scalar_value n" by (simp_all add: utf8_point_def scalar_value_def)
qed

lemma utf8_point_3:
  assumes "c < 64" "d < 64" "n = b * 4096 + c * 64 + d" "b < 16" "0x800 \<le> n"
  shows "utf8_point n = [0xE0 + b, 0x80 + c, 0x80 + d]"
proof -
  have n: "n = (b * 64 + c) * 64 + d" using assms(3) by simp
  have "n div 64 = b * 64 + c" "n mod 64 = d" unfolding n by (rule last_digit [OF assms(2)])+
  moreover from this have "n div 4096 = b" "n div 64 mod 64 = c" using assms(1) div_mult2_eq [of n 64 64] by simp_all
  moreover have "n < 0x10000" using assms by linarith
  ultimately show ?thesis using assms(5) by (simp add: utf8_point_def)
qed

lemma utf8_point_4:
  assumes "c < 64" "d < 64" "e < 64" "n = b * 262144 + c * 4096 + d * 64 + e" "0x10000 \<le> n"
  shows "utf8_point n = [0xF0 + b, 0x80 + c, 0x80 + d, 0x80 + e]"
proof -
  have n: "n = ((b * 64 + c) * 64 + d) * 64 + e" using assms(4) by simp
  have a: "n div 64 = (b * 64 + c) * 64 + d" "n mod 64 = e" unfolding n by (rule last_digit [OF assms(3)])+
  have b: "n div 4096 = b * 64 + c" "n div 64 mod 64 = d"
    using div_mult2_eq [of n 64 64] last_digit [OF assms(2), of "b * 64 + c"] unfolding a(1) [symmetric] by simp_all
  then have "n div 262144 = b" "n div 4096 mod 64 = c" using assms(1) div_mult2_eq [of n 4096 64] by simp_all
  then show ?thesis using a b assms(5) by (simp add: utf8_point_def)
qed

lemma cont_digit: "cont x \<longleftrightarrow> (\<exists>c < 64. x = 0x80 + c)"
proof
  assume "cont x"
  then show "\<exists>c < 64. x = 0x80 + c" by (intro exI [of _ "x - 0x80"]) (auto simp: cont_def)
qed (auto simp: cont_def)

lemma utf8_decode_1: "b < 0x80 \<Longrightarrow> utf8_decode (b # bs) = map_option (\<lambda>s. from_code_point b @ s) (utf8_decode bs)"
  by (simp add: from_code_point_def)

lemma utf8_decode_2:
  "2 \<le> b \<Longrightarrow> b < 32 \<Longrightarrow> c < 64 \<Longrightarrow>
     utf8_decode ((0xC0 + b) # (0x80 + c) # bs) = map_option (\<lambda>s. from_code_point (b * 64 + c) @ s) (utf8_decode bs)"
  by (simp add: cont_def)

lemma utf8_decode_3:
  "b < 16 \<Longrightarrow> c < 64 \<Longrightarrow> d < 64 \<Longrightarrow> n = b * 4096 + c * 64 + d \<Longrightarrow> 0x800 \<le> n \<Longrightarrow> scalar_value n \<Longrightarrow>
     utf8_decode ((0xE0 + b) # (0x80 + c) # (0x80 + d) # bs) = map_option (\<lambda>s. from_code_point n @ s) (utf8_decode bs)"
  by (simp add: cont_def scalar_value_def)

lemma utf8_decode_4:
  "b < 5 \<Longrightarrow> c < 64 \<Longrightarrow> d < 64 \<Longrightarrow> e < 64 \<Longrightarrow> n = b * 262144 + c * 4096 + d * 64 + e \<Longrightarrow> 0x10000 \<le> n \<Longrightarrow> scalar_value n \<Longrightarrow>
     utf8_decode ((0xF0 + b) # (0x80 + c) # (0x80 + d) # (0x80 + e) # bs) = map_option (\<lambda>s. from_code_point n @ s) (utf8_decode bs)"
  by (simp add: cont_def scalar_value_def)

lemma utf8_decode_point:
  assumes "scalar_value n"
  shows "utf8_decode (utf8_point n @ bs) = map_option (\<lambda>s. from_code_point n @ s) (utf8_decode bs)"
proof -
  define b2 b3 b4 where "b2 = n div 64" and "b3 = n div 4096" and "b4 = n div 262144"
  define c d e where "c = n div 4096 mod 64" and "d = n div 64 mod 64" and "e = n mod 64"
  have digits: "c < 64" "d < 64" "e < 64" by (simp_all add: c_def d_def e_def)
  have n2: "n = b2 * 64 + e" by (simp add: b2_def e_def)
  moreover have "b2 = b3 * 64 + d" "b3 = b4 * 64 + c"
    unfolding b2_def b3_def b4_def c_def d_def using div_mult2_eq [of n 64 64] div_mult2_eq [of n 4096 64] by simp_all
  ultimately have n3: "n = b3 * 4096 + d * 64 + e" and n4: "n = b4 * 262144 + c * 4096 + d * 64 + e" by simp_all
  consider "n < 0x80" | "0x80 \<le> n" "n < 0x800" | "0x800 \<le> n" "n < 0x10000" | "0x10000 \<le> n" by linarith
  then show ?thesis
  proof cases
    case 1
    then show ?thesis using utf8_decode_1 [of n bs] by (simp add: utf8_point_def)
  next
    case 2
    then have b: "2 \<le> b2" "b2 < 32" using n2 digits by linarith+
    show ?thesis unfolding utf8_point_2(1) [OF digits(3) n2 b] using utf8_decode_2 [OF b digits(3), of bs] n2 by simp
  next
    case 3
    then have b: "b3 < 16" using n3 digits by linarith
    show ?thesis unfolding utf8_point_3 [OF digits(2,3) n3 b 3(1)] using utf8_decode_3 [OF b digits(2,3) n3 3(1) assms, of bs] by simp
  next
    case 4
    have b: "b4 < 5" using assms n4 digits unfolding scalar_value_def by linarith
    show ?thesis unfolding utf8_point_4 [OF digits n4 4] using utf8_decode_4 [OF b digits n4 4 assms, of bs] by simp
  qed
qed

lemma utf8_decode_points:
  "list_all scalar_value ps \<Longrightarrow> utf8_decode (concat (map utf8_point ps)) = Some (concat (map from_code_point ps))"
  by (induction ps) (simp_all add: utf8_decode_point)

definition decoded :: "nat list \<Rightarrow> jsstr \<Rightarrow> bool" where
  "decoded bs s \<longleftrightarrow> (\<exists>ps. list_all scalar_value ps \<and> bs = concat (map utf8_point ps) \<and> s = concat (map from_code_point ps))"

lemma decoded_Nil: "decoded [] []"
  unfolding decoded_def by (intro exI [of _ "[]"]) simp

lemma decoded_step:
  assumes "scalar_value n" and "utf8_point n = b"
    and rest: "\<And>s. utf8_decode bs = Some s \<Longrightarrow> decoded bs s"
    and "map_option (\<lambda>s. from_code_point n @ s) (utf8_decode bs) = Some s"
  shows "decoded (b @ bs) s"
proof -
  from assms(4) obtain s' where s: "utf8_decode bs = Some s'" "s = from_code_point n @ s'" by auto
  from rest [OF s(1)] obtain ps where "list_all scalar_value ps" "bs = concat (map utf8_point ps)" "s' = concat (map from_code_point ps)"
    by (auto simp: decoded_def)
  then show ?thesis using assms(1,2) s(2) unfolding decoded_def by (intro exI [of _ "n # ps"]) simp
qed

lemma utf8_decode_decoded: "utf8_decode bs = Some s \<Longrightarrow> decoded bs s"
proof (induction bs arbitrary: s rule: length_induct)
  case (1 bs)
  have IH: "length r < length bs \<Longrightarrow> utf8_decode r = Some u \<Longrightarrow> decoded r u" for r u using 1(1) by blast
  show ?case
  proof (cases bs)
    case Nil
    then show ?thesis using 1(2) by (simp add: decoded_Nil)
  next
    case (Cons b r)
    show ?thesis
    proof (cases "b < 0x80")
      case True
      then have "scalar_value b" "utf8_point b = [b]" by (simp_all add: scalar_value_def utf8_point_def)
      from decoded_step [OF this, of r s] IH 1(2) show ?thesis unfolding Cons utf8_decode_1 [OF True] by simp
    next
      case b1: False
      then obtain c cs where r: "r = c # cs" using 1(2) Cons by (cases r) auto
      show ?thesis
      proof (cases "0xC2 \<le> b \<and> b < 0xE0 \<and> cont c")
        case True
        then obtain b' c' where o: "b = 0xC0 + b'" "2 \<le> b'" "b' < 32" "c = 0x80 + c'" "c' < 64"
          using cont_digit [of c] le_iff_add [of "0xC0" b] by auto
        define n where "n = b' * 64 + c'"
        from decoded_step [OF utf8_point_2(2,1) [OF o(5) n_def o(2,3)], of cs s] IH 1(2)
        show ?thesis unfolding Cons r o(1,4) utf8_decode_2 [OF o(2,3,5)] n_def [symmetric] by simp
      next
        case b2: False
        then obtain d ds where cs: "cs = d # ds" using 1(2) b1 Cons r by (cases cs) auto
        let ?n = "(b - 0xE0) * 4096 + (c - 0x80) * 64 + (d - 0x80)"
        show ?thesis
        proof (cases "0xE0 \<le> b \<and> b < 0xF0 \<and> cont c \<and> cont d \<and> 0x800 \<le> ?n \<and> \<not> (0xD800 \<le> ?n \<and> ?n < 0xE000)")
          case True
          then obtain b' c' d' where o: "b = 0xE0 + b'" "b' < 16" "c = 0x80 + c'" "c' < 64" "d = 0x80 + d'" "d' < 64"
            using cont_digit [of c] cont_digit [of d] le_iff_add [of "0xE0" b] by auto
          define n where "n = b' * 4096 + c' * 64 + d'"
          have n: "0x800 \<le> n" "scalar_value n" using True o unfolding n_def scalar_value_def by auto
          from decoded_step [OF n(2) utf8_point_3 [OF o(4,6) n_def o(2) n(1)], of ds s] IH 1(2)
          show ?thesis unfolding Cons r cs o(1,3,5) utf8_decode_3 [OF o(2,4,6) n_def n] by simp
        next
          case b3: False
          then obtain e es where ds: "ds = e # es" using 1(2) b1 b2 Cons r cs by (cases ds) (auto simp: Let_def)
          let ?m = "(b - 0xF0) * 262144 + (c - 0x80) * 4096 + (d - 0x80) * 64 + (e - 0x80)"
          have ok: "0xF0 \<le> b \<and> b < 0xF5 \<and> cont c \<and> cont d \<and> cont e \<and> 0x10000 \<le> ?m \<and> ?m < 0x110000"
            using 1(2) b1 b2 b3 unfolding Cons r cs ds by (auto simp: Let_def split: if_splits)
          then obtain b' c' d' e' where o: "b = 0xF0 + b'" "b' < 5" "c = 0x80 + c'" "c' < 64" "d = 0x80 + d'" "d' < 64" "e = 0x80 + e'" "e' < 64"
            using cont_digit [of c] cont_digit [of d] cont_digit [of e] le_iff_add [of "0xF0" b] by auto
          define n where "n = b' * 262144 + c' * 4096 + d' * 64 + e'"
          have n: "0x10000 \<le> n" "scalar_value n" using ok o unfolding n_def scalar_value_def by auto
          from decoded_step [OF n(2) utf8_point_4 [OF o(4,6,8) n_def n(1)], of es s] IH 1(2)
          show ?thesis unfolding Cons r cs ds o(1,3,5,7) utf8_decode_4 [OF o(2,4,6,8) n_def n] by simp
        qed
      qed
    qed
  qed
qed

theorem utf8_decode_exact: "utf8_decode bs = Some s \<longleftrightarrow> decoded bs s"
proof
  assume "decoded bs s"
  then show "utf8_decode bs = Some s" using utf8_decode_points by (auto simp: decoded_def)
qed (rule utf8_decode_decoded)

lemma length_utf8_point: "length (utf8_point p) = point_bytes p"
  by (simp add: utf8_point_def point_bytes_def)

lemma decoded_text:
  assumes "decoded bs s"
  shows "well_formed s" "byte_length s = length bs" "concat (map utf8_point (code_points s)) = bs"
proof -
  from assms obtain ps where ps: "list_all scalar_value ps" "bs = concat (map utf8_point ps)" "s = concat (map from_code_point ps)"
    by (auto simp: decoded_def)
  then have points: "code_points s = ps" by (simp add: code_points_concat)
  then show "well_formed s"
    using ps(1) by (auto simp: well_formed_def list_all_iff scalar_value_def high_surrogate_def low_surrogate_def)
  show "byte_length s = length bs"
    unfolding byte_length_def points ps(2) by (simp add: length_concat comp_def length_utf8_point)
  show "concat (map utf8_point (code_points s)) = bs" by (simp add: points ps(2))
qed

definition code_units :: "jsstr \<Rightarrow> bool" where "code_units s \<longleftrightarrow> (\<forall>c \<in> set s. c < 0x10000)"

lemma surrogate_pair:
  assumes "high_surrogate c" and "low_surrogate d"
  shows "0x10000 + (c - 0xD800) * 0x400 + (d - 0xDC00) < 0x110000 \<and>
    from_code_point (0x10000 + (c - 0xD800) * 0x400 + (d - 0xDC00)) = [c, d]"
proof -
  obtain q r where q: "c = 0xD800 + q" "q < 0x400" and r: "d = 0xDC00 + r" "r < 0x400"
    using assms le_iff_add [of "0xD800" c] le_iff_add [of "0xDC00" d] by (auto simp: high_surrogate_def low_surrogate_def)
  have "(q * 0x400 + r) div 0x400 = q" "(q * 0x400 + r) mod 0x400 = r" using r(2) by simp_all
  then show ?thesis using q r by (auto simp: from_code_point_def)
qed

lemma units_of_points:
  "code_units s \<Longrightarrow> concat (map from_code_point (code_points s)) = s \<and> (\<forall>p \<in> set (code_points s). p < 0x110000)"
proof (induction s rule: code_points.induct)
  case (3 c d s)
  show ?case
  proof (cases "high_surrogate c \<and> low_surrogate d")
    case True
    with 3(1) 3(3) surrogate_pair [of c d] show ?thesis by (simp add: code_units_def)
  next
    case False
    with 3(2) 3(3) show ?thesis by (auto simp: code_units_def from_code_point_def)
  qed
qed (auto simp: code_units_def from_code_point_def)

lemma decoded_encode:
  assumes "well_formed s" and "code_units s"
  shows "decoded (concat (map utf8_point (code_points s))) s"
proof -
  have "list_all scalar_value (code_points s)"
    using assms(1) units_of_points [OF assms(2)]
    by (force simp: well_formed_def list_all_iff scalar_value_def high_surrogate_def low_surrogate_def)
  then show ?thesis using units_of_points [OF assms(2)] unfolding decoded_def by metis
qed

end
