(* ===== verification/FigureFiles.thy ===== *)
theory FigureFiles
  imports FigureServe FigureSources TextEncoding
begin

text \<open>
  How the figure checks read files (\<^verbatim>\<open>src/tools/figures/checks.mjs\<close>, \<open>quoted\<close> to \<open>readJson\<close>): the status of a path,
  its real path, its bytes under the size bound, its UTF-8 text and its JSON. Every failure is a \<open>CheckError\<close>. The open
  call, \<open>fstat\<close>, the read, \<open>realpath\<close> and \<open>JSON.parse\<close> are parameters.
\<close>

definition MAX_FILE_BYTES :: nat where "MAX_FILE_BYTES = 8 * 1024 * 1024"

text \<open>What an open descriptor gives: its size and its bytes, each possibly an error message.\<close>

record descriptor =
  fd_size :: "jsstr + nat"
  fd_bytes :: "jsstr + nat list"

text \<open>\<open>os_open\<close> fails with a message, \<open>os_realpath\<close> with an error code.\<close>

record file_calls =
  os_disk :: disk
  os_open :: "jsstr \<Rightarrow> jsstr + descriptor"
  os_realpath :: "jsstr \<Rightarrow> jsstr + jsstr"
  os_json :: "jsstr \<Rightarrow> jsv option"

datatype reading_error =
    StatError disk_error
  | CannotResolve jsstr jsstr
  | CannotReadFile jsstr
  | ExceedsBytes jsstr
  | CannotParseJson jsstr
  | NotJsonObject jsstr

definition statOf :: "file_calls \<Rightarrow> jsstr \<Rightarrow> (reading_error, node option) res" where
  "statOf os path = (case statOrNull (os_disk os) path of Inl e \<Rightarrow> Inl (StatError e) | Inr st \<Rightarrow> Inr st)"

definition isFile :: "file_calls \<Rightarrow> jsstr \<Rightarrow> (reading_error, bool) res" where
  "isFile os path = res_bind (statOf os path) (\<lambda>st. Inr (is_regular st))"

definition isDirectory :: "file_calls \<Rightarrow> jsstr \<Rightarrow> (reading_error, bool) res" where
  "isDirectory os path = res_bind (statOf os path) (\<lambda>st. Inr (st = Some Directory))"

definition realOrResolved :: "file_calls \<Rightarrow> jsstr \<Rightarrow> (reading_error, jsstr) res" where
  "realOrResolved os path =
     (let absolute = path_resolve (dk_cwd (os_disk os)) [path] in
      case os_realpath os absolute of
        Inr real_path \<Rightarrow> Inr real_path
      | Inl code \<Rightarrow> if code = js ''ENOENT'' \<or> code = js ''ENOTDIR'' then Inr absolute else Inl (CannotResolve path code))"

definition readBytes :: "file_calls \<Rightarrow> jsstr \<Rightarrow> (reading_error, nat list) res" where
  "readBytes os path =
     (case os_open os path of
        Inl _ \<Rightarrow> Inl (CannotReadFile path)
      | Inr fd \<Rightarrow>
          (case fd_size fd of
             Inl _ \<Rightarrow> Inl (CannotReadFile path)
           | Inr n \<Rightarrow>
               if n > MAX_FILE_BYTES then Inl (ExceedsBytes path)
               else (case fd_bytes fd of Inl _ \<Rightarrow> Inl (CannotReadFile path) | Inr bytes \<Rightarrow> Inr bytes)))"

text \<open>\<open>replaceAll('\r\n', '\n')\<close>.\<close>

fun lf_ends :: "jsstr \<Rightarrow> jsstr" where
  "lf_ends (c # d # s) = (if c = 13 \<and> d = 10 then 10 # lf_ends s else c # lf_ends (d # s))"
| "lf_ends s = s"

definition readText :: "file_calls \<Rightarrow> jsstr \<Rightarrow> (reading_error, jsstr) res" where
  "readText os path =
     res_bind (readBytes os path) (\<lambda>bytes.
       case utf8_decode bytes of None \<Rightarrow> Inl (CannotReadFile path) | Some s \<Rightarrow> Inr (lf_ends s))"

definition readJson :: "file_calls \<Rightarrow> jsstr \<Rightarrow> (reading_error, jsv) res" where
  "readJson os path =
     res_bind (readText os path) (\<lambda>content.
       case os_json os content of
         None \<Rightarrow> Inl (CannotParseJson path)
       | Some data \<Rightarrow> if isObj data then Inr data else Inl (NotJsonObject path))"

text \<open>\<open>quoted\<close>: a value as Python's \<open>repr\<close> writes a string.\<close>

definition quoted :: "jsv \<Rightarrow> jsstr" where
  "quoted v =
     (if nullish v then js ''None''
      else
        (case v of
           JStr s \<Rightarrow>
             (let quote = (if 39 \<in> set s \<and> 34 \<notin> set s then 34 else 39);
                  body = replace_unit 9 (92 # js ''t'') (replace_unit 13 (92 # js ''r'') (replace_unit 10 (92 # js ''n'') (replace_unit 92 [92, 92] s))) in
              [quote] @ (if quote = 39 then replace_unit 39 [92, 39] body else body) @ [quote])
         | _ \<Rightarrow> to_text v))"

section \<open>Lemmas: texts\<close>

lemma lf_ends_other: "c \<noteq> 13 \<or> s = [] \<or> hd s \<noteq> 10 \<Longrightarrow> lf_ends (c # s) = c # lf_ends s"
  by (cases s) auto

lemma lf_ends_point:
  assumes "c \<noteq> 13 \<or> s = [] \<or> hd s \<noteq> 10"
  shows "lf_ends (from_code_point c @ s) = from_code_point c @ lf_ends s"
proof (cases "c < 0x10000")
  case True
  with lf_ends_other [OF assms] show ?thesis by (simp add: from_code_point_def)
next
  case False
  then show ?thesis by (simp add: from_code_point_def lf_ends_other)
qed

lemma lf_ends_points: "lf_ends (concat (map from_code_point ps)) = concat (map from_code_point (lf_ends ps))"
proof (induction ps rule: lf_ends.induct)
  case (1 c d ps)
  show ?case
  proof (cases "c = 13 \<and> d = 10")
    case True
    then show ?thesis using 1(1) by (simp add: from_code_point_def)
  next
    case False
    let ?rest = "from_code_point d @ concat (map from_code_point ps)"
    have "hd ?rest = 10 \<longleftrightarrow> d = 10" by (simp add: from_code_point_def)
    then have "lf_ends (from_code_point c @ ?rest) = from_code_point c @ lf_ends ?rest"
      using False by (intro lf_ends_point) auto
    then show ?thesis using False 1(2) by auto
  qed
qed (simp_all add: lf_ends_point [where s = "[]", simplified])

lemma lf_ends_facts: "set (lf_ends s) \<subseteq> set s" "sum_list (map f (lf_ends s)) \<le> (sum_list (map f s) :: nat)"
  by (induction s rule: lf_ends.induct) auto

lemma lf_ends_decoded:
  assumes "decoded bs s"
  shows "well_formed (lf_ends s) \<and> byte_length (lf_ends s) \<le> length bs"
proof -
  from assms obtain ps where ps: "list_all scalar_value ps" "s = concat (map from_code_point ps)" by (auto simp: decoded_def)
  then have t: "list_all scalar_value (lf_ends ps)" using lf_ends_facts(1) [of ps] by (auto simp: list_all_iff)
  then have "decoded (concat (map utf8_point (lf_ends ps))) (lf_ends s)"
    unfolding decoded_def ps(2) lf_ends_points by blast
  note facts = decoded_text [OF this]
  have "byte_length (lf_ends s) = sum_list (map point_bytes (lf_ends ps))"
    unfolding facts(2) by (simp add: length_concat comp_def length_utf8_point)
  moreover have "length bs = sum_list (map point_bytes ps)"
    using decoded_text(2) [OF assms] ps by (simp add: byte_length_def code_points_concat)
  ultimately show ?thesis using facts(1) lf_ends_facts(2) [of point_bytes ps] by simp
qed

lemma lf_ends_plain: "\<forall>a b. s \<noteq> a @ [13, 10] @ b \<Longrightarrow> lf_ends s = s"
proof (induction s rule: lf_ends.induct)
  case (1 c d s)
  then have "\<not> (c = 13 \<and> d = 10)" by (metis append_Cons append_Nil)
  moreover have "\<forall>a b. d # s \<noteq> a @ [13, 10] @ b" using 1(3) by (metis append_Cons)
  ultimately show ?case using 1(2) by auto
qed simp_all

text \<open>What is written as UTF-8, without a CR LF pair, is read back.\<close>

lemma readText_written:
  assumes "os_open os path = Inr fd" and "fd_size fd = Inr n" and "n \<le> MAX_FILE_BYTES"
    and "fd_bytes fd = Inr (concat (map utf8_point (code_points s)))" and "well_formed s" and "code_units s"
    and "\<forall>a b. s \<noteq> a @ [13, 10] @ b"
  shows "readText os path = Inr s"
  using assms decoded_encode [OF assms(5,6)] lf_ends_plain [OF assms(7)]
  by (simp add: readText_def readBytes_def utf8_decode_exact [symmetric])

section \<open>Properties\<close>

text \<open>
  C39. Reading a text is exact and its result is a well-formed string: a file that opens is read as \<open>t\<close> exactly when its
  size is within the bound and its bytes are the UTF-8 encoding of a string without lone surrogates whose CR LF pairs \<open>t\<close>
  turns into LF; so every text the checks work on is well-formed UTF-16, is no longer than the bytes read, and an ill-formed,
  overlong or truncated sequence is an error and never a replacement character.
\<close>

theorem readText_typed:
  assumes "os_open os path = Inr fd" and "fd_size fd = Inr n" and "fd_bytes fd = Inr bytes"
  shows "(readText os path = Inr t \<longleftrightarrow> n \<le> MAX_FILE_BYTES \<and> (\<exists>s. decoded bytes s \<and> t = lf_ends s)) \<and>
    (readText os path = Inr t \<longrightarrow> well_formed t \<and> byte_length t \<le> length bytes)"
proof -
  have iff: "readText os path = Inr t \<longleftrightarrow> n \<le> MAX_FILE_BYTES \<and> (\<exists>s. decoded bytes s \<and> t = lf_ends s)"
    using assms by (auto simp: readText_def readBytes_def utf8_decode_exact [symmetric] split: option.splits)
  then show ?thesis using lf_ends_decoded by blast
qed

text \<open>A file that holds an accented letter, a CR LF line end and an emoji.\<close>

definition one_text :: file_calls where
  "one_text =
     \<lparr>os_disk = \<lparr>dk_cwd = [47], dk_nodes = []\<rparr>,
      os_open = (\<lambda>_. Inr \<lparr>fd_size = Inr 8, fd_bytes = Inr [0xC3, 0xA9, 13, 10, 0xF0, 0x9F, 0x98, 0x80]\<rparr>),
      os_realpath = Inr, os_json = (\<lambda>_. None)\<rparr>"

theorem readText_typed_witness:
  "readText one_text [97] = Inr [0xE9, 10, 0xD83D, 0xDE00] \<and> well_formed [0xE9, 10, 0xD83D, 0xDE00] \<and> byte_length [0xE9, 10, 0xD83D, 0xDE00] \<le> 8"
proof -
  let ?bytes = "[0xC3, 0xA9, 13, 10, 0xF0, 0x9F, 0x98, 0x80]"
  have read: "readText one_text [97] = Inr [0xE9, 10, 0xD83D, 0xDE00]"
    by (simp add: readText_def readBytes_def one_text_def MAX_FILE_BYTES_def cont_def from_code_point_def)
  have "os_open one_text [97] = Inr \<lparr>fd_size = Inr 8, fd_bytes = Inr ?bytes\<rparr>" by (simp add: one_text_def)
  from readText_typed [OF this, of 8 ?bytes "[0xE9, 10, 0xD83D, 0xDE00]"] read show ?thesis by simp
qed

end
