(* ===== verification/FigurePlayer.thy ===== *)
theory FigurePlayer
  imports FigureCore FigureServe
begin

text \<open>
  The locked figure player (\<^verbatim>\<open>src/tools/figures/astro.mjs\<close>, from \<open>readPlayerLock\<close> to \<open>resolveLockedPlayer\<close>): the lock
  file, the release URL, the bounded download with its redirects, the digest, the tar reader and the
  extraction. The network, \<open>JSON.parse\<close> on the lock, SHA-256, \<open>gunzipSync\<close> and the name \<open>mkdtempSync\<close> chooses are
  parameters. Bytes are natural numbers.
\<close>

type_synonym bytes = "nat list"

definition PLAYER_ARCHIVE :: jsstr where "PLAYER_ARCHIVE = js ''figures-player.tar.gz''"
definition CANONICAL_REPOSITORY :: jsstr where "CANONICAL_REPOSITORY = js ''cordanaLLM/praetor''"
definition TRUSTED_RELEASE_ORIGIN :: jsstr where "TRUSTED_RELEASE_ORIGIN = js ''https://github.com''"

definition TRUSTED_RELEASE_HOSTS :: "jsstr list" where
  "TRUSTED_RELEASE_HOSTS = [js ''github.com'', js ''objects.githubusercontent.com'', js ''release-assets.githubusercontent.com'']"

definition MAX_RELEASE_REDIRECTS :: nat where "MAX_RELEASE_REDIRECTS = 3"

definition EXPECTED_PLAYER_FILES :: "jsstr list" where
  "EXPECTED_PLAYER_FILES = [js ''THIRD-PARTY-LICENSES.txt'', js ''loader.js'', js ''player.js'']"

definition MAX_ARCHIVE_BYTES :: nat where "MAX_ARCHIVE_BYTES = 4 * 1024 * 1024"
definition MAX_PLAYER_FILES :: nat where "MAX_PLAYER_FILES = 8"

text \<open>
  Every error of the component. \<open>check_failure\<close> tells a \<open>CheckError\<close>, which fails the build, from an error of
  the network, which leaves the figures static.
\<close>

datatype player_error =
    StatError disk_error
  | LockTooLarge
  | LockUnreadable
  | LockNotObject
  | UntrustedOrigin
  | BadRepository
  | BadRelease
  | BadAsset
  | ResponseTooLarge
  | NoResponseBody
  | TooManyReads
  | RefusedRedirect
  | RedirectLimit
  | DigestMismatch
  | ArchiveTooLarge
  | GunzipFailed
  | TruncatedTar
  | TooManyMembers
  | MalformedMember jsstr
  | TruncatedMember jsstr
  | UnsafeMember jsstr
  | NotRegularMember jsstr
  | UnexpectedMember jsstr
  | DuplicateMember jsstr
  | MemberTooLarge jsstr
  | MembersDiffer "jsstr list"
  | WriteFailed disk_error
  | HttpStatus nat
  | NetworkFailed

fun check_failure :: "player_error \<Rightarrow> bool" where
  "check_failure (HttpStatus _) = False"
| "check_failure NetworkFailed = False"
| "check_failure _ = True"

section \<open>The release URL\<close>

definition name_unit :: "nat \<Rightarrow> bool" where
  "name_unit c \<longleftrightarrow> is_alpha c \<or> is_dec c \<or> c = 95 \<or> c = 46 \<or> c = 45"

text \<open>\<open>RELEASE_SEGMENT\<close> and \<open>REPOSITORY_SLUG\<close>.\<close>

definition RELEASE_SEGMENT :: "jsstr \<Rightarrow> bool" where
  "RELEASE_SEGMENT s \<longleftrightarrow> s \<noteq> [] \<and> list_all name_unit s"

definition REPOSITORY_SLUG :: "jsstr \<Rightarrow> bool" where
  "REPOSITORY_SLUG s \<longleftrightarrow> (case js_split SLASH s of [a, b] \<Rightarrow> RELEASE_SEGMENT a \<and> RELEASE_SEGMENT b | _ \<Rightarrow> False)"

definition validPathSegment :: "jsstr \<Rightarrow> bool" where
  "validPathSegment s \<longleftrightarrow> RELEASE_SEGMENT s \<and> s \<noteq> dot_seg \<and> s \<noteq> dotdot_seg"

definition strip_slashes :: "jsstr \<Rightarrow> jsstr" where
  "strip_slashes s = rev (dropWhile (\<lambda>c. c = SLASH) (rev (dropWhile (\<lambda>c. c = SLASH) s)))"

definition releaseSlug :: "jsstr \<Rightarrow> (player_error, jsstr) res" where
  "releaseSlug repository =
     (let prefix = TRUSTED_RELEASE_ORIGIN @ [SLASH] in
      if repository = [] \<or> repository = CANONICAL_REPOSITORY then Inr CANONICAL_REPOSITORY
      else if js_starts repository prefix then Inr (strip_slashes (drop (length prefix) repository))
      else throw_if (js_includes repository (js ''://'')) UntrustedOrigin (Inr (strip_slashes repository)))"

text \<open>\<open>String(v ?? "").trim()\<close>.\<close>

definition trimmed :: "jsv \<Rightarrow> jsstr" where
  "trimmed v = js_trim (if nullish v then [] else to_text v)"

definition releaseArchiveUrl :: "jsv \<Rightarrow> jsstr \<Rightarrow> jsstr \<Rightarrow> (player_error, jsstr) res" where
  "releaseArchiveUrl lock release asset =
     res_bind (releaseSlug (trimmed (field lock (js ''repository'')))) (\<lambda>slug.
     throw_if (\<not> REPOSITORY_SLUG slug \<or> list_ex (\<lambda>part. part = dot_seg \<or> part = dotdot_seg) (js_split SLASH slug)) BadRepository
     (throw_if (\<not> validPathSegment release) BadRelease
     (throw_if (\<not> validPathSegment asset) BadAsset
       (Inr (TRUSTED_RELEASE_ORIGIN @ [SLASH] @ slug @ js ''/releases/download/'' @ release @ [SLASH] @ asset)))))"

section \<open>The download\<close>

text \<open>
  A response: its status, the \<open>content-length\<close> as \<open>Number\<close> reads it (\<open>None\<close> when that is not finite), the \<open>location\<close>
  header, and the reads of its body in order (no reader: \<open>None\<close>).
\<close>

datatype body_read = ReadDone | ReadChunk bytes | ReadRejected

record response =
  rs_status :: nat
  rs_length :: "int option"
  rs_location :: "jsstr option"
  rs_body :: "(nat \<Rightarrow> body_read) option"

function read_loop :: "(nat \<Rightarrow> body_read) \<Rightarrow> nat \<Rightarrow> bytes \<Rightarrow> (player_error, bytes) res" where
  "read_loop body step chunks =
     (if step > MAX_ARCHIVE_BYTES then Inl TooManyReads
      else
        (case body step of
           ReadDone \<Rightarrow> Inr chunks
         | ReadRejected \<Rightarrow> Inl NetworkFailed
         | ReadChunk c \<Rightarrow>
             if length (chunks @ c) > MAX_ARCHIVE_BYTES then Inl ResponseTooLarge
             else read_loop body (step + 1) (chunks @ c)))"
  by pat_completeness auto
termination
  by (relation "measure (\<lambda>(body, step, chunks). MAX_ARCHIVE_BYTES + 1 - step)") auto

declare read_loop.simps [simp del]

definition readBoundedResponse :: "response \<Rightarrow> (player_error, bytes) res" where
  "readBoundedResponse r =
     throw_if (case rs_length r of None \<Rightarrow> False | Some n \<Rightarrow> n > int MAX_ARCHIVE_BYTES) ResponseTooLarge
       (case rs_body r of None \<Rightarrow> Inl NoResponseBody | Some body \<Rightarrow> read_loop body 0 [])"

text \<open>
  The host and the path of a location that \<open>/^https:\/\/([^/?#]+)(\/[^?#]*)(?:\?[^#]*)?$/\<close> matches.
\<close>

definition release_location :: "jsstr \<Rightarrow> (jsstr \<times> jsstr) option" where
  "release_location s =
     (if \<not> js_starts s (js ''https://'') then None
      else
        (let rest = drop 8 s; host = takeWhile (\<lambda>c. c \<noteq> SLASH \<and> c \<noteq> 63 \<and> c \<noteq> 35) rest;
             tail = drop (length host) rest; path = takeWhile (\<lambda>c. c \<noteq> 63 \<and> c \<noteq> 35) tail in
         if host \<noteq> [] \<and> js_starts tail [SLASH] \<and> 35 \<notin> set tail then Some (host, path) else None))"

definition unsafe_part :: "jsstr \<Rightarrow> bool" where
  "unsafe_part part \<longleftrightarrow> part = [] \<or> part = dot_seg \<or> part = dotdot_seg \<or> 92 \<in> set part"

definition releaseRedirectUrl :: "jsstr option \<Rightarrow> (player_error, jsstr) res" where
  "releaseRedirectUrl location =
     (let s = (case location of None \<Rightarrow> [] | Some l \<Rightarrow> l) in
      case release_location s of
        None \<Rightarrow> Inl RefusedRedirect
      | Some (host, path) \<Rightarrow>
          throw_if (host \<notin> set TRUSTED_RELEASE_HOSTS \<or> list_ex (\<lambda>c. js_space c \<or> c = 92) s) RefusedRedirect
          (case decodeURIComponent path of
             None \<Rightarrow> Inl RefusedRedirect
           | Some decoded \<Rightarrow> throw_if (list_ex unsafe_part (js_split SLASH (drop 1 decoded))) RefusedRedirect (Inr s)))"

definition redirect_status :: "nat \<Rightarrow> bool" where
  "redirect_status n \<longleftrightarrow> n \<in> {301, 302, 303, 307, 308}"

text \<open>
  \<open>downloadPlayerArchive\<close>, with the URLs it requests in order. \<open>fetch\<close> answers the request of a hop; \<open>None\<close> is a
  rejected request, the abort of the common timeout included.
\<close>

type_synonym fetch = "nat \<Rightarrow> jsstr \<Rightarrow> response option"

function hop_loop :: "fetch \<Rightarrow> nat \<Rightarrow> jsstr \<Rightarrow> jsstr list \<times> (player_error, bytes) res" where
  "hop_loop fetch hop url =
     (if hop > MAX_RELEASE_REDIRECTS then ([], Inl RedirectLimit)
      else
        (case fetch hop url of
           None \<Rightarrow> ([url], Inl NetworkFailed)
         | Some r \<Rightarrow>
             if \<not> redirect_status (rs_status r) then
               ([url], if \<not> (200 \<le> rs_status r \<and> rs_status r \<le> 299) then Inl (HttpStatus (rs_status r)) else readBoundedResponse r)
             else
               (case releaseRedirectUrl (rs_location r) of
                  Inl e \<Rightarrow> ([url], Inl e)
                | Inr target \<Rightarrow>
                    if hop = MAX_RELEASE_REDIRECTS then ([url], Inl RedirectLimit)
                    else (let (urls, result) = hop_loop fetch (hop + 1) target in (url # urls, result)))))"
  by pat_completeness auto
termination
  by (relation "measure (\<lambda>(fetch, hop, url). MAX_RELEASE_REDIRECTS + 1 - hop)") auto

declare hop_loop.simps [simp del]

definition downloadPlayerArchive :: "fetch \<Rightarrow> jsstr \<Rightarrow> jsstr list \<times> (player_error, bytes) res" where
  "downloadPlayerArchive fetch url =
     (if \<not> js_starts url (TRUSTED_RELEASE_ORIGIN @ [SLASH]) then ([], Inl UntrustedOrigin) else hop_loop fetch 0 url)"

definition verifyArchiveSha256 :: "(bytes \<Rightarrow> jsstr) \<Rightarrow> bytes \<Rightarrow> jsstr \<Rightarrow> (player_error, unit) res" where
  "verifyArchiveSha256 sha256 raw expected =
     throw_if (expected = [] \<or> sha256 raw \<noteq> js_lower expected) DigestMismatch (Inr ())"

section \<open>The archive\<close>

text \<open>
  \<open>Buffer.toString("utf8")\<close>: every maximal ill-formed sequence becomes U+FFFD. \<open>need\<close> counts the continuation
  bytes still expected, \<open>lo\<close> and \<open>hi\<close> bound the next one, \<open>acc\<close> is the code point so far.
\<close>

definition lead :: "nat \<Rightarrow> (nat \<times> nat \<times> nat \<times> nat) option" where
  "lead b =
     (if 0xC2 \<le> b \<and> b \<le> 0xDF then Some (1, 0x80, 0xBF, b - 0xC0)
      else if 0xE0 \<le> b \<and> b \<le> 0xEF then
        Some (2, if b = 0xE0 then 0xA0 else 0x80, if b = 0xED then 0x9F else 0xBF, b - 0xE0)
      else if 0xF0 \<le> b \<and> b \<le> 0xF4 then
        Some (3, if b = 0xF0 then 0x90 else 0x80, if b = 0xF4 then 0x8F else 0xBF, b - 0xF0)
      else None)"

fun utf8_lossy :: "(nat \<times> nat \<times> nat \<times> nat) option \<Rightarrow> bytes \<Rightarrow> jsstr" where
  "utf8_lossy None [] = []"
| "utf8_lossy (Some _) [] = [0xFFFD]"
| "utf8_lossy None (b # bs) =
     (if b < 0x80 then b # utf8_lossy None bs
      else (case lead b of None \<Rightarrow> 0xFFFD # utf8_lossy None bs | Some st \<Rightarrow> utf8_lossy (Some st) bs))"
| "utf8_lossy (Some (need, lo, hi, acc)) (b # bs) =
     (if lo \<le> b \<and> b \<le> hi then
        (let point = acc * 64 + (b - 0x80) in
         if need \<le> 1 then from_code_point point @ utf8_lossy None bs
         else utf8_lossy (Some (need - 1, 0x80, 0xBF, point)) bs)
      else
        0xFFFD #
          (if b < 0x80 then b # utf8_lossy None bs
           else (case lead b of None \<Rightarrow> 0xFFFD # utf8_lossy None bs | Some st \<Rightarrow> utf8_lossy (Some st) bs)))"

definition tarString :: "bytes \<Rightarrow> nat \<Rightarrow> nat \<Rightarrow> jsstr" where
  "tarString block start len = utf8_lossy None (takeWhile (\<lambda>b. b \<noteq> 0) (take len (drop start block)))"

text \<open>\<open>Number.parseInt(s, 8)\<close>: leading white space, a sign, the longest run of octal digits; \<open>None\<close> is \<open>NaN\<close>.\<close>

definition octal_digit :: "nat \<Rightarrow> bool" where "octal_digit c \<longleftrightarrow> 48 \<le> c \<and> c \<le> 55"

definition octal_value :: "jsstr \<Rightarrow> nat" where
  "octal_value s = fold (\<lambda>c n. n * 8 + (c - 48)) s 0"

definition parse_octal :: "jsstr \<Rightarrow> int option" where
  "parse_octal s =
     (let t = js_trim_start s; minus = js_starts t [45];
          rest = (if minus \<or> js_starts t [43] then drop 1 t else t); digits = takeWhile octal_digit rest in
      if digits = [] then None else Some (if minus then - int (octal_value digits) else int (octal_value digits)))"

record tar_header =
  th_name :: jsstr
  th_type :: nat
  th_size :: nat

definition parseTarHeader :: "bytes \<Rightarrow> (player_error, tar_header) res" where
  "parseTarHeader header =
     (let prefix = tarString header 345 155; rawName = tarString header 0 100;
          name = (if prefix \<noteq> [] then prefix @ [SLASH] @ rawName else rawName) in
      case parse_octal (js_trim (tarString header 124 12)) of
        None \<Rightarrow> Inl (MalformedMember name)
      | Some n \<Rightarrow>
          throw_if (n < 0) (MalformedMember name) (Inr \<lparr>th_name = name, th_type = header ! 156, th_size = nat n\<rparr>))"

definition isUnsafeMemberName :: "jsstr \<Rightarrow> bool" where
  "isUnsafeMemberName name \<longleftrightarrow> name = [] \<or> name = dot_seg \<or> name = dotdot_seg \<or> SLASH \<in> set name \<or> 92 \<in> set name"

type_synonym members = "(jsstr \<times> bytes) list"

definition validateArchiveMember :: "tar_header \<Rightarrow> members \<Rightarrow> (player_error, unit) res" where
  "validateArchiveMember h seen =
     throw_if (isUnsafeMemberName (th_name h)) (UnsafeMember (th_name h))
     (throw_if (th_type h \<noteq> 0 \<and> th_type h \<noteq> 0x30) (NotRegularMember (th_name h))
     (throw_if (th_name h \<notin> set EXPECTED_PLAYER_FILES) (UnexpectedMember (th_name h))
     (throw_if (th_name h \<in> fst ` set seen) (DuplicateMember (th_name h))
     (throw_if (th_size h > MAX_ARCHIVE_BYTES) (MemberTooLarge (th_name h)) (Inr ())))))"

definition padded :: "nat \<Rightarrow> nat" where "padded n = (n + 511) div 512 * 512"

function tar_loop :: "bytes \<Rightarrow> nat \<Rightarrow> nat \<Rightarrow> members \<Rightarrow> (player_error, members) res" where
  "tar_loop tar index offset extracted =
     (if offset \<ge> length tar then Inr extracted
      else
        (let header = take 512 (drop offset tar) in
         if list_all (\<lambda>b. b = 0) header then Inr extracted
         else if index \<ge> MAX_PLAYER_FILES then Inl TooManyMembers
         else
           (case parseTarHeader header of
              Inl e \<Rightarrow> Inl e
            | Inr h \<Rightarrow>
                if offset + 512 + th_size h > length tar then Inl (TruncatedMember (th_name h))
                else
                  (case validateArchiveMember h extracted of
                     Inl e \<Rightarrow> Inl e
                   | Inr _ \<Rightarrow>
                       tar_loop tar (index + 1) (offset + 512 + padded (th_size h))
                         (extracted @ [(th_name h, take (th_size h) (drop (offset + 512) tar))])))))"
  by pat_completeness auto
termination
  by (relation "measure (\<lambda>(tar, index, offset, extracted). length tar - offset)") auto

declare tar_loop.simps [simp del]

definition readTarMembers :: "bytes \<Rightarrow> (player_error, members) res" where
  "readTarMembers tar = throw_if (tar = [] \<or> length tar mod 512 \<noteq> 0) TruncatedTar (tar_loop tar 0 0 [])"

text \<open>
  What a run keeps: the file tree and the directories of earlier extractions, which live on \<open>globalThis\<close>.
\<close>

record player_state =
  ps_disk :: disk
  ps_dirs :: "jsstr list"

text \<open>\<open>rmSync\<close> with \<open>recursive\<close> and \<open>force\<close>.\<close>

definition rm_tree :: "jsstr \<Rightarrow> disk \<Rightarrow> disk" where
  "rm_tree p d = d\<lparr>dk_nodes := filter (\<lambda>e. \<not> prefix (disk_parts d p) (fst e)) (dk_nodes d)\<rparr>"

definition recordExtractedPlayerDir :: "jsstr \<Rightarrow> player_state \<Rightarrow> player_state" where
  "recordExtractedPlayerDir outDir st =
     st\<lparr>ps_disk := fold rm_tree (ps_dirs st) (ps_disk st), ps_dirs := [outDir]\<rparr>"

definition write_member :: "jsstr \<Rightarrow> jsstr \<times> bytes \<Rightarrow> disk \<Rightarrow> (disk_error, disk) res" where
  "write_member outDir entry d =
     (let p = path_join [outDir, fst entry] in write_node p (disk_parts d p) (snd entry) d)"

text \<open>\<open>outDir\<close> is the directory \<open>mkdtempSync\<close> makes.\<close>

definition extractPlayerArchive ::
  "(nat \<Rightarrow> bytes \<Rightarrow> bytes option) \<Rightarrow> jsstr \<Rightarrow> bytes \<Rightarrow> player_state \<Rightarrow> (player_error, jsstr \<times> player_state) res" where
  "extractPlayerArchive gunzip outDir raw st =
     throw_if (length raw > MAX_ARCHIVE_BYTES) ArchiveTooLarge
     (case gunzip (MAX_ARCHIVE_BYTES * MAX_PLAYER_FILES) raw of
        None \<Rightarrow> Inl GunzipFailed
      | Some tar \<Rightarrow>
          res_bind (readTarMembers tar) (\<lambda>extracted.
          let names = sort (map fst extracted) in
          throw_if (names \<noteq> EXPECTED_PLAYER_FILES) (MembersDiffer names)
          (let made = st\<lparr>ps_disk := put_node (disk_parts (ps_disk st) outDir) Directory (ps_disk st)\<rparr>;
               recorded = recordExtractedPlayerDir outDir made in
           case fold_res (write_member outDir) extracted (ps_disk recorded) of
             Inl e \<Rightarrow> Inl (WriteFailed e)
           | Inr d \<Rightarrow> Inr (outDir, recorded\<lparr>ps_disk := d\<rparr>))))"

section \<open>The lock\<close>

definition readPlayerLock :: "(jsstr \<Rightarrow> jsv option) \<Rightarrow> disk \<Rightarrow> jsstr \<Rightarrow> (player_error, jsv) res" where
  "readPlayerLock json_parse d lockFile =
     (case readFileSync d lockFile of
        Inl _ \<Rightarrow> Inl LockUnreadable
      | Inr content \<Rightarrow>
          throw_if (byte_length content > MAX_ARCHIVE_BYTES) LockTooLarge
          (case json_parse content of
             None \<Rightarrow> Inl LockUnreadable
           | Some data \<Rightarrow> (case data of JObj es \<Rightarrow> Inr data | _ \<Rightarrow> Inl LockNotObject)))"

record player_tools =
  pt_json :: "jsstr \<Rightarrow> jsv option"
  pt_sha256 :: "bytes \<Rightarrow> jsstr"
  pt_gunzip :: "nat \<Rightarrow> bytes \<Rightarrow> bytes option"
  pt_fetch :: fetch
  pt_tmp :: jsstr

text \<open>
  How the player was resolved: no player (a lock that is missing or not released), a failed download, or the
  directory that now holds the player.
\<close>

datatype player = NoPlayer | Fallback player_error | Ready jsstr

definition resolveLockedPlayer ::
  "player_tools \<Rightarrow> jsstr \<Rightarrow> player_state \<Rightarrow> jsstr list \<times> (player_error, player \<times> player_state) res" where
  "resolveLockedPlayer pt lockFile st =
     (case statOrNull (ps_disk st) lockFile of
        Inl e \<Rightarrow> ([], Inl (StatError e))
      | Inr node \<Rightarrow>
          if \<not> is_regular node then ([], Inr (NoPlayer, st))
          else
            (case readPlayerLock (pt_json pt) (ps_disk st) lockFile of
               Inl e \<Rightarrow> ([], Inl e)
             | Inr lock \<Rightarrow>
                 (let release = trimmed (field lock (js ''release''));
                      asset = js_trim (if truthy (field lock (js ''asset'')) then to_text (field lock (js ''asset'')) else PLAYER_ARCHIVE) in
                  if release = [] then ([], Inr (NoPlayer, st))
                  else
                    (case releaseArchiveUrl lock release asset of
                       Inl e \<Rightarrow> ([], Inl e)
                     | Inr url \<Rightarrow>
                         (let (urls, result) = downloadPlayerArchive (pt_fetch pt) url in
                          (urls,
                           case result of
                             Inl e \<Rightarrow> if check_failure e then Inl e else Inr (Fallback e, st)
                           | Inr raw \<Rightarrow>
                               res_bind (verifyArchiveSha256 (pt_sha256 pt) raw (trimmed (field lock (js ''sha256'')))) (\<lambda>_.
                               res_bind (extractPlayerArchive (pt_gunzip pt) (pt_tmp pt) raw st) (\<lambda>(dir, st').
                                 Inr (Ready dir, st')))))))))"

section \<open>Lemmas: the download\<close>

definition on_release_host :: "jsstr \<Rightarrow> bool" where
  "on_release_host url \<longleftrightarrow> (\<exists>host \<in> set TRUSTED_RELEASE_HOSTS. js_starts url (js ''https://'' @ host @ [SLASH]))"

text \<open>A redirect target: a location on a release host whose decoded path has only plain parts.\<close>

definition safe_redirect :: "jsstr \<Rightarrow> bool" where
  "safe_redirect url \<longleftrightarrow> (\<exists>host path decoded. release_location url = Some (host, path) \<and> host \<in> set TRUSTED_RELEASE_HOSTS \<and>
     decodeURIComponent path = Some decoded \<and> (\<forall>part \<in> set (js_split SLASH (drop 1 decoded)). \<not> unsafe_part part))"

lemma release_location_starts:
  assumes "release_location s = Some (host, path)"
  shows "js_starts s (js ''https://'' @ host @ [SLASH])"
proof -
  let ?rest = "drop 8 s"
  have s: "js_starts s (js ''https://'')" and host: "host = takeWhile (\<lambda>c. c \<noteq> SLASH \<and> c \<noteq> 63 \<and> c \<noteq> 35) ?rest"
    and tail: "js_starts (drop (length host) ?rest) [SLASH]"
    using assms by (auto simp: release_location_def Let_def split: if_splits)
  from s obtain r where r: "s = js ''https://'' @ r" unfolding js_starts_iff by blast
  then have rest: "?rest = r" by simp
  obtain t where "drop (length host) r = SLASH # t" using tail rest by (auto simp: js_starts_iff)
  moreover have "take (length host) r = host" unfolding host rest by (simp add: takeWhile_eq_take [symmetric])
  ultimately have "r = host @ SLASH # t" by (metis append_take_drop_id)
  with r show ?thesis by (simp add: js_starts_iff)
qed

lemma releaseRedirectUrl_safe: "releaseRedirectUrl location = Inr url \<Longrightarrow> safe_redirect url \<and> on_release_host url"
  using release_location_starts
  by (fastforce simp: releaseRedirectUrl_def Let_def safe_redirect_def on_release_host_def throw_if_Inr_iff list_ex_iff
      split: option.splits prod.splits)

lemma read_loop_bounded:
  "read_loop body step chunks = Inr raw \<Longrightarrow> length chunks \<le> MAX_ARCHIVE_BYTES \<Longrightarrow> length raw \<le> MAX_ARCHIVE_BYTES"
proof (induction body step chunks rule: read_loop.induct)
  case (1 body step chunks)
  have run: "\<not> MAX_ARCHIVE_BYTES < step"
      "(case body step of ReadDone \<Rightarrow> Inr chunks | ReadRejected \<Rightarrow> Inl NetworkFailed
        | ReadChunk c \<Rightarrow> if length (chunks @ c) > MAX_ARCHIVE_BYTES then Inl ResponseTooLarge else read_loop body (step + 1) (chunks @ c)) = Inr raw"
    using 1(2) unfolding read_loop.simps [of body step chunks] by (auto split: if_splits)
  then show ?case using 1(1,3) by (auto split: body_read.splits if_splits)
qed

lemma hop_loop_facts:
  "hop_loop fetch hop url = (urls, result) \<Longrightarrow> hop \<le> MAX_RELEASE_REDIRECTS \<Longrightarrow>
     (\<exists>rest. urls = url # rest \<and> length urls + hop \<le> Suc MAX_RELEASE_REDIRECTS \<and>
       (\<forall>u \<in> set rest. safe_redirect u \<and> on_release_host u)) \<and>
     (\<forall>raw. result = Inr raw \<longrightarrow> length raw \<le> MAX_ARCHIVE_BYTES)"
proof (induction fetch hop url arbitrary: urls result rule: hop_loop.induct)
  case (1 fetch hop url)
  have resp: "readBoundedResponse r = Inr raw \<Longrightarrow> length raw \<le> MAX_ARCHIVE_BYTES" for r raw
    by (auto simp: readBoundedResponse_def throw_if_Inr_iff split: option.splits dest: read_loop_bounded)
  show ?case
  proof (cases "fetch hop url")
    case None
    with 1(2,3) show ?thesis by (subst (asm) hop_loop.simps) auto
  next
    case (Some r)
    show ?thesis
    proof (cases "redirect_status (rs_status r) \<and> hop < MAX_RELEASE_REDIRECTS \<and> (\<exists>t. releaseRedirectUrl (rs_location r) = Inr t)")
      case True
      then obtain t where t: "releaseRedirectUrl (rs_location r) = Inr t" by blast
      obtain us res where rec: "hop_loop fetch (hop + 1) t = (us, res)" by fastforce
      with 1(2,3) Some True t have "urls = url # us" "result = res" by (subst (asm) hop_loop.simps, simp)+
      moreover have "(\<exists>rest. us = t # rest \<and> length us + (hop + 1) \<le> Suc MAX_RELEASE_REDIRECTS \<and>
          (\<forall>u \<in> set rest. safe_redirect u \<and> on_release_host u)) \<and> (\<forall>raw. res = Inr raw \<longrightarrow> length raw \<le> MAX_ARCHIVE_BYTES)"
        using 1(1) [OF _ Some _ t _ rec] True by simp
      ultimately show ?thesis using releaseRedirectUrl_safe [OF t] by auto
    next
      case False
      with 1(2,3) Some resp have "urls = [url]" "\<forall>raw. result = Inr raw \<longrightarrow> length raw \<le> MAX_ARCHIVE_BYTES"
        by (subst (asm) hop_loop.simps, auto split: if_splits sum.splits)+
      then show ?thesis using 1(3) by simp
    qed
  qed
qed

section \<open>Lemmas: the archive\<close>

text \<open>A writer of player archives: one header block per member with an octal size, the padded data, two zero blocks.\<close>

fun octal_field :: "nat \<Rightarrow> nat \<Rightarrow> bytes" where
  "octal_field 0 n = []"
| "octal_field (Suc k) n = octal_field k (n div 8) @ [48 + n mod 8]"

definition member_header :: "jsstr \<Rightarrow> nat \<Rightarrow> bytes" where
  "member_header name n =
     (name @ replicate (100 - length name) 0) @ replicate 24 0 @ (octal_field 11 n @ [0]) @ replicate 20 0 @ [0x30] @ replicate 355 0"

definition member_entry :: "jsstr \<times> bytes \<Rightarrow> bytes" where
  "member_entry e = member_header (fst e) (length (snd e)) @ snd e @ replicate (padded (length (snd e)) - length (snd e)) 0"

definition tar_of :: "members \<Rightarrow> bytes" where
  "tar_of es = concat (map member_entry es) @ replicate 1024 0"

lemma octal_field_length [simp]: "length (octal_field k n) = k"
  by (induction k arbitrary: n) auto

lemma octal_field_digits: "c \<in> set (octal_field k n) \<Longrightarrow> octal_digit c"
proof (induction k arbitrary: n)
  case (Suc k)
  have "n mod 8 \<le> 7" by (simp add: less_Suc_eq_le [symmetric])
  with Suc show ?case by (auto simp: octal_digit_def)
qed simp

lemma octal_field_value: "octal_value (octal_field k n) = n mod 8 ^ k"
proof (induction k arbitrary: n)
  case (Suc k)
  have "octal_value (octal_field (Suc k) n) = (n div 8 mod 8 ^ k) * 8 + n mod 8"
    using Suc [of "n div 8"] by (simp add: octal_value_def)
  also have "\<dots> = n mod 8 ^ Suc k" by (simp add: mod_mult2_eq)
  finally show ?case .
qed (simp add: octal_value_def)

lemma utf8_lossy_ascii: "\<forall>b \<in> set bs. b < 0x80 \<Longrightarrow> utf8_lossy None bs = bs"
  by (induction bs) auto

lemma tarString_field:
  assumes "length pre = start" and "length xs \<le> len" and "\<forall>b \<in> set xs. b \<noteq> 0 \<and> b < 0x80"
    and "length xs < len \<Longrightarrow> \<exists>r. rest = 0 # r"
  shows "tarString (pre @ xs @ rest) start len = xs"
proof -
  have "takeWhile (\<lambda>b. b \<noteq> 0) (take len (xs @ rest)) = xs"
  proof (cases "length xs < len")
    case True
    with assms(4) obtain r where "rest = 0 # r" by blast
    with True assms(2,3) show ?thesis by (auto simp: takeWhile_append take_Cons' takeWhile_eq_all_conv)
  next
    case False
    with assms(2,3) show ?thesis by (simp add: takeWhile_eq_all_conv)
  qed
  with assms(1,3) show ?thesis by (simp add: tarString_def utf8_lossy_ascii)
qed

definition ascii_name :: "jsstr \<Rightarrow> bool" where
  "ascii_name name \<longleftrightarrow> name \<noteq> [] \<and> length name < 100 \<and> (\<forall>b \<in> set name. b \<noteq> 0 \<and> b < 0x80)"

lemma parse_octal_digits:
  assumes "xs \<noteq> []" and "\<forall>c \<in> set xs. octal_digit c"
  shows "parse_octal (js_trim xs) = Some (int (octal_value xs))"
proof -
  have space: "\<not> js_space c" if "octal_digit c" for c using that by (auto simp: octal_digit_def js_space_def)
  have start: "js_trim_start xs = xs" using assms space by (cases xs) (auto simp: js_trim_start_def)
  have "js_trim_end xs = xs" using assms space by (cases xs rule: rev_cases) (auto simp: js_trim_end_def)
  with start have trim: "js_trim xs = xs" by (simp add: js_trim_def)
  have digits: "takeWhile octal_digit xs = xs" using assms(2) takeWhile_eq_all_conv by blast
  have "\<not> js_starts xs [45] \<and> \<not> js_starts xs [43]"
    using assms by (cases xs) (auto simp: js_starts_iff octal_digit_def)
  then show ?thesis using assms(1) by (simp add: parse_octal_def Let_def trim digits start)
qed

lemma parse_member_header:
  assumes "ascii_name name" and "n < 8 ^ 11"
  shows "parseTarHeader (member_header name n) = Inr \<lparr>th_name = name, th_type = 0x30, th_size = n\<rparr>"
proof -
  let ?h = "member_header name n"
  have len: "length name < 100" using assms(1) by (simp add: ascii_name_def)
  have zeros: "replicate (100 - length name) (0::nat) = 0 # replicate (99 - length name) 0"
  proof -
    have "100 - length name = Suc (99 - length name)" using len by simp
    then show ?thesis by (simp only: replicate_Suc)
  qed
  have raw: "tarString ?h 0 100 = name"
    using tarString_field [of "[]" 0 name 100] assms(1) len
    unfolding member_header_def zeros append_assoc append_Cons by (simp add: ascii_name_def)
  have digits: "\<forall>b \<in> set (octal_field 11 n). b \<noteq> 0 \<and> b < 0x80"
    using octal_field_digits by (fastforce simp: octal_digit_def)
  have size: "tarString ?h 124 12 = octal_field 11 n"
    using tarString_field [of "(name @ replicate (100 - length name) 0) @ replicate 24 0" 124 "octal_field 11 n" 12 "0 # replicate 20 0 @ [0x30] @ replicate 355 0"]
      digits len by (simp add: member_header_def)
  have prefix: "tarString ?h 345 155 = []"
    using len by (simp add: tarString_def member_header_def)
  have "\<not> 156 - length name < 100 - length name" using len by linarith
  then have type: "?h ! 156 = 0x30" using len by (simp add: member_header_def nth_append)
  have "parse_octal (js_trim (octal_field 11 n)) = Some (int n)"
    using parse_octal_digits [of "octal_field 11 n"] octal_field_digits octal_field_length [of 11 n] assms(2)
    by (metis (no_types, lifting) list.size(3) mod_less octal_field_value zero_neq_numeral)
  then show ?thesis by (simp add: parseTarHeader_def raw size prefix type Let_def throw_if_def)
qed

lemma member_header_length [simp]: "length name \<le> 100 \<Longrightarrow> length (member_header name n) = 512"
  by (simp add: member_header_def)

lemma padded_le: "n \<le> padded n" "padded n mod 512 = 0"
  by (simp_all add: padded_def)

lemma member_entry_length:
  "length (fst e) \<le> 100 \<Longrightarrow> length (member_entry e) = 512 + padded (length (snd e))"
  using padded_le(1) [of "length (snd e)"] by (simp add: member_entry_def)

definition player_member :: "jsstr \<times> bytes \<Rightarrow> bool" where
  "player_member e \<longleftrightarrow> fst e \<in> set EXPECTED_PLAYER_FILES \<and> length (snd e) \<le> MAX_ARCHIVE_BYTES"

lemma expected_name: "name \<in> set EXPECTED_PLAYER_FILES \<Longrightarrow> ascii_name name \<and> \<not> isUnsafeMemberName name"
  by (auto simp: EXPECTED_PLAYER_FILES_def ascii_name_def isUnsafeMemberName_def dot_seg_def dotdot_seg_def)

lemma tar_loop_member:
  assumes "offset < length tar" and "\<not> list_all (\<lambda>b. b = 0) (take 512 (drop offset tar))" and "index < MAX_PLAYER_FILES"
    and "parseTarHeader (take 512 (drop offset tar)) = Inr h" and "offset + 512 + th_size h \<le> length tar"
    and "validateArchiveMember h ex = Inr u"
  shows "tar_loop tar index offset ex =
    tar_loop tar (index + 1) (offset + 512 + padded (th_size h)) (ex @ [(th_name h, take (th_size h) (drop (offset + 512) tar))])"
  using assms by (subst tar_loop.simps) simp

lemma tar_loop_entries:
  "\<forall>e \<in> set es. player_member e \<Longrightarrow> distinct (map fst es) \<Longrightarrow> fst ` set es \<inter> fst ` set ex = {} \<Longrightarrow>
     index + length es \<le> MAX_PLAYER_FILES \<Longrightarrow>
     tar_loop (pre @ concat (map member_entry es) @ replicate 1024 0) index (length pre) ex = Inr (ex @ es)"
proof (induction es arbitrary: pre index ex)
  case Nil
  show ?case by (subst tar_loop.simps) (simp add: list_all_iff)
next
  case (Cons e es)
  obtain name data where e: "e = (name, data)" by (cases e)
  let ?n = "length data" and ?tail = "concat (map member_entry es) @ replicate 1024 0"
  let ?pad = "replicate (padded ?n - ?n) 0"
  let ?tar = "pre @ concat (map member_entry (e # es)) @ replicate 1024 0"
  have name: "name \<in> set EXPECTED_PLAYER_FILES" and small: "?n \<le> MAX_ARCHIVE_BYTES" using Cons.prems(1) e by (simp_all add: player_member_def)
  have ascii: "ascii_name name" and safe: "\<not> isUnsafeMemberName name" using expected_name [OF name] by simp_all
  then have len: "length name \<le> 100" by (simp add: ascii_name_def)
  have tar: "?tar = pre @ member_header name ?n @ data @ ?pad @ ?tail" by (simp add: e member_entry_def)
  have header: "take 512 (drop (length pre) ?tar) = member_header name ?n" using len unfolding tar by simp
  have bytes: "take ?n (drop (length pre + 512) ?tar) = data" using len unfolding tar by simp
  have long: "\<not> length ?tar < length pre + 512 + ?n" "\<not> length ?tar \<le> length pre" using len unfolding tar by simp_all
  have nonzero: "\<not> list_all (\<lambda>b. b = 0) (member_header name ?n)"
    using ascii by (cases name) (auto simp: ascii_name_def member_header_def)
  have "?n < 8 ^ 11" using small by (simp add: MAX_ARCHIVE_BYTES_def)
  note parse = parse_member_header [OF ascii this]
  have valid: "validateArchiveMember \<lparr>th_name = name, th_type = 0x30, th_size = ?n\<rparr> ex = Inr ()"
    using name safe small Cons.prems(3) e by (auto simp: validateArchiveMember_def throw_if_def)
  have "tar_loop ?tar index (length pre) ex = tar_loop ?tar (index + 1) (length pre + 512 + padded ?n) (ex @ [(name, data)])"
  proof -
    note step = tar_loop_member [of "length pre" ?tar index "\<lparr>th_name = name, th_type = 0x30, th_size = ?n\<rparr>" ex "()", unfolded header tar_header.simps bytes]
    show ?thesis by (rule step) (use long nonzero Cons.prems(4) parse valid in simp_all)
  qed
  also have "\<dots> = Inr ((ex @ [(name, data)]) @ es)"
  proof -
    let ?pre = "pre @ member_entry e"
    have "?tar = ?pre @ ?tail" "length pre + 512 + padded ?n = length ?pre" using len member_entry_length [of e] e by simp_all
    moreover have "tar_loop (?pre @ ?tail) (index + 1) (length ?pre) (ex @ [(name, data)]) = Inr ((ex @ [(name, data)]) @ es)"
      using Cons.prems e by (intro Cons.IH) auto
    ultimately show ?thesis by (simp only:)
  qed
  finally show ?case using e by simp
qed

lemma read_tar_of:
  assumes "\<forall>e \<in> set es. player_member e" and "distinct (map fst es)"
  shows "readTarMembers (tar_of es) = Inr es"
proof -
  have names: "set (map fst es) \<subseteq> set EXPECTED_PLAYER_FILES" using assms(1) by (auto simp: player_member_def)
  have "length es = card (set (map fst es))" using distinct_card [OF assms(2)] by simp
  also have "\<dots> \<le> card (set EXPECTED_PLAYER_FILES)" using names by (intro card_mono) auto
  also have "\<dots> \<le> length EXPECTED_PLAYER_FILES" by (rule card_length)
  finally have short: "0 + length es \<le> MAX_PLAYER_FILES" by (simp add: EXPECTED_PLAYER_FILES_def MAX_PLAYER_FILES_def)
  have "length (concat (map member_entry xs)) mod 512 = 0" if "set xs \<subseteq> set es" for xs
    using that assms(1) expected_name
  proof (induction xs)
    case (Cons x xs)
    then have "length (fst x) \<le> 100" by (auto simp: player_member_def ascii_name_def dest: less_imp_le)
    with Cons show ?case using padded_le(2) [of "length (snd x)"] by (simp add: member_entry_length mod_add_eq [symmetric])
  qed simp
  then have "length (tar_of es) mod 512 = 0" by (simp add: tar_of_def mod_add_left_eq [symmetric])
  moreover have "tar_of es \<noteq> []" by (simp add: tar_of_def)
  ultimately show ?thesis
    using tar_loop_entries [OF assms, of "[]" 0 "[]"] short by (simp add: readTarMembers_def throw_if_def tar_of_def)
qed

section \<open>Lemmas: the extraction\<close>

lemma node_of_rm_tree:
  assumes "disk_parts d p \<noteq> []"
  shows "node_of (rm_tree p d) qs = (if prefix (disk_parts d p) qs then None else node_of d qs)"
proof -
  have "map_of (filter (\<lambda>e. \<not> prefix k (fst e)) xs) qs = (if prefix k qs then None else map_of xs qs)"
    for k and xs :: "(jsstr list \<times> node) list"
    by (induction xs) auto
  with assms show ?thesis by (auto simp: node_of_def rm_tree_def)
qed

lemma rm_tree_cwd [simp]: "dk_cwd (rm_tree p d) = dk_cwd d"
  by (simp add: rm_tree_def)

lemma rm_trees_keep:
  "\<forall>p \<in> set ps. \<not> prefix (disk_parts d p) qs \<and> disk_parts d p \<noteq> [] \<Longrightarrow>
     node_of (fold rm_tree ps d) qs = node_of d qs \<and> dk_cwd (fold rm_tree ps d) = dk_cwd d"
proof (induction ps arbitrary: d)
  case (Cons p ps)
  have "disk_parts (rm_tree p d) x = disk_parts d x" for x by (rule disk_parts_cwd) simp
  with Cons.prems Cons.IH [of "rm_tree p d"] show ?case by (simp add: node_of_rm_tree)
qed simp

lemma readTarMembers_expected: "n \<in> set EXPECTED_PLAYER_FILES \<Longrightarrow> plain_seg n"
  using expected_name by (auto simp: plain_seg_def isUnsafeMemberName_def)

lemma case_sum_Inr_iff: "(case r of Inl e \<Rightarrow> Inl (f e) | Inr x \<Rightarrow> Inr (g x)) = Inr y \<longleftrightarrow> (\<exists>x. r = Inr x \<and> y = g x)"
  by (cases r) auto

lemma extracted_files:
  assumes run: "extractPlayerArchive gunzip outDir raw st = Inr (dir, st')" and dir: "clean_dir outDir" "path_parts outDir \<noteq> []"
    and fresh: "\<forall>p \<in> set (ps_dirs st). \<not> prefix (disk_parts (ps_disk st) p) (path_parts outDir) \<and>
      \<not> prefix (path_parts outDir) (disk_parts (ps_disk st) p)"
    and empty: "\<forall>n. node_of (ps_disk st) (path_parts outDir @ [n]) = None"
  shows "dir = outDir" and "ps_dirs st' = [outDir]" and "node_at (ps_disk st') outDir = Some Directory"
    and "\<exists>tar members. gunzip (MAX_ARCHIVE_BYTES * MAX_PLAYER_FILES) raw = Some tar \<and> readTarMembers tar = Inr members \<and>
      sort (map fst members) = EXPECTED_PLAYER_FILES \<and>
      (\<forall>n. node_of (ps_disk st') (path_parts outDir @ [n]) = map_option RegularFile (map_of members n))"
proof -
  let ?P = "path_parts outDir"
  define made where "made = st\<lparr>ps_disk := put_node ?P Directory (ps_disk st)\<rparr>"
  define recorded where "recorded = recordExtractedPlayerDir outDir made"
  obtain tar members d where tar: "gunzip (MAX_ARCHIVE_BYTES * MAX_PLAYER_FILES) raw = Some tar" and members: "readTarMembers tar = Inr members"
    and names: "sort (map fst members) = EXPECTED_PLAYER_FILES"
    and wr: "fold_res (write_member outDir) members (ps_disk recorded) = Inr d"
    and res: "dir = outDir" "st' = recorded\<lparr>ps_disk := d\<rparr>"
    using run unfolding extractPlayerArchive_def clean_dir_parts [OF dir(1)] made_def [symmetric] recorded_def [symmetric]
    by (auto simp: res_simps Let_def made_def [symmetric] recorded_def [symmetric] case_sum_Inr_iff split: option.split_asm)
  show "dir = outDir" "ps_dirs st' = [outDir]" using res by (simp_all add: recorded_def recordExtractedPlayerDir_def)
  have set: "set (map fst members) = set EXPECTED_PLAYER_FILES" using names by (metis set_sort)
  have "distinct (sort (map fst members))" unfolding names by (simp add: EXPECTED_PLAYER_FILES_def)
  then have dist: "distinct (map fst members)" by simp
  have plain: "\<forall>n \<in> fst ` set members. plain_seg n" using set readTarMembers_expected by auto
  have step: "write_member outDir x d = write_node (path_join [outDir, fst x]) (disk_parts d (path_join [outDir, fst x])) (id (snd x)) d" for x d
    by (simp add: write_member_def Let_def)
  note w = write_nodes_facts [OF dir(1) step wr plain dist]
  have cwd: "disk_parts (put_node ?P Directory (ps_disk st)) p = disk_parts (ps_disk st) p" for p by (rule disk_parts_cwd) simp
  have kept: "node_of (ps_disk recorded) qs = node_of (put_node ?P Directory (ps_disk st)) qs" if "prefix qs (?P @ [n])" "prefix ?P qs" for qs n
  proof -
    have "\<forall>p \<in> set (ps_dirs st). \<not> prefix (disk_parts (ps_disk st) p) qs \<and> disk_parts (ps_disk st) p \<noteq> []"
      using fresh that by (auto simp: prefix_append dest: prefix_same_cases)
    then show ?thesis using rm_trees_keep [of "ps_dirs st" "put_node ?P Directory (ps_disk st)" qs]
      by (simp add: recorded_def recordExtractedPlayerDir_def made_def cwd)
  qed
  show "node_at (ps_disk st') outDir = Some Directory"
    using w kept [of ?P] res dir(2) by (simp add: node_at_def clean_dir_parts [OF dir(1)] node_of_put)
  have "node_of (ps_disk st') (?P @ [n]) = map_option RegularFile (map_of members n)" for n
  proof (cases "map_of members n")
    case None
    then have "\<forall>m \<in> fst ` set members. ?P @ [n] \<noteq> ?P @ [m]" by (auto simp: map_of_eq_None_iff)
    with w have "node_of d (?P @ [n]) = node_of (ps_disk recorded) (?P @ [n])" by blast
    with None kept [of "?P @ [n]" n] empty dir(2) res show ?thesis by (simp add: node_of_put)
  next
    case (Some c)
    then have "(n, c) \<in> set members" by (rule map_of_SomeD)
    with w Some res show ?thesis by auto
  qed
  with tar members names show "\<exists>tar members. gunzip (MAX_ARCHIVE_BYTES * MAX_PLAYER_FILES) raw = Some tar \<and> readTarMembers tar = Inr members \<and>
      sort (map fst members) = EXPECTED_PLAYER_FILES \<and>
      (\<forall>n. node_of (ps_disk st') (?P @ [n]) = map_option RegularFile (map_of members n))"
    by blast
qed

lemma resolve_ready:
  assumes "resolveLockedPlayer pt lockFile st = (urls, Inr (Ready dir, st'))"
  obtains lock url raw where "readPlayerLock (pt_json pt) (ps_disk st) lockFile = Inr lock"
    and "downloadPlayerArchive (pt_fetch pt) url = (urls, Inr raw)"
    and "trimmed (field lock (js ''sha256'')) \<noteq> []" and "pt_sha256 pt raw = js_lower (trimmed (field lock (js ''sha256'')))"
    and "extractPlayerArchive (pt_gunzip pt) (pt_tmp pt) raw st = Inr (dir, st')"
  using assms
  by (auto simp: resolveLockedPlayer_def verifyArchiveSha256_def res_simps Let_def case_prod_beta prod_eq_iff
      split: sum.split_asm if_split_asm)

section \<open>Properties\<close>

text \<open>
  C31. The player archive is requested only from the release hosts: at most four requests, the first at the
  release origin, every further one at an https location of a release host whose decoded path has no empty,
  dot or backslash part; and a download that succeeds is at most 4 MiB.
\<close>

theorem downloadPlayerArchive_trusted:
  "case downloadPlayerArchive fetch url of (urls, result) \<Rightarrow>
     length urls \<le> 4 \<and> (\<forall>u \<in> set urls. on_release_host u) \<and> (\<forall>u \<in> set (tl urls). safe_redirect u) \<and>
     (\<forall>raw. result = Inr raw \<longrightarrow> length raw \<le> 4194304)"
proof (cases "js_starts url (TRUSTED_RELEASE_ORIGIN @ [SLASH])")
  case True
  obtain urls result where run: "hop_loop fetch 0 url = (urls, result)" by fastforce
  have "on_release_host url" using True by (auto simp: on_release_host_def TRUSTED_RELEASE_ORIGIN_def TRUSTED_RELEASE_HOSTS_def)
  with hop_loop_facts [OF run] True run show ?thesis
    by (auto simp: downloadPlayerArchive_def MAX_RELEASE_REDIRECTS_def MAX_ARCHIVE_BYTES_def)
qed (simp add: downloadPlayerArchive_def)

text \<open>
  C32. Reading an archive gives back its members: the tar stream of distinct expected files, none over 4 MiB, is read
  to exactly those files with their bytes, in order.
\<close>

theorem readTarMembers_roundtrip:
  assumes "\<forall>e \<in> set es. player_member e" and "distinct (map fst es)"
  shows "readTarMembers (tar_of es) = Inr es"
  by (rule read_tar_of [OF assms])

lemma readTarMembers_roundtrip_witness:
  "readTarMembers (tar_of [(js ''loader.js'', [1, 2, 3]), (js ''player.js'', [])]) = Inr [(js ''loader.js'', [1, 2, 3]), (js ''player.js'', [])]"
  by (rule readTarMembers_roundtrip) (simp_all add: player_member_def EXPECTED_PLAYER_FILES_def MAX_ARCHIVE_BYTES_def)

text \<open>
  C30. A resolved player is the locked one: when \<open>resolveLockedPlayer\<close> reports a player, an archive was downloaded whose
  SHA-256 is the digest the lock file records, its tar stream holds exactly the three expected files, and the
  directory the player is served from holds exactly those files with the archive's bytes. \<open>mkdtempSync\<close> makes a
  directory of its own: nothing is in it, and it lies neither in nor above an earlier extraction.
\<close>

theorem resolveLockedPlayer_authentic:
  assumes "resolveLockedPlayer pt lockFile st = (urls, Inr (Ready dir, st'))"
    and "clean_dir (pt_tmp pt)" and "path_parts (pt_tmp pt) \<noteq> []"
    and "\<forall>p \<in> set (ps_dirs st). \<not> prefix (disk_parts (ps_disk st) p) (path_parts (pt_tmp pt)) \<and>
      \<not> prefix (path_parts (pt_tmp pt)) (disk_parts (ps_disk st) p)"
    and "\<forall>n. node_of (ps_disk st) (path_parts (pt_tmp pt) @ [n]) = None"
  shows "\<exists>lock raw tar members.
    readPlayerLock (pt_json pt) (ps_disk st) lockFile = Inr lock \<and>
    pt_sha256 pt raw = js_lower (trimmed (field lock (js ''sha256''))) \<and> length raw \<le> MAX_ARCHIVE_BYTES \<and>
    pt_gunzip pt (MAX_ARCHIVE_BYTES * MAX_PLAYER_FILES) raw = Some tar \<and> readTarMembers tar = Inr members \<and>
    sort (map fst members) = EXPECTED_PLAYER_FILES \<and> dir = pt_tmp pt \<and> node_at (ps_disk st') dir = Some Directory \<and>
    (\<forall>n. node_of (ps_disk st') (path_parts dir @ [n]) = map_option RegularFile (map_of members n))"
proof -
  obtain lock url raw where lock: "readPlayerLock (pt_json pt) (ps_disk st) lockFile = Inr lock"
    and sha: "pt_sha256 pt raw = js_lower (trimmed (field lock (js ''sha256'')))"
    and ext: "extractPlayerArchive (pt_gunzip pt) (pt_tmp pt) raw st = Inr (dir, st')"
    using resolve_ready [OF assms(1)] by metis
  have "length raw \<le> MAX_ARCHIVE_BYTES" using ext by (auto simp: extractPlayerArchive_def throw_if_Inr_iff)
  with lock sha extracted_files [OF ext assms(2-5)] show ?thesis by blast
qed

text \<open>A lock whose archive, served by the release origin, holds the three files.\<close>

definition sample_members :: members where
  "sample_members = [(js ''player.js'', [3]), (js ''loader.js'', [2]), (js ''THIRD-PARTY-LICENSES.txt'', [1])]"

definition sample_tools :: player_tools where
  "sample_tools =
     \<lparr>pt_json = (\<lambda>_. Some (JObj [(js ''release'', JStr (js ''v1'')), (js ''sha256'', JStr (js ''AB''))])), pt_sha256 = (\<lambda>_. js ''ab''),
      pt_gunzip = (\<lambda>_ _. Some (tar_of sample_members)),
      pt_fetch = (\<lambda>_ _. Some \<lparr>rs_status = 200, rs_length = Some 0, rs_location = None, rs_body = Some (\<lambda>_. ReadDone)\<rparr>),
      pt_tmp = js ''/t''\<rparr>"

definition locked_state :: player_state where
  "locked_state = \<lparr>ps_disk = \<lparr>dk_cwd = js ''/'', dk_nodes = [([js ''l''], RegularFile (js ''{}''))]\<rparr>, ps_dirs = []\<rparr>"

lemma sample_tar: "readTarMembers (tar_of sample_members) = Inr sample_members"
  by (rule read_tar_of) (simp_all add: sample_members_def player_member_def EXPECTED_PLAYER_FILES_def MAX_ARCHIVE_BYTES_def)

lemma sample_download:
  "downloadPlayerArchive (pt_fetch sample_tools) (js ''https://github.com/'' @ p) = ([js ''https://github.com/'' @ p], Inr [])"
  by (simp add: downloadPlayerArchive_def TRUSTED_RELEASE_ORIGIN_def hop_loop.simps [of _ 0] MAX_RELEASE_REDIRECTS_def sample_tools_def
      redirect_status_def readBoundedResponse_def read_loop.simps [of _ 0])

lemma downloadPlayerArchive_trusted_witness: "on_release_host (js ''https://github.com/'' @ js ''a'')"
  using downloadPlayerArchive_trusted [of "pt_fetch sample_tools" "js ''https://github.com/'' @ js ''a''"]
  unfolding sample_download by simp

lemma sample_extract:
  "\<exists>st'. extractPlayerArchive (pt_gunzip sample_tools) (pt_tmp sample_tools) [] locked_state = Inr (js ''/t'', st')"
proof -
  have names: "sort (map fst sample_members) = EXPECTED_PLAYER_FILES" by (simp add: sample_members_def EXPECTED_PLAYER_FILES_def)
  have gunzip: "pt_gunzip sample_tools n r = Some (tar_of sample_members)" "pt_tmp sample_tools = js ''/t''" for n r
    by (simp_all add: sample_tools_def)
  show ?thesis
    unfolding extractPlayerArchive_def gunzip
    by (simp add: sample_tar names Let_def) (simp add: sample_members_def locked_state_def recordExtractedPlayerDir_def write_member_def
      write_node_def put_node_def Let_def disk_eval)
qed

lemma sample_resolve:
  "\<exists>urls st'. resolveLockedPlayer sample_tools (js ''/l'') locked_state = (urls, Inr (Ready (js ''/t''), st'))"
proof -
  obtain st' where ext: "extractPlayerArchive (pt_gunzip sample_tools) (pt_tmp sample_tools) [] locked_state = Inr (js ''/t'', st')"
    using sample_extract by blast
  have lock: "readPlayerLock (pt_json sample_tools) (ps_disk locked_state) (js ''/l'') =
      Inr (JObj [(js ''release'', JStr (js ''v1'')), (js ''sha256'', JStr (js ''AB''))])"
    by (simp add: readPlayerLock_def sample_tools_def locked_state_def readFileSync_def byte_length_def point_bytes_def MAX_ARCHIVE_BYTES_def disk_eval)
  have stat: "statOrNull (ps_disk locked_state) (js ''/l'') = Inr (Some (RegularFile (js ''{}'')))"
    by (simp add: statOrNull_def locked_state_def disk_eval)
  have slug: "releaseSlug (trimmed JUndef) = Inr CANONICAL_REPOSITORY"
    by (simp add: releaseSlug_def trimmed_def nullish_def js_trim_def js_trim_start_def js_trim_end_def)
  have slug_ok: "REPOSITORY_SLUG CANONICAL_REPOSITORY" "\<not> list_ex (\<lambda>part. part = dot_seg \<or> part = dotdot_seg) (js_split SLASH CANONICAL_REPOSITORY)"
    by (simp_all add: CANONICAL_REPOSITORY_def REPOSITORY_SLUG_def RELEASE_SEGMENT_def name_unit_def is_alpha_def is_dec_def dot_seg_def dotdot_seg_def)
  have seg_ok: "validPathSegment (js ''v1'')" "validPathSegment PLAYER_ARCHIVE"
    by (simp_all add: PLAYER_ARCHIVE_def validPathSegment_def RELEASE_SEGMENT_def name_unit_def is_alpha_def is_dec_def dot_seg_def dotdot_seg_def)
  have "releaseArchiveUrl (JObj [(js ''release'', JStr (js ''v1'')), (js ''sha256'', JStr (js ''AB''))]) (js ''v1'') PLAYER_ARCHIVE =
      Inr (TRUSTED_RELEASE_ORIGIN @ [SLASH] @ CANONICAL_REPOSITORY @ js ''/releases/download/'' @ js ''v1'' @ [SLASH] @ PLAYER_ARCHIVE)"
    using slug slug_ok seg_ok by (simp add: releaseArchiveUrl_def throw_if_def)
  then have "\<exists>p. releaseArchiveUrl (JObj [(js ''release'', JStr (js ''v1'')), (js ''sha256'', JStr (js ''AB''))]) (js ''v1'') PLAYER_ARCHIVE =
      Inr (js ''https://github.com/'' @ p)"
    unfolding TRUSTED_RELEASE_ORIGIN_def by (intro exI) simp
  then obtain p where p: "releaseArchiveUrl (JObj [(js ''release'', JStr (js ''v1'')), (js ''sha256'', JStr (js ''AB''))]) (js ''v1'') PLAYER_ARCHIVE =
      Inr (js ''https://github.com/'' @ p)" by blast
  have trims: "trimmed (JStr (js ''v1'')) = js ''v1''" "trimmed (JStr (js ''AB'')) = js ''AB''" "js_trim PLAYER_ARCHIVE = PLAYER_ARCHIVE"
    by (simp_all add: trimmed_def nullish_def js_trim_def js_trim_start_def js_trim_end_def js_space_def PLAYER_ARCHIVE_def)
  have sha: "verifyArchiveSha256 (pt_sha256 sample_tools) [] (js ''AB'') = Inr ()"
    by (simp add: verifyArchiveSha256_def sample_tools_def js_lower_def lower_unit_def throw_if_def)
  show ?thesis
    unfolding resolveLockedPlayer_def stat lock using p sample_download [of p] trims sha ext
    by (simp add: is_regular_def Let_def)
qed

lemma resolveLockedPlayer_authentic_witness:
  "\<exists>urls st' members. resolveLockedPlayer sample_tools (js ''/l'') locked_state = (urls, Inr (Ready (js ''/t''), st')) \<and>
     sort (map fst members) = EXPECTED_PLAYER_FILES \<and>
     (\<forall>n. node_of (ps_disk st') [js ''t'', n] = map_option RegularFile (map_of members n))"
proof -
  obtain urls st' where run: "resolveLockedPlayer sample_tools (js ''/l'') locked_state = (urls, Inr (Ready (js ''/t''), st'))"
    using sample_resolve by blast
  have tmp: "clean_dir (pt_tmp sample_tools)" "path_parts (pt_tmp sample_tools) = [js ''t'']"
    by (simp_all add: sample_tools_def clean_dir_def is_absolute_def path_parts_def plain_seg_def dot_seg_def dotdot_seg_def)
  have parts: "path_parts (js ''/t'') = [js ''t'']" by (simp add: path_parts_def)
  have "\<forall>n. node_of (ps_disk locked_state) ([js ''t''] @ [n]) = None" "ps_dirs locked_state = []"
    by (simp_all add: locked_state_def node_of_def)
  with resolveLockedPlayer_authentic [OF run tmp(1)] tmp(2) run parts show ?thesis by fastforce
qed

end
