(* ===== verification/FigureAstro.thy ===== *)
theory FigureAstro
  imports FigureSources FigurePlayer
begin

text \<open>
  The Astro integration (\<^verbatim>\<open>src/tools/figures/astro.mjs\<close>, all but the player archive of \<open>FigurePlayer\<close>): the figure
  blocks of a Markdown tree, the plugin a Markdown processor takes, the restart of the development server,
  publishing and the hooks. The module's own paths, \<open>fileURLToPath\<close> and the site configuration are parameters.
\<close>

definition MAX_NODES :: nat where "MAX_NODES = 200000"
definition RESTART_DELAY_MS :: nat where "RESTART_DELAY_MS = 250"
definition LOADER_URI :: jsstr where "LOADER_URI = PLAYER_URI @ js ''/loader.js''"

text \<open>\<open>ROOT\<close>, \<open>PLAYER_DIR\<close>, \<open>LOCK_FILE\<close>, which the module computes from its own URL, and \<open>fileURLToPath\<close>.\<close>

record astro_module =
  am_root :: jsstr
  am_player_dir :: jsstr
  am_lock_file :: jsstr
  am_file_url :: "jsstr \<Rightarrow> jsstr option"

datatype root_arg = RootUnset | RootUrl jsstr | RootText jsstr

datatype astro_error =
    NotAFileUrl jsstr
  | TooManyNodes
  | NoPluginList
  | PageFailed "(nat option \<times> check_error) list"
  | DigestFailed source_error
  | MountFailed publish_error
  | LockStatFailed disk_error
  | PlayerFailed player_error

definition rootPath :: "astro_module \<Rightarrow> root_arg \<Rightarrow> (astro_error, jsstr) res" where
  "rootPath am root =
     (let convert = (\<lambda>u. case am_file_url am u of None \<Rightarrow> Inl (NotAFileUrl u) | Some p \<Rightarrow> Inr p) in
      case root of
        RootUnset \<Rightarrow> Inr (am_root am)
      | RootUrl u \<Rightarrow> convert u
      | RootText t \<Rightarrow> if js_starts t (js ''file:'') then convert t else Inr t)"

definition figureMounts :: "astro_module \<Rightarrow> root_arg \<Rightarrow> (astro_error, mount list) res" where
  "figureMounts am root =
     res_bind (rootPath am root) (\<lambda>dir.
       Inr [\<lparr>mt_uri = FIGURES_URI, mt_dir = path_join (dir # js_split SLASH OUT_DIR)\<rparr>,
            \<lparr>mt_uri = PLAYER_URI, mt_dir = am_player_dir am\<rparr>])"

definition figureBase :: "jsstr \<Rightarrow> jsstr" where
  "figureBase base = basePath base @ FIGURES_URI"

definition isFigureJson :: "jsstr \<Rightarrow> bool" where
  "isFigureJson name \<longleftrightarrow> js_ends name (js ''.json'')"

definition lift_mount :: "(publish_error, 'a) res \<Rightarrow> (astro_error, 'a) res" where
  "lift_mount r = (case r of Inl e \<Rightarrow> Inl (MountFailed e) | Inr x \<Rightarrow> Inr x)"

definition figuresDigest :: "fs \<Rightarrow> (jsstr \<Rightarrow> jsstr) \<Rightarrow> disk \<Rightarrow> jsstr \<Rightarrow> (astro_error, jsstr) res" where
  "figuresDigest f sha256 d figuresDir =
     res_bind (lift_mount (mountFiles d figuresDir)) (\<lambda>names.
       case filesDigest f sha256 figuresDir (filter isFigureJson names) of
         Inl e \<Rightarrow> Inl (DigestFailed e)
       | Inr h \<Rightarrow> Inr h)"

section \<open>The restart of the development server\<close>

text \<open>
  \<open>watchFigures\<close> as a machine over time: the pending timer's due time and how often the server was restarted.
\<close>

record watch =
  wa_timer :: "nat option"
  wa_restarts :: nat

datatype watch_event = FileChanged nat jsstr | ClockAt nat

definition path_dirname_parts :: "jsstr \<Rightarrow> jsstr \<Rightarrow> jsstr list" where
  "path_dirname_parts cwd p = butlast (path_parts (path_resolve cwd [p]))"

fun watch_step :: "jsstr \<Rightarrow> jsstr \<Rightarrow> watch_event \<Rightarrow> watch \<Rightarrow> watch" where
  "watch_step cwd figuresDir (FileChanged now p) w =
     (if path_dirname_parts cwd p \<noteq> path_parts (path_resolve cwd [figuresDir]) \<or> \<not> isFigureJson p then w
      else w\<lparr>wa_timer := Some (now + RESTART_DELAY_MS)\<rparr>)"
| "watch_step cwd figuresDir (ClockAt now) w =
     (case wa_timer w of
        Some due \<Rightarrow> if due \<le> now then \<lparr>wa_timer = None, wa_restarts = wa_restarts w + 1\<rparr> else w
      | None \<Rightarrow> w)"

section \<open>The figure blocks of a page\<close>

definition loaderScript :: "jsstr \<Rightarrow> jsstr" where
  "loaderScript base =
     js ''import('' @ json_string (basePath base @ LOADER_URI) @
     js '').catch((error) => console.error('' @ [39] @ js ''figures: cannot load the figure loader'' @ [39] @ js '', error));''"

text \<open>
  A Markdown syntax tree as objects: a node has its type, language and value, the line it starts at, and the
  addresses of its children when it has any array of them. Replacing a child allocates the new node.
\<close>

record md_node =
  mn_type :: jsstr
  mn_lang :: jsv
  mn_value :: jsv
  mn_line :: "nat option"
  mn_children :: "nat list option"

type_synonym md_heap = "md_node list"

definition isFigureBlock :: "md_heap \<Rightarrow> nat \<Rightarrow> bool" where
  "isFigureBlock h a \<longleftrightarrow>
     (case js_at h a of
        None \<Rightarrow> False
      | Some n \<Rightarrow> mn_type n = js ''code'' \<and> (case mn_lang n of JStr lang \<Rightarrow> js_lower lang = js ''figure'' | _ \<Rightarrow> False))"

record plugin_options =
  po_figuresDir :: jsstr
  po_base :: jsstr
  po_digest :: jsstr

type_synonym page_errors = "(nat option \<times> check_error) list"

text \<open>\<open>figureNode\<close>: the markup of the replacing node, or the finding.\<close>

definition figure_markup :: "fs \<Rightarrow> plugin_options \<Rightarrow> md_node \<Rightarrow> (check_error, jsstr) res" where
  "figure_markup f op n =
     (let slug = figureSlug (js_split 10 (if nullish (mn_value n) then [] else to_text (mn_value n))) in
      res_bind (figureMeta f (po_figuresDir op) slug) (\<lambda>meta. fillSlots meta (po_base op) None))"

definition figure_html :: "jsstr \<Rightarrow> nat option \<Rightarrow> md_node" where
  "figure_html content line = \<lparr>mn_type = js ''html'', mn_lang = JUndef, mn_value = JStr content, mn_line = line, mn_children = None\<rparr>"

definition figureNode :: "fs \<Rightarrow> plugin_options \<Rightarrow> md_node \<Rightarrow> page_errors \<Rightarrow> md_node option \<times> page_errors" where
  "figureNode f op n errors =
     (case figure_markup f op n of
        Inr content \<Rightarrow> (Some (figure_html content (mn_line n)), errors)
      | Inl e \<Rightarrow> (None, errors @ [(if mn_line n = Some 0 then None else mn_line n, e)]))"

record md_walk =
  mw_heap :: md_heap
  mw_stack :: "nat list"
  mw_errors :: page_errors

text \<open>One child of the node at \<open>a\<close>, at its index: replaced in place, or pushed.\<close>

definition set_child :: "nat \<Rightarrow> nat \<Rightarrow> nat \<Rightarrow> md_heap \<Rightarrow> md_heap" where
  "set_child a i c h = h[a := (h ! a)\<lparr>mn_children := map_option (\<lambda>cs. cs[i := c]) (mn_children (h ! a))\<rparr>]"

definition child_step :: "fs \<Rightarrow> plugin_options \<Rightarrow> nat \<Rightarrow> nat \<times> nat \<Rightarrow> md_walk \<Rightarrow> md_walk" where
  "child_step f op a entry w =
     (let (i, child) = entry; h = mw_heap w;
          (replaced, errors) =
            (if isFigureBlock h child then figureNode f op (h ! child) (mw_errors w) else (None, mw_errors w)) in
      case replaced of
        Some n \<Rightarrow> w\<lparr>mw_heap := set_child a i (length h) h @ [n], mw_errors := errors\<rparr>
      | None \<Rightarrow> w\<lparr>mw_stack := child # mw_stack w, mw_errors := errors\<rparr>)"

definition node_step :: "fs \<Rightarrow> plugin_options \<Rightarrow> nat \<Rightarrow> md_walk \<Rightarrow> md_walk" where
  "node_step f op a w =
     (case Option.bind (js_at (mw_heap w) a) mn_children of
        None \<Rightarrow> w
      | Some cs \<Rightarrow> fold (child_step f op a) (enumerate 0 cs) w)"

fun replace_loop :: "fs \<Rightarrow> plugin_options \<Rightarrow> nat \<Rightarrow> md_walk \<Rightarrow> (astro_error, md_walk) res" where
  "replace_loop f op budget w =
     (case mw_stack w of
        [] \<Rightarrow> Inr w
      | a # rest \<Rightarrow>
          (case budget of
             0 \<Rightarrow> Inl TooManyNodes
           | Suc left \<Rightarrow> replace_loop f op left (node_step f op a (w\<lparr>mw_stack := rest\<rparr>))))"

declare replace_loop.simps [simp del]

definition replaceFigures :: "fs \<Rightarrow> plugin_options \<Rightarrow> nat \<Rightarrow> md_heap \<Rightarrow> (astro_error, md_heap \<times> page_errors) res" where
  "replaceFigures f op tree h =
     res_bind (replace_loop f op MAX_NODES \<lparr>mw_heap = h, mw_stack = [tree], mw_errors = []\<rparr>) (\<lambda>w.
       Inr (mw_heap w, mw_errors w))"

definition remarkFigures :: "fs \<Rightarrow> plugin_options \<Rightarrow> nat \<Rightarrow> md_heap \<Rightarrow> (astro_error, md_heap) res" where
  "remarkFigures f op tree h =
     res_bind (replaceFigures f op tree h) (\<lambda>(h', errors). throw_if (errors \<noteq> []) (PageFailed errors) (Inr h'))"

datatype markup_node = HtmlNode jsstr | FragmentSetHtml jsstr

definition figureMarkupNode :: "jsstr \<Rightarrow> jsstr option \<Rightarrow> markup_node" where
  "figureMarkupNode html format = (if format \<noteq> Some (js ''mdx'') then HtmlNode html else FragmentSetHtml html)"

text \<open>The \<open>code\<close> visitor of \<open>satteriFigures\<close>: \<open>None\<close> leaves the node alone.\<close>

definition satteriFigures :: "fs \<Rightarrow> plugin_options \<Rightarrow> md_heap \<Rightarrow> nat \<Rightarrow> jsstr option \<Rightarrow> (astro_error, markup_node option) res" where
  "satteriFigures f op h a format =
     (if \<not> isFigureBlock h a then Inr None
      else
        (case figureNode f op (h ! a) [] of
           (None, errors) \<Rightarrow> Inl (PageFailed errors)
         | (Some n, _) \<Rightarrow> Inr (Some (figureMarkupNode (to_text (mn_value n)) format))))"

section \<open>The hooks\<close>

text \<open>
  A Markdown processor by the plugin lists its options hold, and the change the integration makes.
\<close>

record processor =
  pr_mdast :: bool
  pr_remark :: bool

datatype plugin_change = PushSatteri plugin_options | PushRemark plugin_options | UpdateRemark plugin_options

definition addFigurePlugin :: "processor option \<Rightarrow> plugin_options \<Rightarrow> (astro_error, plugin_change) res" where
  "addFigurePlugin config op =
     (case config of
        None \<Rightarrow> Inr (UpdateRemark op)
      | Some p \<Rightarrow>
          if pr_mdast p then Inr (PushSatteri op)
          else if pr_remark p then Inr (PushRemark op)
          else Inl NoPluginList)"

record publish_log =
  pl_published :: published
  pl_kept_warnings :: "jsstr list"
  pl_no_loader :: bool

definition publishFigures :: "astro_module \<Rightarrow> mount list \<Rightarrow> root_arg \<Rightarrow> disk \<Rightarrow> (astro_error, publish_log) res" where
  "publishFigures am mounts dir d =
     res_bind (rootPath am dir) (\<lambda>out.
     res_bind (lift_mount (publish mounts out d)) (\<lambda>pu.
       Inr \<lparr>pl_published = pu, pl_kept_warnings = pu_kept pu,
            pl_no_loader = (LOADER_URI \<notin> set (pu_copied pu) \<and> LOADER_URI \<notin> set (pu_kept pu))\<rparr>))"

definition hasPlayerFiles :: "disk \<Rightarrow> jsstr \<Rightarrow> (astro_error, bool) res" where
  "hasPlayerFiles d dir =
     res_bind (lift_mount (mountFiles d dir)) (\<lambda>files. Inr (js ''loader.js'' \<in> set files \<and> js ''player.js'' \<in> set files))"

definition lock_is_file :: "disk \<Rightarrow> jsstr \<Rightarrow> (astro_error, bool) res" where
  "lock_is_file d p = (case statOrNull d p of Inl e \<Rightarrow> Inl (LockStatFailed e) | Inr st \<Rightarrow> Inr (is_regular st))"

definition resolveLockFile :: "astro_module \<Rightarrow> root_arg \<Rightarrow> disk \<Rightarrow> (astro_error, jsstr) res" where
  "resolveLockFile am root d =
     res_bind (lock_is_file d (am_lock_file am)) (\<lambda>own.
       if own \<or> root = RootUnset then Inr (am_lock_file am)
       else
         res_bind (rootPath am root) (\<lambda>dir.
           let candidate = path_join [dir, js ''tools/figures/player.lock.json''] in
           res_bind (lock_is_file d candidate) (\<lambda>there. Inr (if there then candidate else am_lock_file am))))"

text \<open>What \<open>astro:config:setup\<close> leaves: the plugin, the head scripts, the mounts and the player state.\<close>

record setup_result =
  sr_change :: plugin_change
  sr_scripts :: "jsstr list"
  sr_mounts :: "mount list"
  sr_state :: player_state

definition serve_player :: "jsstr \<Rightarrow> mount list \<Rightarrow> mount list" where
  "serve_player dir mounts = mounts[1 := (mounts ! 1)\<lparr>mt_dir := dir\<rparr>]"

definition setup_player :: "player_tools \<Rightarrow> mount list \<Rightarrow> jsstr \<Rightarrow> jsstr \<Rightarrow> plugin_change \<Rightarrow> player_state \<Rightarrow> (astro_error, setup_result) res" where
  "setup_player pt mounts lockFile base change st =
     (case snd (resolveLockedPlayer pt lockFile st) of
        Inl e \<Rightarrow> Inl (PlayerFailed e)
      | Inr (Ready dir, st') \<Rightarrow>
          Inr \<lparr>sr_change = change, sr_scripts = [loaderScript base], sr_mounts = serve_player dir mounts, sr_state = st'\<rparr>
      | Inr (_, st') \<Rightarrow> Inr \<lparr>sr_change = change, sr_scripts = [], sr_mounts = mounts, sr_state = st'\<rparr>)"

definition config_setup ::
  "fs \<Rightarrow> (jsstr \<Rightarrow> jsstr) \<Rightarrow> player_tools \<Rightarrow> mount list \<Rightarrow> jsstr \<Rightarrow> jsstr option \<Rightarrow> processor option \<Rightarrow> player_state \<Rightarrow>
   (astro_error, setup_result) res" where
  "config_setup f sha256 pt mounts lockFile config_base config st =
     (let base = (case config_base of None \<Rightarrow> [SLASH] | Some b \<Rightarrow> b); figuresDir = mt_dir (mounts ! 0) in
      res_bind (figuresDigest f sha256 (ps_disk st) figuresDir) (\<lambda>digest.
      res_bind (addFigurePlugin config \<lparr>po_figuresDir = figuresDir, po_base = figureBase base, po_digest = digest\<rparr>) (\<lambda>change.
      res_bind (hasPlayerFiles (ps_disk st) (mt_dir (mounts ! 1))) (\<lambda>local.
        if local then Inr \<lparr>sr_change = change, sr_scripts = [loaderScript base], sr_mounts = mounts, sr_state = st\<rparr>
        else setup_player pt mounts lockFile base change st))))"

definition server_setup :: "(jsstr \<Rightarrow> jsstr option) \<Rightarrow> disk \<Rightarrow> mount list \<Rightarrow> jsstr option \<Rightarrow> answer" where
  "server_setup url_pathname d mounts request_url = staticHandler url_pathname d mounts [SLASH] request_url True"

definition figures ::
  "astro_module \<Rightarrow> root_arg \<Rightarrow> disk \<Rightarrow> (astro_error, mount list \<times> jsstr) res" where
  "figures am root d =
     res_bind (figureMounts am root) (\<lambda>mounts.
     res_bind (resolveLockFile am root d) (\<lambda>lockFile. Inr (mounts, lockFile)))"

section \<open>Lemmas: replacing figure blocks\<close>

text \<open>
  How a child of the tree may change: not at all, or from a figure block to a node that holds the block's own markup.
\<close>

definition replacement :: "fs \<Rightarrow> plugin_options \<Rightarrow> md_heap \<Rightarrow> md_heap \<Rightarrow> nat \<Rightarrow> nat \<Rightarrow> bool" where
  "replacement f op h0 h c c' \<longleftrightarrow>
     isFigureBlock h0 c \<and> length h0 \<le> c' \<and> c' < length h \<and>
     (\<exists>content. figure_markup f op (h0 ! c) = Inr content \<and> h ! c' = figure_html content (mn_line (h0 ! c)))"

definition same_child :: "fs \<Rightarrow> plugin_options \<Rightarrow> md_heap \<Rightarrow> md_heap \<Rightarrow> nat \<Rightarrow> nat \<Rightarrow> bool" where
  "same_child f op h0 h c c' \<longleftrightarrow> c' = c \<or> replacement f op h0 h c c'"

definition rewritten :: "fs \<Rightarrow> plugin_options \<Rightarrow> md_heap \<Rightarrow> md_heap \<Rightarrow> bool" where
  "rewritten f op h0 h \<longleftrightarrow>
     length h0 \<le> length h \<and>
     (\<forall>a < length h0. h ! a = (h0 ! a)\<lparr>mn_children := mn_children (h ! a)\<rparr> \<and>
        rel_option (list_all2 (same_child f op h0 h)) (mn_children (h0 ! a)) (mn_children (h ! a))) \<and>
     (\<forall>a. length h0 \<le> a \<longrightarrow> a < length h \<longrightarrow> mn_type (h ! a) = js ''html'' \<and> mn_children (h ! a) = None)"

definition addressed :: "md_heap \<Rightarrow> bool" where
  "addressed h \<longleftrightarrow> (\<forall>n \<in> set h. \<forall>cs. mn_children n = Some cs \<longrightarrow> (\<forall>c \<in> set cs. c < length h))"

lemma rewritten_refl: "rewritten f op h h"
  by (auto simp: rewritten_def same_child_def option.rel_refl list.rel_refl)

lemma rewritten_block:
  assumes "rewritten f op h0 h"
  shows "isFigureBlock h c \<longleftrightarrow> c < length h0 \<and> isFigureBlock h0 c"
proof (cases "c < length h0")
  case True
  then have hc: "h ! c = (h0 ! c)\<lparr>mn_children := mn_children (h ! c)\<rparr>" and "c < length h" using assms by (auto simp: rewritten_def)
  have "mn_type (h ! c) = mn_type (h0 ! c)" "mn_lang (h ! c) = mn_lang (h0 ! c)"
    using arg_cong [OF hc, of mn_type] arg_cong [OF hc, of mn_lang] by simp_all
  with True \<open>c < length h\<close> show ?thesis by (simp add: isFigureBlock_def js_at_def)
next
  case False
  then have "c < length h \<Longrightarrow> mn_type (h ! c) = js ''html''" using assms by (simp add: rewritten_def)
  then show ?thesis using False by (auto simp: isFigureBlock_def js_at_def)
qed

text \<open>Replacing one more figure block.\<close>

lemma rewritten_replace:
  assumes re: "rewritten f op h0 h" and a: "a < length h0" and cur: "mn_children (h ! a) = Some cur" and i: "i < length cur"
    and block: "isFigureBlock h (cur ! i)" and content: "figure_markup f op (h ! (cur ! i)) = Inr content"
  defines "h' \<equiv> set_child a i (length h) h @ [figure_html content (mn_line (h ! (cur ! i)))]"
  shows "rewritten f op h0 h'" and "mn_children (h' ! a) = Some (cur[i := length h])"
proof -
  let ?c = "cur ! i"
  have len: "length h0 \<le> length h" using re by (simp add: rewritten_def)
  with a have al: "a < length h" by simp
  show ch: "mn_children (h' ! a) = Some (cur[i := length h])" using al cur by (simp add: h'_def set_child_def nth_append)
  have old: "?c < length h0" "isFigureBlock h0 ?c" using rewritten_block [OF re] block by auto
  have hc: "h ! ?c = (h0 ! ?c)\<lparr>mn_children := mn_children (h ! ?c)\<rparr>" using re old(1) by (simp add: rewritten_def)
  have same: "mn_value (h ! ?c) = mn_value (h0 ! ?c)" "mn_line (h ! ?c) = mn_line (h0 ! ?c)" 
    using arg_cong [OF hc, of mn_value] arg_cong [OF hc, of mn_line] by simp_all
  then have content0: "figure_markup f op (h0 ! ?c) = Inr content" using content by (simp only: figure_markup_def)
  have new: "h' ! length h = figure_html content (mn_line (h0 ! ?c))" "length h' = Suc (length h)"
    by (simp_all add: h'_def set_child_def nth_append same)
  have keep: "h' ! b = h ! b" if "b < length h" "b \<noteq> a" for b using that by (simp add: h'_def set_child_def nth_append)
  have mono: "same_child f op h0 h' c c'" if "same_child f op h0 h c c'" for c c'
  proof -
    have "c' < length h \<Longrightarrow> length h0 \<le> c' \<Longrightarrow> h' ! c' = h ! c'" using a keep by simp
    then show ?thesis using that new(2) by (auto simp: same_child_def replacement_def)
  qed
  have rel: "rel_option (list_all2 (same_child f op h0 h')) (mn_children (h0 ! b)) (mn_children (h ! b))" if "b < length h0" for b
    using re that mono by (auto simp: rewritten_def intro: option.rel_mono_strong list_all2_mono)
  have here: "rel_option (list_all2 (same_child f op h0 h')) (mn_children (h0 ! a)) (mn_children (h' ! a))"
  proof -
    obtain cs where cs: "mn_children (h0 ! a) = Some cs" "list_all2 (same_child f op h0 h') cs cur"
      using rel [OF a] cur by (auto simp: option_rel_Some2)
    have "same_child f op h0 h' (cs ! i) ?c" using cs(2) i by (simp add: list_all2_conv_all_nth)
    then have "cs ! i = ?c" using old(1) by (auto simp: same_child_def replacement_def)
    then have "same_child f op h0 h' (cs ! i) (length h)" using old(2) content0 new len by (auto simp: same_child_def replacement_def)
    then have "list_all2 (same_child f op h0 h') cs (cur[i := length h])"
      using list_all2_update_cong [OF cs(2), of "cs ! i" "length h" i] by simp
    then show ?thesis using cs ch by simp
  qed
  have upd: "h' ! a = (h0 ! a)\<lparr>mn_children := mn_children (h' ! a)\<rparr>"
  proof -
    have "h ! a = (h0 ! a)\<lparr>mn_children := mn_children (h ! a)\<rparr>" using re a by (simp add: rewritten_def)
    moreover have "h' ! a = (h ! a)\<lparr>mn_children := mn_children (h' ! a)\<rparr>" using al cur ch by (simp add: h'_def set_child_def nth_append)
    ultimately show ?thesis by (metis md_node.surjective md_node.update_convs(5))
  qed
  show "rewritten f op h0 h'"
    unfolding rewritten_def
  proof (intro conjI allI impI)
    fix b assume b: "b < length h0"
    show "h' ! b = (h0 ! b)\<lparr>mn_children := mn_children (h' ! b)\<rparr>"
      using upd keep [of b] re b len by (cases "b = a") (auto simp: rewritten_def)
    show "rel_option (list_all2 (same_child f op h0 h')) (mn_children (h0 ! b)) (mn_children (h' ! b))"
      using here keep [of b] rel [OF b] b len by (cases "b = a") auto
  next
    fix b assume b: "length h0 \<le> b" "b < length h'"
    then have "b \<noteq> a" using a by simp
    show "mn_type (h' ! b) = js ''html''" "mn_children (h' ! b) = None"
      using b \<open>b \<noteq> a\<close> keep [of b] new re by (cases "b = length h"; auto simp: rewritten_def figure_html_def)+
  qed (use len new in simp)
qed

text \<open>
  The walk while no finding is recorded: \<open>walked\<close> is what holds of the state, \<open>advance\<close> what one child of the node at
  \<open>a\<close> changes.
\<close>

lemma child_step_errors: "\<exists>es. mw_errors (child_step f op a (i, c) w) = mw_errors w @ es"
  by (cases "isFigureBlock (mw_heap w) c"; cases "figure_markup f op (mw_heap w ! c)") (simp_all add: child_step_def figureNode_def Let_def)

lemma child_errors: "mw_errors (fold (child_step f op a) es w) = [] \<Longrightarrow> mw_errors w = []"
proof (induction es arbitrary: w)
  case (Cons e es)
  have "mw_errors (child_step f op a e w) = []" using Cons.IH [of "child_step f op a e w"] Cons.prems by simp
  moreover obtain es' where "mw_errors (child_step f op a e w) = mw_errors w @ es'"
    using child_step_errors [of f op a "fst e" "snd e" w] by auto
  ultimately show ?case by simp
qed simp

lemma child_step_cases:
  assumes "mw_errors (child_step f op a (i, c) w) = []"
  shows "(\<not> isFigureBlock (mw_heap w) c \<and> child_step f op a (i, c) w = w\<lparr>mw_stack := c # mw_stack w\<rparr>) \<or>
    (isFigureBlock (mw_heap w) c \<and> (\<exists>content. figure_markup f op (mw_heap w ! c) = Inr content \<and>
       child_step f op a (i, c) w =
         w\<lparr>mw_heap := set_child a i (length (mw_heap w)) (mw_heap w) @ [figure_html content (mn_line (mw_heap w ! c))]\<rparr>))"
  using assms by (auto simp: child_step_def figureNode_def Let_def split: sum.splits if_splits)

definition children_done :: "md_heap \<Rightarrow> nat set \<Rightarrow> nat list \<Rightarrow> bool" where
  "children_done h0 seen cs \<longleftrightarrow> (\<forall>c \<in> set cs. (c \<in> seen \<and> \<not> isFigureBlock h0 c) \<or> length h0 \<le> c)"

lemma child_steps:
  assumes "rewritten f op h0 (mw_heap w)" and "a < length h0" and "mn_children (mw_heap w ! a) = Some cur" and "i \<le> length cur"
    and "mw_errors (fold (child_step f op a) (enumerate i (drop i cur)) w) = []"
  shows "\<exists>w' cur'. w' = fold (child_step f op a) (enumerate i (drop i cur)) w \<and> rewritten f op h0 (mw_heap w') \<and>
    set (mw_stack w) \<subseteq> set (mw_stack w') \<and> (\<forall>b < length h0. b \<noteq> a \<longrightarrow> mw_heap w' ! b = mw_heap w ! b) \<and>
    (\<forall>c \<in> set (mw_stack w'). c \<in> set (mw_stack w) \<or> \<not> isFigureBlock h0 c) \<and>
    mn_children (mw_heap w' ! a) = Some cur' \<and> take i cur' = take i cur \<and> length cur' = length cur \<and>
    children_done h0 (set (mw_stack w')) (drop i cur')"
  using assms
proof (induction "drop i cur" arbitrary: i w cur)
  case Nil
  then show ?case by (auto simp: children_done_def)
next
  case (Cons c rest)
  then have i: "i < length cur" by (metis drop_all leI list.distinct(1))
  then have drop: "drop i cur = cur ! i # drop (Suc i) cur" by (simp add: Cons_nth_drop_Suc)
  with Cons.hyps(2) have c: "c = cur ! i" and rest: "rest = drop (Suc i) cur" by simp_all
  let ?h = "mw_heap w" and ?w1 = "child_step f op a (i, c) w"
  have fold: "fold (child_step f op a) (enumerate i (drop i cur)) w = fold (child_step f op a) (enumerate (Suc i) (drop (Suc i) cur)) ?w1"
    by (simp add: drop c)
  have len: "length h0 \<le> length ?h" using Cons.prems(1) by (simp add: rewritten_def)
  have no_errors: "mw_errors ?w1 = []" using Cons.prems(5) unfolding fold by (rule child_errors)
  obtain cur1 where one: "rewritten f op h0 (mw_heap ?w1)" "mn_children (mw_heap ?w1 ! a) = Some cur1" "length cur1 = length cur"
      "drop (Suc i) cur1 = drop (Suc i) cur" "take i cur1 = take i cur"
      "set (mw_stack w) \<subseteq> set (mw_stack ?w1)" "\<forall>b < length h0. b \<noteq> a \<longrightarrow> mw_heap ?w1 ! b = ?h ! b"
      "\<forall>x \<in> set (mw_stack ?w1). x \<in> set (mw_stack w) \<or> \<not> isFigureBlock h0 x"
      "(cur1 ! i \<in> set (mw_stack ?w1) \<and> \<not> isFigureBlock h0 (cur1 ! i)) \<or> length h0 \<le> cur1 ! i"
    using child_step_cases [OF no_errors]
  proof (elim disjE conjE exE)
    assume nb: "\<not> isFigureBlock ?h c" and w1: "?w1 = w\<lparr>mw_stack := c # mw_stack w\<rparr>"
    have "\<not> isFigureBlock h0 c" using nb rewritten_block [OF Cons.prems(1), of c] by (auto simp: isFigureBlock_def js_at_def)
    then show thesis using that [of cur] w1 Cons.prems(1,3) c by auto
  next
    fix content assume b: "isFigureBlock ?h c" and m: "figure_markup f op (?h ! c) = Inr content"
      and w1: "?w1 = w\<lparr>mw_heap := set_child a i (length ?h) ?h @ [figure_html content (mn_line (?h ! c))]\<rparr>"
    note rr = rewritten_replace [OF Cons.prems(1,2,3) i, folded c, OF b m]
    have "\<forall>x < length h0. x \<noteq> a \<longrightarrow> mw_heap ?w1 ! x = ?h ! x" using len by (simp add: w1 set_child_def nth_append)
    then show thesis using that [of "cur[i := length ?h]"] rr w1 i len by simp
  qed
  have rest1: "rest = drop (Suc i) cur1" using rest one(4) by simp
  have errors1: "mw_errors (fold (child_step f op a) (enumerate (Suc i) (drop (Suc i) cur1)) ?w1) = []"
    using Cons.prems(5) unfolding fold one(4) .
  from Cons.hyps(1) [OF rest1 one(1) Cons.prems(2) one(2) _ errors1] i one(3)
  obtain cur' where ih: "rewritten f op h0 (mw_heap (fold (child_step f op a) (enumerate i (drop i cur)) w))"
      "set (mw_stack ?w1) \<subseteq> set (mw_stack (fold (child_step f op a) (enumerate i (drop i cur)) w))"
      "\<forall>b < length h0. b \<noteq> a \<longrightarrow> mw_heap (fold (child_step f op a) (enumerate i (drop i cur)) w) ! b = mw_heap ?w1 ! b"
      "\<forall>x \<in> set (mw_stack (fold (child_step f op a) (enumerate i (drop i cur)) w)). x \<in> set (mw_stack ?w1) \<or> \<not> isFigureBlock h0 x"
      "mn_children (mw_heap (fold (child_step f op a) (enumerate i (drop i cur)) w) ! a) = Some cur'"
      "take (Suc i) cur' = take (Suc i) cur1" "length cur' = length cur1"
      "children_done h0 (set (mw_stack (fold (child_step f op a) (enumerate i (drop i cur)) w))) (drop (Suc i) cur')"
    unfolding fold one(4) by auto
  have "cur' ! i = cur1 ! i" using ih(6) by (metis lessI nth_take)
  moreover have "drop i cur' = cur' ! i # drop (Suc i) cur'" using i one(3) ih(7) by (simp add: Cons_nth_drop_Suc)
  ultimately have "children_done h0 (set (mw_stack (fold (child_step f op a) (enumerate i (drop i cur)) w))) (drop i cur')"
    using ih(2,8) one(9) by (auto simp: children_done_def)
  moreover have "take i cur' = take i cur" using ih(6) one(5) by (metis min.absorb1 take_take le_SucI le_refl)
  ultimately show ?case using ih one by (intro exI conjI) (auto 0 3)
qed

definition walked_ok :: "fs \<Rightarrow> plugin_options \<Rightarrow> md_heap \<Rightarrow> nat set \<Rightarrow> md_walk \<Rightarrow> bool" where
  "walked_ok f op h0 seen w \<longleftrightarrow>
     rewritten f op h0 (mw_heap w) \<and>
     (\<forall>a \<in> seen. a < length h0 \<longrightarrow>
        (\<forall>cur. mn_children (mw_heap w ! a) = Some cur \<longrightarrow> children_done h0 (seen \<union> set (mw_stack w)) cur))"

lemma node_step_ok:
  assumes ok: "walked_ok f op h0 seen w" and stack: "mw_stack w = a # rest"
    and errors: "mw_errors (node_step f op a (w\<lparr>mw_stack := rest\<rparr>)) = []"
  shows "walked_ok f op h0 (insert a seen) (node_step f op a (w\<lparr>mw_stack := rest\<rparr>)) \<and>
    set rest \<subseteq> set (mw_stack (node_step f op a (w\<lparr>mw_stack := rest\<rparr>)))"
proof -
  let ?w = "w\<lparr>mw_stack := rest\<rparr>" and ?h = "mw_heap w"
  have re: "rewritten f op h0 ?h" using ok by (simp add: walked_ok_def)
  have grow: "children_done h0 s cs \<Longrightarrow> s \<subseteq> t \<Longrightarrow> children_done h0 t cs" for s t cs by (auto simp: children_done_def)
  show ?thesis
  proof (cases "a < length h0 \<and> mn_children (?h ! a) \<noteq> None")
    case True
    then obtain cur where cur: "mn_children (?h ! a) = Some cur" by blast
    have "a < length ?h" using True re by (simp add: rewritten_def)
    then have step: "node_step f op a ?w = fold (child_step f op a) (enumerate 0 (drop 0 cur)) ?w"
      using cur by (simp add: node_step_def js_at_def)
    obtain cur' where facts: "rewritten f op h0 (mw_heap (node_step f op a ?w))" "set rest \<subseteq> set (mw_stack (node_step f op a ?w))"
        "\<forall>b < length h0. b \<noteq> a \<longrightarrow> mw_heap (node_step f op a ?w) ! b = ?h ! b"
        "mn_children (mw_heap (node_step f op a ?w) ! a) = Some cur'" "children_done h0 (set (mw_stack (node_step f op a ?w))) cur'"
      using child_steps [of f op h0 ?w a cur 0] re True cur errors unfolding step by auto
    have "children_done h0 (insert a seen \<union> set (mw_stack (node_step f op a ?w))) x"
      if b: "b \<in> insert a seen" "b < length h0" and x: "mn_children (mw_heap (node_step f op a ?w) ! b) = Some x" for b x
    proof (cases "b = a")
      case True
      with facts(4) x have "x = cur'" by simp
      then show ?thesis using facts(5) by (auto intro: grow)
    next
      case False
      then have "mn_children (?h ! b) = Some x" "b \<in> seen" using facts(3) b x by auto
      then have "children_done h0 (seen \<union> set (mw_stack w)) x" using ok b(2) by (simp add: walked_ok_def)
      then show ?thesis using facts(2) stack by (auto intro: grow)
    qed
    then show ?thesis using facts(1,2) by (simp add: walked_ok_def)
  next
    case False
    have step: "node_step f op a ?w = ?w"
    proof (cases "a < length ?h")
      case True
      then have "mn_children (?h ! a) = None" using False re by (auto simp: rewritten_def)
      then show ?thesis using True by (simp add: node_step_def js_at_def)
    qed (simp add: node_step_def js_at_def)
    have "a < length h0 \<Longrightarrow> mn_children (?h ! a) = None" using False by blast
    then show ?thesis using ok stack unfolding step by (auto simp: walked_ok_def)
  qed
qed

lemma node_step_errors: "mw_errors (node_step f op a w) = [] \<Longrightarrow> mw_errors w = []"
  by (auto simp: node_step_def split: option.splits dest: child_errors)

lemma replace_loop_errors: "replace_loop f op budget w = Inr w' \<Longrightarrow> mw_errors w' = [] \<Longrightarrow> mw_errors w = []"
proof (induction budget arbitrary: w)
  case 0
  then show ?case by (subst (asm) replace_loop.simps) (auto split: list.splits)
next
  case (Suc budget)
  then show ?case
    by (subst (asm) (2) replace_loop.simps) (fastforce split: list.splits dest: node_step_errors)
qed

lemma replace_loop_ok:
  "replace_loop f op budget w = Inr w' \<Longrightarrow> mw_errors w' = [] \<Longrightarrow> walked_ok f op h0 seen w \<Longrightarrow>
     \<exists>seen'. walked_ok f op h0 seen' w' \<and> mw_stack w' = [] \<and> seen \<union> set (mw_stack w) \<subseteq> seen'"
proof (induction budget arbitrary: w seen)
  case 0
  then show ?case by (subst (asm) replace_loop.simps) (auto split: list.splits)
next
  case (Suc budget)
  show ?case
  proof (cases "mw_stack w")
    case Nil
    with Suc.prems show ?thesis by (subst (asm) replace_loop.simps) auto
  next
    case (Cons a rest)
    let ?w1 = "node_step f op a (w\<lparr>mw_stack := rest\<rparr>)"
    have run: "replace_loop f op budget ?w1 = Inr w'" using Suc.prems(1) Cons by (subst (asm) replace_loop.simps) simp
    have "mw_errors ?w1 = []" using replace_loop_errors [OF run Suc.prems(2)] .
    from node_step_ok [OF Suc.prems(3) Cons this] have one: "walked_ok f op h0 (insert a seen) ?w1" "set rest \<subseteq> set (mw_stack ?w1)" by auto
    from Suc.IH [OF run Suc.prems(2) one(1)] show ?thesis using one(2) Cons by auto
  qed
qed

text \<open>The nodes of a tree.\<close>

inductive md_reach :: "md_heap \<Rightarrow> nat \<Rightarrow> nat \<Rightarrow> bool" for h r where
  md_root: "md_reach h r r"
| md_child: "md_reach h r a \<Longrightarrow> js_at h a = Some n \<Longrightarrow> mn_children n = Some cs \<Longrightarrow> c \<in> set cs \<Longrightarrow> md_reach h r c"

lemma reach_seen:
  assumes ok: "walked_ok f op h0 seen w" and "mw_stack w = []" and "tree \<in> seen" and "md_reach (mw_heap w) tree a"
  shows "(a \<in> seen \<or> length h0 \<le> a) \<and> (a \<noteq> tree \<longrightarrow> \<not> isFigureBlock (mw_heap w) a)"
  using assms(4)
proof (induction rule: md_reach.induct)
  case md_root
  then show ?case using assms(3) by simp
next
  case (md_child b n cs c)
  have re: "rewritten f op h0 (mw_heap w)" using ok by (simp add: walked_ok_def)
  have b: "b < length (mw_heap w)" "n = mw_heap w ! b" using md_child(2) by (auto simp: js_at_def split: if_splits)
  have "b < length h0"
  proof (rule ccontr)
    assume "\<not> b < length h0"
    then have "mn_children (mw_heap w ! b) = None" using re b(1) by (simp add: rewritten_def)
    with b(2) md_child(3) show False by simp
  qed
  moreover from this have "b \<in> seen" using md_child.IH by simp
  ultimately have "children_done h0 seen cs" using ok b md_child(3) assms(2) by (simp add: walked_ok_def)
  then show ?case using md_child(4) rewritten_block [OF re, of c] by (auto simp: children_done_def)
qed

section \<open>Lemmas: the hooks\<close>

text \<open>The directory \<open>mkdtempSync\<close> makes is new: nothing is in it and no earlier extraction is above or below it.\<close>

definition fresh_tmp :: "player_tools \<Rightarrow> player_state \<Rightarrow> bool" where
  "fresh_tmp pt st \<longleftrightarrow>
     clean_dir (pt_tmp pt) \<and> path_parts (pt_tmp pt) \<noteq> [] \<and>
     (\<forall>p \<in> set (ps_dirs st). \<not> prefix (disk_parts (ps_disk st) p) (path_parts (pt_tmp pt)) \<and>
        \<not> prefix (path_parts (pt_tmp pt)) (disk_parts (ps_disk st) p)) \<and>
     (\<forall>n. node_of (ps_disk st) (path_parts (pt_tmp pt) @ [n]) = None)"

definition holds_player :: "disk \<Rightarrow> jsstr \<Rightarrow> bool" where
  "holds_player d dir \<longleftrightarrow>
     is_regular (node_of d (disk_parts d dir @ [js ''loader.js''])) \<and> is_regular (node_of d (disk_parts d dir @ [js ''player.js'']))"

lemma hasPlayerFiles_holds: "hasPlayerFiles d dir = Inr True \<Longrightarrow> holds_player d dir"
proof -
  assume "hasPlayerFiles d dir = Inr True"
  then obtain files where files: "mountFiles d dir = Inr files" and names: "js ''loader.js'' \<in> set files" "js ''player.js'' \<in> set files"
    by (auto simp: hasPlayerFiles_def res_simps lift_mount_def case_sum_Inr_iff)
  have "n \<in> set files \<Longrightarrow> (n, True) \<in> set (readdirSync d dir)" for n
    using files by (auto simp: mountFiles_def res_simps Let_def split: if_splits)
  with names show ?thesis by (simp add: holds_player_def readdir_file)
qed

lemma ready_holds:
  assumes "resolveLockedPlayer pt lockFile st = (urls, Inr (Ready dir, st'))" and "fresh_tmp pt st"
  shows "holds_player (ps_disk st') dir"
proof -
  obtain raw where ext: "extractPlayerArchive (pt_gunzip pt) (pt_tmp pt) raw st = Inr (dir, st')"
    using resolve_ready [OF assms(1)] by metis
  have fresh: "clean_dir (pt_tmp pt)" "path_parts (pt_tmp pt) \<noteq> []"
      "\<forall>p \<in> set (ps_dirs st). \<not> prefix (disk_parts (ps_disk st) p) (path_parts (pt_tmp pt)) \<and>
        \<not> prefix (path_parts (pt_tmp pt)) (disk_parts (ps_disk st) p)"
      "\<forall>n. node_of (ps_disk st) (path_parts (pt_tmp pt) @ [n]) = None"
    using assms(2) unfolding fresh_tmp_def by blast+
  note facts = extracted_files [OF ext fresh]
  then obtain members where names: "sort (map fst members) = EXPECTED_PLAYER_FILES"
    and nodes: "\<And>n. node_of (ps_disk st') (path_parts (pt_tmp pt) @ [n]) = map_option RegularFile (map_of members n)" by blast
  have "set (map fst members) = set EXPECTED_PLAYER_FILES" using names by (metis set_sort)
  then have "map_of members (js ''loader.js'') \<noteq> None" "map_of members (js ''player.js'') \<noteq> None"
    by (simp_all add: map_of_eq_None_iff EXPECTED_PLAYER_FILES_def)
  then show ?thesis using nodes facts(1) by (auto simp: holds_player_def clean_dir_parts [OF fresh(1)] is_regular_iff)
qed

section \<open>Properties\<close>

text \<open>
  C33. A page the Markdown plugin accepts holds no figure block below its root: every one was replaced, in its place,
  by a node with the markup of its own figure, and nothing else of the tree changed.
\<close>

theorem remarkFigures_complete:
  assumes "remarkFigures f op tree h = Inr h'"
  shows "rewritten f op h h' \<and> (\<forall>a. md_reach h' tree a \<longrightarrow> a \<noteq> tree \<longrightarrow> \<not> isFigureBlock h' a)"
proof -
  let ?w = "\<lparr>mw_heap = h, mw_stack = [tree], mw_errors = []\<rparr>"
  obtain w' where run: "replace_loop f op MAX_NODES ?w = Inr w'" "mw_errors w' = []" and h': "h' = mw_heap w'"
    using assms by (auto simp: remarkFigures_def replaceFigures_def res_simps)
  have "walked_ok f op h {} ?w" by (simp add: walked_ok_def rewritten_refl)
  from replace_loop_ok [OF run this] obtain seen where ok: "walked_ok f op h seen w'" "mw_stack w' = []" "tree \<in> seen" by auto
  with reach_seen [OF ok] h' show ?thesis by (auto simp: walked_ok_def)
qed

text \<open>A page with one figure block and one paragraph.\<close>

definition one_tree :: md_heap where
  "one_tree =
     [\<lparr>mn_type = js ''root'', mn_lang = JUndef, mn_value = JUndef, mn_line = None, mn_children = Some [1, 2]\<rparr>,
      \<lparr>mn_type = js ''code'', mn_lang = JStr (js ''figure''), mn_value = JStr (js ''flow''), mn_line = Some 3, mn_children = None\<rparr>,
      \<lparr>mn_type = js ''paragraph'', mn_lang = JUndef, mn_value = JUndef, mn_line = Some 5, mn_children = None\<rparr>]"

definition one_options :: plugin_options where
  "one_options = \<lparr>po_figuresDir = js ''/f'', po_base = js ''/b'', po_digest = []\<rparr>"

definition one_json :: fs where
  "one_json = one_fs\<lparr>fs_readJson := (\<lambda>_. Some (JObj [(js ''html'', JStr (js ''<p>''))]))\<rparr>"

lemma one_markup: "figure_markup one_json one_options (one_tree ! 1) = Inr (js ''<p>'')"
proof -
  have slug: "figureSlug [js ''flow''] = js ''flow''" by (simp add: figureSlug_def strip_def lstrip_def py_space_def)
  have "SLUG (js ''flow'')" by (simp add: SLUG_def slug_unit_def)
  then have meta: "figureMeta one_json p (js ''flow'') = Inr (JObj [(js ''html'', JStr (js ''<p>''))])" for p
    by (simp add: figureMeta_def one_json_def one_fs_def throw_if_def)
  have "fillSlots (JObj [(js ''html'', JStr (js ''<p>''))]) (js ''/b'') None = Inr (js ''<p>'')"
    by (simp add: fillSlots_def throw_if_def slot_link_def slot_base_def js_includes_def Let_def fill.simps)
  then show ?thesis using slug meta by (simp add: figure_markup_def one_tree_def one_options_def nullish_def Let_def)
qed

lemma one_replaced:
  "remarkFigures one_json one_options 0 one_tree =
     Inr ((one_tree[0 := (one_tree ! 0)\<lparr>mn_children := Some [3, 2]\<rparr>]) @ [figure_html (js ''<p>'') (Some 3)])"
proof -
  have max: "MAX_NODES = Suc (Suc (Suc 199997))" by (simp add: MAX_NODES_def)
  have block: "isFigureBlock one_tree 1" "\<not> isFigureBlock h 2" if "h ! 2 = one_tree ! 2" "2 < length h" for h
    using that by (simp_all add: isFigureBlock_def js_at_def one_tree_def js_lower_def lower_unit_def)
  show ?thesis
    unfolding remarkFigures_def replaceFigures_def max using one_markup
    by (simp add: replace_loop.simps node_step_def js_at_def child_step_def figureNode_def set_child_def isFigureBlock_def one_tree_def js_lower_def lower_unit_def throw_if_def figure_html_def)
qed

definition replaced_page :: md_heap where
  "replaced_page = (one_tree[0 := (one_tree ! 0)\<lparr>mn_children := Some [3, 2]\<rparr>]) @ [figure_html (js ''<p>'') (Some 3)]"

lemma remarkFigures_complete_witness:
  "isFigureBlock one_tree 1 \<and> md_reach replaced_page 0 3 \<and> \<not> isFigureBlock replaced_page 3"
proof -
  have "isFigureBlock one_tree 1" by (simp add: isFigureBlock_def js_at_def one_tree_def js_lower_def lower_unit_def)
  moreover have reach: "md_reach replaced_page 0 3"
    by (rule md_child [where a = 0 and n = "replaced_page ! 0" and cs = "[3, 2]", OF md_root]) (simp_all add: replaced_page_def one_tree_def js_at_def)
  moreover have "\<not> isFigureBlock replaced_page 3"
    using remarkFigures_complete [OF one_replaced, folded replaced_page_def] reach by simp
  ultimately show ?thesis by simp
qed

text \<open>
  C34. The loader is only announced when there is a player: whenever the setup hook injects the head script, the
  directory it then serves at the player's site path holds \<open>loader.js\<close> and \<open>player.js\<close>, be it the repository's own
  player or the locked release; and without a script the mounts are as they were.
\<close>

theorem config_setup_player:
  assumes "config_setup f sha256 pt mounts lockFile config_base config st = Inr r" and "fresh_tmp pt st" and "length mounts = 2"
  shows "(sr_scripts r \<noteq> [] \<longrightarrow> holds_player (ps_disk (sr_state r)) (mt_dir (sr_mounts r ! 1)) \<and> mt_uri (sr_mounts r ! 1) = mt_uri (mounts ! 1)) \<and>
    (sr_scripts r = [] \<longrightarrow> sr_mounts r = mounts)"
proof -
  obtain urls result where run: "resolveLockedPlayer pt lockFile st = (urls, result)" by fastforce
  from assms(1) consider base change where "hasPlayerFiles (ps_disk st) (mt_dir (mounts ! 1)) = Inr True"
      "r = \<lparr>sr_change = change, sr_scripts = [loaderScript base], sr_mounts = mounts, sr_state = st\<rparr>"
    | base change where "setup_player pt mounts lockFile base change st = Inr r"
    by (auto simp: config_setup_def res_simps Let_def split: if_splits)
  then show ?thesis
  proof cases
    case 1
    then show ?thesis using hasPlayerFiles_holds by simp
  next
    case 2
    then show ?thesis
      using run ready_holds [OF _ assms(2), of lockFile urls] assms(3)
      by (auto simp: setup_player_def serve_player_def split: sum.split_asm player.split_asm)
  qed
qed

definition two_mounts :: "mount list" where
  "two_mounts = [\<lparr>mt_uri = FIGURES_URI, mt_dir = js ''/f''\<rparr>, \<lparr>mt_uri = PLAYER_URI, mt_dir = js ''/p''\<rparr>]"

lemma locked_setup:
  "\<exists>r. config_setup one_json (\<lambda>_. []) sample_tools two_mounts (js ''/l'') None None locked_state = Inr r \<and> sr_scripts r \<noteq> []"
proof -
  have none: "mountFiles (ps_disk locked_state) (js ''/f'') = Inr []" "mountFiles (ps_disk locked_state) (js ''/p'') = Inr []"
    by (simp_all add: mountFiles_def statOrNull_def lift_disk_def locked_state_def disk_eval)
  obtain urls st' where run: "resolveLockedPlayer sample_tools (js ''/l'') locked_state = (urls, Inr (Ready (js ''/t''), st'))"
    using sample_resolve by blast
  have dirs: "mt_dir (two_mounts ! 0) = js ''/f''" "mt_dir (two_mounts ! 1) = js ''/p''" by (simp_all add: two_mounts_def)
  have digest: "figuresDigest one_json (\<lambda>_. []) (ps_disk locked_state) (js ''/f'') = Inr []"
    using none(1) by (simp add: figuresDigest_def lift_mount_def filesDigest_def)
  have "hasPlayerFiles (ps_disk locked_state) (js ''/p'') = Inr False" using none(2) by (simp add: hasPlayerFiles_def lift_mount_def)
  with digest run show ?thesis
    unfolding config_setup_def dirs Let_def by (simp add: addFigurePlugin_def setup_player_def)
qed

lemma config_setup_player_witness:
  "\<exists>r. config_setup one_json (\<lambda>_. []) sample_tools two_mounts (js ''/l'') None None locked_state = Inr r \<and>
     holds_player (ps_disk (sr_state r)) (mt_dir (sr_mounts r ! 1))"
proof -
  obtain r where r: "config_setup one_json (\<lambda>_. []) sample_tools two_mounts (js ''/l'') None None locked_state = Inr r" "sr_scripts r \<noteq> []"
    using locked_setup by blast
  have "fresh_tmp sample_tools locked_state"
    by (simp add: fresh_tmp_def sample_tools_def locked_state_def clean_dir_def node_of_def is_absolute_def path_parts_def plain_seg_def dot_seg_def dotdot_seg_def)
  from config_setup_player [OF r(1) this] r show ?thesis by (auto simp: two_mounts_def)
qed

end
