(* ===== verification/Spec2Isabelle.thy ===== *)
theory Spec2Isabelle
  imports GlobMatch GateRun GateFixtures ScratchScan FigureCommand FigureFiles FigureAstro
begin

text \<open>
  The documentation tools of the repository, its JavaScript programs, as HOL definitions with the theorems
  that make them correct.

  \<^bold>\<open>The program.\<close> Two tools keep the documentation sound.

  \<^item> The documentation gate, \<^verbatim>\<open>src/tools/markdownlint/verify.mjs\<close>. It reads the gate settings of the repository's
    manifest, audits the tracked symbolic links, takes the inventory of Markdown files, selects the files of
    the style rules (declared globs exclude some), and runs child processes: one that applies the private-link
    rule to the whole inventory and one per batch of style-selected files. Time, output and counts are all
    bounded. The private-link rule is \<^verbatim>\<open>src/tools/markdownlint/no-private-scratch-links.mjs\<close>: it collects every
    destination of a file (links, embedded HTML and CSS, MDX, attribute lists, snippet includes), resolves each
    the way a browser would and reports those that reach a private scratch directory.
  \<^item> The figure tools, \<^verbatim>\<open>src/tools/figures/\<close>. \<open>core.mjs\<close> validates a figure specification and derives its images,
    description and markup; \<open>checks.mjs\<close> reads pages and site configurations and binds every committed figure to
    its specification, and checks a built site against its pages; \<open>build.mjs\<close> is the command; \<open>serve.mjs\<close> serves and
    publishes the files; \<open>astro.mjs\<close> puts the figures into a Starlight site and decides what a page may refer to.

  \<^bold>\<open>The model.\<close> A JavaScript string is the list of its UTF-16 code units. A throw is the left side of a sum whose
  error datatype names every throw of the component; message texts are not kept. Loops are folds over results or
  recursive functions with termination proofs; a loop the code itself bounds takes that bound as its fuel
  (\<open>MAX_ESTREE_NODES\<close>, \<open>MAX_HTML_NODES\<close>, the token budget of CSS), so running out is the error the code throws and not
  an artefact. Regular expressions are written out as functions on code units. Third-party and engine code
  (micromark, parse5, js-yaml, the figure engine, SHA-256, the regular-expression engine's Unicode tables, git, the
  host parser of URLs, \<open>localeCompare\<close>, \<open>JSON.parse\<close>, full lower-casing, \<open>realpath\<close>) is a parameter of the definitions that use it. Paths are POSIX paths;
  the Windows spelling is kept where the gate itself distinguishes it.

  \<^bold>\<open>Theories and what they show.\<close>

  \<^descr> \<open>JSPrelude\<close>: results, strings, code points, UTF-8, and two locales of loops: \<open>guarded_loop\<close>, a loop whose step
    keeps an invariant, and \<open>finding_step\<close>, a loop that only adds findings, which is a \<open>guarded_loop\<close> by \<open>sublocale\<close>.
  \<^descr> \<open>TextEncoding\<close>: the strict UTF-8 decoder accepts exactly the encodings of scalar values and inverts them.
  \<^descr> \<open>NodePath\<close>, \<open>WhatwgURL\<close>, \<open>NodeDisk\<close>: what the tools use of Node's path module (\<open>escapesDirectory\<close> is exact on
    resolved parts), of the URL standard, and of the file system (a tree with the \<open>fs\<close> calls on it).
  \<^descr> \<open>GlobCompile\<close>, \<open>GlobMatch\<close>, \<open>GlobSafety\<close>: the glob compiler and the two matchers of \<open>verify.mjs\<close>. The locale
    \<open>glob_matcher\<close> states what a matcher with a star promises; the backtracking segment matcher and the path
    table are its instances, so both decide the declarative meaning of a glob within their step bounds, and
    compilation stays within its product bound.
  \<^descr> \<open>GateSettings\<close>: \<open>repositorySettings\<close>, \<open>styleExclusions\<close>, \<open>styleSelection\<close>: accepted settings are within their
    ceilings, and the selection is the built-in one minus the declared globs, with exact counts.
  \<^descr> \<open>GateProcess\<close>: \<open>commandLimit\<close>, \<open>boundedOutput\<close>, the classification of a finished child.
  \<^descr> \<open>GateInventory\<close>: parsing git's output (with its round trip), the link audit and the confined inventory.
  \<^descr> \<open>GateRun\<close>: the install, the lint child, batches, the two rule runs, modes and \<open>main\<close>. The runs are instances of
    \<open>guarded_loop\<close>; the verdict is 0 exactly when every child passed, and batches partition the files.
  \<^descr> \<open>GateFixtures\<close>: the glob and style-selection tables of the gate's own self-test, evaluated on the model.
  \<^descr> \<open>ScratchURL\<close>, \<open>ScratchCSS\<close>, \<open>ScratchHTML\<close>, \<open>ScratchMDX\<close>, \<open>ScratchScan\<close>: the private-link rule, from the resolution
    of one destination through the scanners of embedded languages to the scan of a file, the report and
    the worker thread as a state machine (\<open>worker_step\<close>, \<open>worker_reachable\<close>). Walks are complete against
    inductive reachability (\<open>subtree\<close>, \<open>es_reach\<close>); a scan without a finding means no collected destination
    reaches a scratch directory.
  \<^descr> \<open>FigureCore\<close>: validation, the layout walk (equal to the recursive traversal), the bounded description,
    escaping, decoration and the three outputs of a figure.
  \<^descr> \<open>FigureFences\<close>: fences of a page, the readers of \<open>mkdocs.yml\<close>, exclusion patterns, kinds and sites.
  \<^descr> \<open>FigureSources\<close>: slots, replacement of fences and marker blocks, the findings, portable pages.
  \<^descr> \<open>FigureServe\<close>: the request handler, which never leaves its mounts, and publishing, which overwrites nothing.
  \<^descr> \<open>FigurePage\<close>, \<open>FigureSite\<close>: the scanner of a built page, the listing and order of source pages, the source checks
    of a repository and the check of a built site, whose verdict is equivalent to a direct statement of what the
    site must hold. The locale \<open>page_source\<close> states what the checks use of a site generator; MkDocs and
    Starlight are its instances.
  \<^descr> \<open>FigureBuild\<close>, \<open>FigureCommand\<close>: the outputs, \<open>parseArgs\<close>, the subcommands and \<open>main\<close>; a build makes the check pass
    and touches nothing but the outputs.
  \<^descr> \<open>FigureFiles\<close>: the bounded readers of \<open>checks.mjs\<close>; every failure of theirs is one of the errors they declare.
  \<^descr> \<open>FigurePlayer\<close>, \<open>FigureAstro\<close>: the lock of the player's files, and the Astro integration with its slugs, page map and
    references.

  This theory composes them: what exit code 0 of the gate means, which exit codes there are, and when a run on
  changed files is the run on the whole tree.

  \<^bold>\<open>Not modelled.\<close> Of the JavaScript tools what is left is input and output around the modelled functions: the HTTP
  server around the request handler, the dynamic import of a specification and its timeout, the removal of an
  extraction at exit, \<open>configurationParsers\<close>, which only wires third-party parsers, message texts and success lines;
  and the self-tests other than the glob and style-selection tables, which run child processes, git, npm packages or the
  Markdown parser. Symbolic links are followed before a path reaches the tree of \<open>NodeDisk\<close>. Vendored code (the API
  reference bundle, the figure engine), the Go packages, Python, shell and configuration files are outside the
  JavaScript tools.
\<close>

section \<open>The documentation gate as a whole\<close>

lemma run_mode_gate:
  assumes "run_mode w lc Gate deadline = Inr (out, status)"
  shows "\<exists>repo s files sel scratchOut scratchStatus lintOut lintStatus.
    repositorySettings (w_unicode w) (w_load_all w) (w_manifest w) = Inr s \<and>
    inventory w deadline repo s = Inr files \<and>
    styleSelection (w_unicode w) files s (w_windows w) = Inr sel \<and>
    runScratchRule w deadline files = Inr (scratchOut, scratchStatus) \<and>
    runMarkdownlint w lc deadline repo (styled sel) s = Inr (lintOut, lintStatus) \<and>
    status = combineGateStatus scratchStatus lintStatus"
  using assms unfolding run_mode_def runGate_def combineGateStatus_def [symmetric]
  by (auto simp: res_simps) blast

lemma main_gate_zero:
  assumes "main w lc selfTest [] = 0"
  shows "\<exists>out. run_mode w lc Gate (Some (w_start w + of_int (GATE_DEADLINE_SECONDS * 1000))) = Inr (out, 0)"
  using assms by (auto simp: main_def gateMode_def withGateDeadline_def split: sum.splits prod.splits)

lemma combineGateStatus_zero: "combineGateStatus a b = 0 \<longleftrightarrow> a = 0 \<and> b = 0"
  by (simp add: combineGateStatus_def)

text \<open>
  C1. Exit code 0 of the gate means that everything was checked: the settings were read and are within
  their bounds, the inventory was taken (so its links were audited and its files are bounded and
  confined), the child that applies the private-link rule to every file of the inventory exited 0,
  and every batch of the style-selected files was linted by a child that exited 0, all under one
  deadline of 480 seconds from the start.
\<close>

theorem gate_zero_means_checked:
  assumes "main w lc selfTest [] = 0"
  shows "\<exists>deadline repo s files sel.
    deadline = Some (w_start w + 480000) \<and>
    repositorySettings (w_unicode w) (w_load_all w) (w_manifest w) = Inr s \<and>
    inventory w deadline repo s = Inr files \<and>
    styleSelection (w_unicode w) files s (w_windows w) = Inr sel \<and>
    scratch_passed w deadline files \<and>
    list_all (child_passed w deadline s) (enumerate 0 (batches (styled sel)))"
proof -
  let ?deadline = "Some (w_start w + 480000)"
  from main_gate_zero [OF assms] obtain out where "run_mode w lc Gate ?deadline = Inr (out, 0)"
    by (auto simp: GATE_DEADLINE_SECONDS_def)
  from run_mode_gate [OF this] obtain repo s files sel scratchOut scratchStatus lintOut lintStatus where
    facts: "repositorySettings (w_unicode w) (w_load_all w) (w_manifest w) = Inr s"
      "inventory w ?deadline repo s = Inr files"
      "styleSelection (w_unicode w) files s (w_windows w) = Inr sel" and
    scratch: "runScratchRule w ?deadline files = Inr (scratchOut, scratchStatus)" and
    lint: "runMarkdownlint w lc ?deadline repo (styled sel) s = Inr (lintOut, lintStatus)" and
    status: "0 = combineGateStatus scratchStatus lintStatus"
    by blast
  from status have "scratchStatus = 0" "lintStatus = 0" by (metis combineGateStatus_zero)+
  then have "scratch_passed w ?deadline files"
      "list_all (child_passed w ?deadline s) (enumerate 0 (batches (styled sel)))"
    using runScratchRule_passed(1) [OF scratch] runMarkdownlint_facts(1) [OF lint] by (simp_all add: list_all_iff)
  with facts show ?thesis by blast
qed

lemma sample_main: "main sample_world unit_compare (Inr 0) [] = 0"
proof -
  let ?d = "Some (w_start sample_world + of_int (GATE_DEADLINE_SECONDS * 1000))"
  have "w_copied sample_world = (\<lambda>_. True)" "w_windows sample_world = False" by (simp_all add: sample_world_def)
  then have i: "install sample_world ?d = Inr ()"
    by (simp add: install_def npmInvocation_def sample_run TOOL_FILES_def)
  have r: "repositoryRoot sample_world ?d = Inr (js ''/r'')"
    by (simp add: repositoryRoot_def sample_run exit_zero_def js_trim_def js_trim_start_def js_trim_end_def js_space_def Let_def)
       (simp add: sample_world_def)
  have s: "repositorySettings (w_unicode sample_world) (w_load_all sample_world) (w_manifest sample_world) = Inr DEFAULT_SETTINGS"
    by (simp add: repositorySettings_def readManifestText_def sample_world_def)
  have p: "runScratchRule sample_world ?d [js ''a.md''] = Inr ([], 0)"
    by (simp add: runScratchRule_def sample_run exit_zero_def)
  have "run_mode sample_world unit_compare Gate ?d = Inr ([summaryLine DEFAULT_SETTINGS \<lparr>styled = [js ''a.md''], sel_excluded = 0, counts = []\<rparr> 1], 0)"
    unfolding run_mode_def i r s res_bind_simps lift_error_def sum.case mode.case runGate_def sample_inventory
      sample_selection p prod.case selection.simps sample_lint
    by (simp add: reportSettings_def DEFAULT_SETTINGS_def)
  then show ?thesis by (simp add: main_def gateMode_def withGateDeadline_def)
qed

theorem gate_zero_means_checked_witness:
  "main sample_world unit_compare (Inr 0) [] = 0 \<and>
   (\<exists>files. scratch_passed sample_world (Some (w_start sample_world + 480000)) files)"
  using sample_main gate_zero_means_checked [OF sample_main] by blast

text \<open>
  Every exit code of the gate other than that of its self-test is 0, 1 or 2.
\<close>

theorem main_exit_codes:
  assumes "args \<noteq> [SELF_TEST_MODE]"
  shows "main w lc selfTest args \<in> {0, 1, 2}"
proof -
  have lint: "status \<in> {0, 1, 2}" if "runMarkdownlint w lc d repo files s = Inr (out, status)" for d repo files s out status
    using runMarkdownlint_facts(2) [OF that] .
  have gate: "status \<in> {0, 1, 2}" if "runGate w lc d repo s = Inr (out, status)" for d repo s out status
    using that by (auto simp: runGate_def res_simps)
  have changed: "status \<in> {0, 1, 2}" if "runChangedSince w lc d repo s ref = Inr (out, status)" for d repo s ref out status
    using that
    by (auto simp: runChangedSince_def res_simps combineGateStatus_def Let_def dest!: gate split: option.splits if_splits)
  have only: "status \<in> {0, 1, 2}" if "runOnly w lc d repo s named = Inr (out, status)" for d repo s named out status
    using that by (auto simp: runOnly_def res_simps dest!: lint)
  have mode: "status \<in> {0, 1, 2}" if "run_mode w lc m d = Inr (out, status)" for m d out status
    using that by (cases m) (auto simp: run_mode_def res_simps dest!: gate changed only)
  have "gateMode args \<noteq> Inr SelfTest"
    using assms by (auto simp: gateMode_def changedSinceMode_def throw_if_def length_Suc_conv)
  then show ?thesis
    unfolding main_def withGateDeadline_def fst_conv
    by (auto dest!: mode split: sum.splits mode.splits prod.splits)
qed

theorem main_exit_codes_witness:
  "[js ''--only''] \<noteq> [SELF_TEST_MODE] \<and> main sample_world unit_compare (Inr 0) [js ''--only''] \<in> {0, 1, 2}"
proof -
  have h: "[js ''--only''] \<noteq> [SELF_TEST_MODE]" by (simp add: SELF_TEST_MODE_def)
  show ?thesis using h main_exit_codes [OF h] by blast
qed

lemma changed_fallback_reason:
  assumes "p \<in> set paths" and "p = MANIFEST_FILE \<or> isDocumentationToolPath p" and "length paths \<le> MAX_TRACKED_ENTRIES"
  shows "\<exists>reason. changedTreeFallback paths ref = Some reason"
proof -
  have "find (\<lambda>r. r = MANIFEST_FILE \<or> isDocumentationToolPath r) paths \<noteq> None"
    using assms(1,2) by (auto simp: find_None_iff)
  then show ?thesis using assms(3) by (auto simp: changedTreeFallback_def)
qed

text \<open>
  C2. A \<open>--changed-since\<close> run cannot hide a change of its own rules: when the ref is unknown to git,
  or the manifest or any file of the gate's tooling changed, the run is the whole-tree run with one
  line in front.
\<close>

theorem changedSince_whole_tree:
  assumes "run_command w deadline (DiffSince ref) None True = Inr r"
    and "sp_status r \<noteq> Some 0 \<or>
      (length (nul_records (sp_stdout r)) \<le> MAX_TRACKED_ENTRIES \<and>
       (\<exists>p \<in> set (nul_records (sp_stdout r)). p = MANIFEST_FILE \<or> isDocumentationToolPath p))"
  shows "\<exists>line. runChangedSince w lc deadline repo s ref =
    res_bind (runGate w lc deadline repo s) (\<lambda>(out, status). Inr (line # out, status))"
proof -
  have "\<exists>reason paths. changedPathsSince w deadline ref = Inr (Some reason, paths)"
  proof (cases "sp_status r = Some 0")
    case True
    with assms(2) obtain p where p: "p \<in> set (nul_records (sp_stdout r))" "p = MANIFEST_FILE \<or> isDocumentationToolPath p"
      and n: "length (nul_records (sp_stdout r)) \<le> MAX_TRACKED_ENTRIES" by auto
    from changed_fallback_reason [OF p n, of ref] True assms(1) n show ?thesis
      by (auto simp: changedPathsSince_def Let_def)
  qed (use assms(1) in \<open>auto simp: changedPathsSince_def\<close>)
  then show ?thesis by (auto simp: runChangedSince_def Let_def)
qed

theorem changedSince_whole_tree_witness:
  "\<exists>line. runChangedSince (sample_world\<lparr>w_spawn := (\<lambda>c ms. exit_zero (js ''package.json''))\<rparr>) unit_compare None [] DEFAULT_SETTINGS (js ''main'') =
    res_bind (runGate (sample_world\<lparr>w_spawn := (\<lambda>c ms. exit_zero (js ''package.json''))\<rparr>) unit_compare None [] DEFAULT_SETTINGS)
      (\<lambda>(out, status). Inr (line # out, status))"
proof (rule changedSince_whole_tree)
  show "run_command (sample_world\<lparr>w_spawn := (\<lambda>c ms. exit_zero (js ''package.json''))\<rparr>) None (DiffSince (js ''main'')) None True =
      Inr (exit_zero (js ''package.json''))"
    by (simp add: run_command_def command_def exit_zero_def lift_error_def Let_def)
  show "sp_status (exit_zero (js ''package.json'')) \<noteq> Some 0 \<or>
      (length (nul_records (sp_stdout (exit_zero (js ''package.json'')))) \<le> MAX_TRACKED_ENTRIES \<and>
       (\<exists>p \<in> set (nul_records (sp_stdout (exit_zero (js ''package.json'')))). p = MANIFEST_FILE \<or> isDocumentationToolPath p))"
    by (simp add: exit_zero_def nul_records_def MAX_TRACKED_ENTRIES_def isDocumentationToolPath_def TOOL_FILES_def)
qed

end
